(* ===== verification/Prelude.thy ===== *)
theory Prelude
  imports Main "HOL-Library.Word"
begin

text \<open>
  Shared vocabulary of the development: the result monad that carries C++ exceptions,
  undefined behaviour and blocking calls; C integers; byte buffers with bounds-checked loads
  and stores (an access outside the buffer is the error \<open>Out_of_bounds\<close>, never an unspecified
  value); the counting loop; little-endian codecs; and two interfaces that several components
  share, \<open>transition_system\<close> (an invariant of a machine lifts to its runs) and
  \<open>raster\<close> (a two-dimensional pixel store and what a blit into it does).
\<close>

unbundle bit_operations_syntax

named_theorems res_simps \<open>rewrite rules of the result monad\<close>
named_theorems buf_simps \<open>rewrite rules of byte buffers\<close>
named_theorems codec_simps \<open>round-trip and size facts of byte codecs\<close>

section \<open>Results: values, exceptions, undefined behaviour\<close>

type_synonym u8 = "8 word"
type_synonym u16 = "16 word"
type_synonym u32 = "32 word"
type_synonym u64 = "64 word"
type_synonym bytes = "u8 list"

datatype ub = Signed_overflow | Out_of_bounds | Null_deref | Dangling | Bad_conversion

datatype exn =
    System_error int string      \<comment> \<open>\<open>std::system_error\<close> with its errno\<close>
  | Runtime_error string         \<comment> \<open>\<open>std::runtime_error\<close>\<close>
  | Out_of_range                 \<comment> \<open>\<open>std::out_of_range\<close>\<close>
  | Invalid_argument             \<comment> \<open>\<open>std::invalid_argument\<close>\<close>
  | Undefined ub                 \<comment> \<open>the C++ standard gives the execution no meaning\<close>
  | Blocked                      \<comment> \<open>a system call that does not return\<close>

type_synonym 'a res = "exn + 'a"

fun bindE :: "'a res \<Rightarrow> ('a \<Rightarrow> 'b res) \<Rightarrow> 'b res" where
  "bindE (Inl e) f = Inl e"
| "bindE (Inr x) f = f x"

lemma bindE_Inr_iff [res_simps]: "bindE m f = Inr y \<longleftrightarrow> (\<exists>x. m = Inr x \<and> f x = Inr y)"
  by (cases m) auto

lemma bindE_assoc [res_simps]: "bindE (bindE m f) g = bindE m (\<lambda>x. bindE (f x) g)"
  by (cases m) auto

lemma bindE_return [simp]: "bindE m Inr = m"
  by (cases m) auto

lemma bindE_cong [fundef_cong]:
  "m = m' \<Longrightarrow> (\<And>x. m' = Inr x \<Longrightarrow> f x = f' x) \<Longrightarrow> bindE m f = bindE m' f'"
  by (cases m') auto

section \<open>C integers\<close>

definition INT_MAX :: int where "INT_MAX = 2147483647"
definition INT_MIN :: int where "INT_MIN = - 2147483648"

text \<open>
  An \<open>int\<close> expression of the source is an exact HOL integer; \<open>ckint\<close> marks the arithmetic whose
  result may leave the range of \<open>int\<close>, where signed overflow is undefined behaviour.
\<close>

definition ckint :: "int \<Rightarrow> int res" where
  "ckint n = (if INT_MIN \<le> n \<and> n \<le> INT_MAX then Inr n else Inl (Undefined Signed_overflow))"

lemma ckint_ok [simp]: "INT_MIN \<le> n \<Longrightarrow> n \<le> INT_MAX \<Longrightarrow> ckint n = Inr n"
  by (simp add: ckint_def)

lemma ckint_Inr_iff [res_simps]: "ckint n = Inr m \<longleftrightarrow> m = n \<and> INT_MIN \<le> n \<and> n \<le> INT_MAX"
  by (auto simp: ckint_def)

text \<open>C++ division and remainder truncate towards zero.\<close>

definition cdiv :: "int \<Rightarrow> int \<Rightarrow> int" where
  "cdiv a b = sgn a * sgn b * (\<bar>a\<bar> div \<bar>b\<bar>)"

definition cmod :: "int \<Rightarrow> int \<Rightarrow> int" where
  "cmod a b = a - b * cdiv a b"

lemma cdiv_nonneg: "0 \<le> a \<Longrightarrow> 0 < b \<Longrightarrow> cdiv a b = a div b"
  by (cases "a = 0") (auto simp: cdiv_def sgn_if)

lemma cdiv_neg: "a < 0 \<Longrightarrow> 0 < b \<Longrightarrow> cdiv a b = - ((- a) div b)"
  by (auto simp: cdiv_def sgn_if)

lemma cmod_nonneg: "0 \<le> a \<Longrightarrow> 0 < b \<Longrightarrow> cmod a b = a mod b"
  by (simp add: cmod_def cdiv_nonneg minus_mult_div_eq_mod)

section \<open>Environment variables\<close>

text \<open>\<open>getenv\<close>: a partial map from names to values, fixed while the process runs.\<close>

type_synonym environment = "string \<rightharpoonup> string"

text \<open>A C string read at an index: the terminating NUL follows the last character.\<close>

definition cstr_at :: "string \<Rightarrow> nat \<Rightarrow> char" where
  "cstr_at s i = (if i < length s then s ! i else CHR 0x00)"

section \<open>Machines and their runs\<close>

text \<open>
  A component that reacts to events is a function \<open>step\<close> on its state; \<open>allowed s e\<close> says which
  events its environment can deliver in a state. A run folds \<open>step\<close> over its events.
\<close>

fun allowed_run :: "('s \<Rightarrow> 'e \<Rightarrow> bool) \<Rightarrow> ('s \<Rightarrow> 'e \<Rightarrow> 's) \<Rightarrow> 's \<Rightarrow> 'e list \<Rightarrow> bool" where
  "allowed_run allowed step s [] \<longleftrightarrow> True"
| "allowed_run allowed step s (e # es) \<longleftrightarrow> allowed s e \<and> allowed_run allowed step (step s e) es"

lemma allowed_run_True [simp]: "allowed_run (\<lambda>_ _. True) step s es"
  by (induction es arbitrary: s) auto

locale transition_system =
  fixes init :: "'s"
    and allowed :: "'s \<Rightarrow> 'e \<Rightarrow> bool"
    and step :: "'s \<Rightarrow> 'e \<Rightarrow> 's"
    and inv :: "'s \<Rightarrow> bool"
  assumes init_inv: "inv init"
    and step_inv: "inv s \<Longrightarrow> allowed s e \<Longrightarrow> inv (step s e)"
begin

lemma run_inv_from: "inv s \<Longrightarrow> allowed_run allowed step s es \<Longrightarrow> inv (foldl step s es)"
  by (induction es arbitrary: s) (auto intro: step_inv)

lemma run_inv: "allowed_run allowed step init es \<Longrightarrow> inv (foldl step init es)"
  by (rule run_inv_from [OF init_inv])

end

text \<open>
  A machine whose steps can fail, or that leaves a choice, is a relation between a state, an event
  and a result. \<open>reach step P\<close> are the states that events accepted by \<open>P\<close> lead to.
\<close>

inductive reach :: "('e \<Rightarrow> 's \<Rightarrow> 's res \<Rightarrow> bool) \<Rightarrow> ('s \<Rightarrow> 'e \<Rightarrow> bool) \<Rightarrow> 's \<Rightarrow> 's \<Rightarrow> bool"
  for step P s0 where
  reach_start: "reach step P s0 s0"
| reach_next: "reach step P s0 s \<Longrightarrow> P s e \<Longrightarrow> step e s (Inr s') \<Longrightarrow> reach step P s0 s'"

locale fallible_system =
  fixes step :: "'e \<Rightarrow> 's \<Rightarrow> 's res \<Rightarrow> bool"
    and inv :: "'s \<Rightarrow> bool"
    and allowed :: "'s \<Rightarrow> 'e \<Rightarrow> bool"
    and failure :: "'e \<Rightarrow> exn \<Rightarrow> bool"
  assumes step_ok: "step e s r \<Longrightarrow> inv s \<Longrightarrow> allowed s e \<Longrightarrow>
    (case r of Inl x \<Rightarrow> failure e x | Inr s' \<Rightarrow> inv s')"
begin

lemma reach_inv:
  assumes "reach step P s0 s" "inv s0" "\<And>s e. P s e \<Longrightarrow> allowed s e"
  shows "inv s"
  using assms(1)
proof (induction rule: reach.induct)
  case (reach_next s e s')
  then show ?case using step_ok [of e s "Inr s'"] assms(3) by simp
qed (rule assms(2))

lemma reach_step_ok:
  assumes "reach step P s0 s" "inv s0" "\<And>s e. P s e \<Longrightarrow> allowed s e" "allowed s e" "step e s r"
  shows "case r of Inl x \<Rightarrow> failure e x | Inr s' \<Rightarrow> inv s'"
  using step_ok [OF assms(5) reach_inv [OF assms(1-3)] assms(4)] by simp

end

end
