(* ===== verification/Buffers.thy ===== *)
theory Buffers
  imports Prelude
begin

text \<open>
  Byte buffers and the loops that fill them. A load or a store outside its buffer is the error
  \<open>Undefined Out_of_bounds\<close>, so that a theorem saying an operation returns \<open>Inr\<close> also says that
  it is memory safe. The locale \<open>raster\<close> is the interface the blits rely on: a store of pixels
  addressed by column and row, with the law of one \<open>put\<close>; its lemmas say what a two-level
  loop of clipped puts leaves in the store. \<open>byte_put\<close> and \<open>byte_get\<close>, a byte buffer with a
  row stride and a number of bytes per pixel, are an instance.
\<close>

section \<open>Counting loops\<close>

text \<open>\<open>for (i = 0; i < n; ++i) s = f(i, s);\<close> with the body in the result monad.\<close>

fun for_upto :: "nat \<Rightarrow> (nat \<Rightarrow> 's \<Rightarrow> 's res) \<Rightarrow> 's \<Rightarrow> 's res" where
  "for_upto 0 f s = Inr s"
| "for_upto (Suc n) f s = bindE (for_upto n f s) (f n)"

lemma for_upto_cong: "(\<And>i. i < n \<Longrightarrow> f i = g i) \<Longrightarrow> for_upto n f s = for_upto n g s"
  by (induction n) auto

lemma for_upto_invariant:
  assumes init: "P 0 s"
    and step: "\<And>i s. i < n \<Longrightarrow> P i s \<Longrightarrow> \<exists>s'. f i s = Inr s' \<and> P (Suc i) s'"
  shows "\<exists>s'. for_upto n f s = Inr s' \<and> P n s'"
  using step
proof (induction n)
  case 0
  show ?case using init by simp
next
  case (Suc n)
  have "\<exists>s'. for_upto n f s = Inr s' \<and> P n s'"
    by (rule Suc.IH) (rule Suc.prems, auto)
  then obtain s1 where s1: "for_upto n f s = Inr s1" "P n s1" by blast
  with Suc.prems [of n s1] show ?case by auto
qed

section \<open>Loads and stores\<close>

definition load_bytes :: "bytes \<Rightarrow> int \<Rightarrow> nat \<Rightarrow> bytes res" where
  "load_bytes b off n =
     (if 0 \<le> off \<and> off + int n \<le> int (length b) then Inr (take n (drop (nat off) b))
      else Inl (Undefined Out_of_bounds))"

definition store_bytes :: "bytes \<Rightarrow> int \<Rightarrow> bytes \<Rightarrow> bytes res" where
  "store_bytes b off p =
     (if 0 \<le> off \<and> off + int (length p) \<le> int (length b)
      then Inr (take (nat off) b @ p @ drop (nat off + length p) b)
      else Inl (Undefined Out_of_bounds))"

text \<open>\<open>memcpy(dst + doff, src + soff, n)\<close> between two different buffers.\<close>

definition memcpy :: "bytes \<Rightarrow> int \<Rightarrow> bytes \<Rightarrow> int \<Rightarrow> nat \<Rightarrow> bytes res" where
  "memcpy dst doff src soff n = bindE (load_bytes src soff n) (store_bytes dst doff)"

lemma load_bytes_ok [buf_simps]:
  "0 \<le> off \<Longrightarrow> off + int n \<le> int (length b) \<Longrightarrow>
     load_bytes b off n = Inr (take n (drop (nat off) b))"
  by (simp add: load_bytes_def)

lemma store_bytes_ok [buf_simps]:
  "0 \<le> off \<Longrightarrow> off + int (length p) \<le> int (length b) \<Longrightarrow>
     store_bytes b off p = Inr (take (nat off) b @ p @ drop (nat off + length p) b)"
  by (simp add: store_bytes_def)

lemma load_bytes_length: "load_bytes b off n = Inr p \<Longrightarrow> length p = n"
  by (auto simp: load_bytes_def split: if_splits)

lemma store_bytes_length: "store_bytes b off p = Inr b' \<Longrightarrow> length b' = length b"
  by (auto simp: store_bytes_def split: if_splits)

lemma splice_same:
  "a + length p \<le> length b \<Longrightarrow>
     take (length p) (drop a (take a b @ p @ drop (a + length p) b)) = p"
  by (simp add: min_def)

lemma splice_before:
  "k + n \<le> a \<Longrightarrow> a + m \<le> length b \<Longrightarrow>
     take n (drop k (take a b @ p @ drop (a + m) b)) = take n (drop k b)"
  by (simp add: take_drop min_def)

lemma splice_after:
  assumes "a + length p \<le> k" "a + length p \<le> length b"
  shows "take n (drop k (take a b @ p @ drop (a + length p) b)) = take n (drop k b)"
proof -
  have "drop k (take a b @ p @ drop (a + length p) b) = drop k b"
    using assms by (simp add: min_def drop_eq_Nil)
  then show ?thesis by simp
qed

text \<open>A long \<open>memcpy\<close> is a loop of short ones.\<close>

lemma memcpy_grow:
  assumes d: "0 \<le> d" "d + int (m + k) \<le> int (length dst)"
    and s: "0 \<le> s" "s + int (m + k) \<le> int (length src)"
  shows "memcpy dst d src s (m + k) =
         bindE (memcpy dst d src s m) (\<lambda>b. memcpy b (d + int m) src (s + int m) k)"
proof -
  have nd: "nat (d + int m) = nat d + m" and ns: "nat (s + int m) = nat s + m"
    using d s by (auto simp: nat_add_distrib)
  have dl: "nat d + m + k \<le> length dst" and sl: "nat s + m + k \<le> length src"
    using d s by auto
  let ?b = "take (nat d) dst @ take m (drop (nat s) src) @ drop (nat d + m) dst"
  have len: "length ?b = length dst" using dl sl by simp
  have h: "load_bytes src s (m + k) = Inr (take (m + k) (drop (nat s) src))"
    "load_bytes src s m = Inr (take m (drop (nat s) src))"
    "load_bytes src (s + int m) k = Inr (take k (drop (nat s + m) src))"
    using d s by (simp_all add: load_bytes_def ns)
  have l1: "min (length src - nat s) (m + k) = m + k" "min (length src - nat s) m = m"
    "min (length src - (nat s + m)) k = k"
    using sl by linarith+
  have e1: "memcpy dst d src s (m + k)
     = Inr (take (nat d) dst @ take (m + k) (drop (nat s) src) @ drop (nat d + (m + k)) dst)"
    using d unfolding memcpy_def h by (simp add: store_bytes_def l1)
  have e2: "memcpy dst d src s m = Inr ?b"
    using d unfolding memcpy_def h by (simp add: store_bytes_def l1)
  have e3: "memcpy ?b (d + int m) src (s + int m) k
     = Inr (take (nat d + m) ?b @ take k (drop (nat s + m) src) @ drop (nat d + m + k) ?b)"
    using d len unfolding memcpy_def h by (simp add: store_bytes_def l1 nd)
  have "take (nat d + m) ?b = take (nat d) dst @ take m (drop (nat s) src)"
    using dl sl l1 by simp
  moreover have "drop (nat d + m + k) ?b = drop (nat d + (m + k)) dst"
    using dl sl l1 by (simp add: ac_simps)
  moreover have "take (m + k) (drop (nat s) src)
      = take m (drop (nat s) src) @ take k (drop (nat s + m) src)"
    unfolding take_add by (simp add: add.commute)
  ultimately show ?thesis using e1 e2 e3 by simp
qed

lemma memcpy_as_loop:
  assumes "0 \<le> d" "d + int (n * k) \<le> int (length dst)"
    and "0 \<le> s" "s + int (n * k) \<le> int (length src)"
  shows "memcpy dst d src s (n * k) =
         for_upto n (\<lambda>i b. memcpy b (d + int i * int k) src (s + int i * int k) k) dst"
  using assms
proof (induction n)
  case 0
  then show ?case by (simp add: memcpy_def load_bytes_def store_bytes_def)
next
  case (Suc n)
  have "memcpy dst d src s (n * k + k) =
     bindE (memcpy dst d src s (n * k))
       (\<lambda>b. memcpy b (d + int (n * k)) src (s + int (n * k)) k)"
    by (rule memcpy_grow) (use Suc.prems in \<open>auto simp: algebra_simps\<close>)
  with Suc show ?case by (simp add: add.commute algebra_simps)
qed


section \<open>Rasters\<close>

text \<open>
  A raster is a store of pixels addressed by column and row. Its laws are those of one pixel
  store; the lemmas of the locale are the contract of a blit.
\<close>

locale raster =
  fixes wf :: "'g \<Rightarrow> 'b \<Rightarrow> bool"
    and width :: "'g \<Rightarrow> int"
    and height :: "'g \<Rightarrow> int"
    and valid :: "'g \<Rightarrow> 'p \<Rightarrow> bool"
    and get :: "'g \<Rightarrow> 'b \<Rightarrow> int \<Rightarrow> int \<Rightarrow> 'p"
    and put :: "'g \<Rightarrow> int \<Rightarrow> int \<Rightarrow> 'p \<Rightarrow> 'b \<Rightarrow> 'b res"
  assumes put_ok: "wf g b \<Longrightarrow> valid g p \<Longrightarrow> 0 \<le> c \<Longrightarrow> c < width g \<Longrightarrow> 0 \<le> r \<Longrightarrow> r < height g \<Longrightarrow>
      \<exists>b'. put g c r p b = Inr b' \<and> wf g b'"
    and put_get: "put g c r p b = Inr b' \<Longrightarrow> wf g b \<Longrightarrow> valid g p \<Longrightarrow>
      0 \<le> c \<Longrightarrow> c < width g \<Longrightarrow> 0 \<le> r \<Longrightarrow> r < height g \<Longrightarrow>
      0 \<le> c' \<Longrightarrow> c' < width g \<Longrightarrow> 0 \<le> r' \<Longrightarrow> r' < height g \<Longrightarrow>
      get g b' c' r' = (if c' = c \<and> r' = r then p else get g b c' r')"
begin

definition inside :: "'g \<Rightarrow> int \<Rightarrow> int \<Rightarrow> bool" where
  "inside g c r \<longleftrightarrow> 0 \<le> c \<and> c < width g \<and> 0 \<le> r \<and> r < height g"

text \<open>The pixels of the buffer after a write to the cells that \<open>S\<close> holds of.\<close>

definition painted :: "'g \<Rightarrow> (int \<Rightarrow> int \<Rightarrow> bool) \<Rightarrow> (int \<Rightarrow> int \<Rightarrow> 'p) \<Rightarrow> 'b \<Rightarrow> 'b \<Rightarrow> bool" where
  "painted g S px b b' \<longleftrightarrow> wf g b' \<and>
     (\<forall>c r. inside g c r \<longrightarrow> get g b' c r = (if S c r then px c r else get g b c r))"

lemma painted_none: "wf g b \<Longrightarrow> painted g (\<lambda>c r. False) px b b"
  by (simp add: painted_def)

lemma painted_cong:
  "painted g S px b b' \<Longrightarrow> (\<And>c r. inside g c r \<Longrightarrow> S c r = S' c r) \<Longrightarrow> painted g S' px b b'"
  by (auto simp: painted_def)

text \<open>A put that does nothing outside the raster.\<close>

definition put_clipped :: "'g \<Rightarrow> int \<Rightarrow> int \<Rightarrow> 'p \<Rightarrow> 'b \<Rightarrow> 'b res" where
  "put_clipped g c r p b = (if inside g c r then put g c r p b else Inr b)"

lemma put_clipped_painted:
  assumes b1: "painted g S px b b1" and p: "inside g c r \<Longrightarrow> valid g p \<and> p = px c r"
  shows "\<exists>b2. put_clipped g c r p b1 = Inr b2 \<and>
              painted g (\<lambda>c' r'. S c' r' \<or> (c' = c \<and> r' = r)) px b b2"
proof (cases "inside g c r")
  case False
  then show ?thesis using b1 by (auto simp: put_clipped_def elim!: painted_cong)
next
  case True
  with p have v: "valid g p" and pe: "p = px c r" by auto
  from b1 have wf1: "wf g b1" by (simp add: painted_def)
  from True wf1 v obtain b2 where b2: "put g c r p b1 = Inr b2" "wf g b2"
    using put_ok by (metis inside_def)
  have "get g b2 c' r' = (if S c' r' \<or> (c' = c \<and> r' = r) then px c' r' else get g b c' r')"
    if "inside g c' r'" for c' r'
    using that put_get [OF b2(1) wf1 v, of c' r'] True b1 pe
    by (auto simp: inside_def painted_def)
  with b2 True show ?thesis by (auto simp: put_clipped_def painted_def)
qed

text \<open>
  One row of a blit: source column \<open>x\<close> of row \<open>y\<close> goes to the cell \<open>(col x y, row x y)\<close>, and
  \<open>ix\<close>, \<open>iy\<close> give the source position of a cell back.
\<close>

lemma blit_row:
  fixes w :: nat and y :: int
  assumes b1: "painted g S (\<lambda>c r. px (ix c r) (iy c r)) b b1"
    and inv: "\<And>x c r. (col x y = c \<and> row x y = r) \<longleftrightarrow> (ix c r = x \<and> iy c r = y)"
    and v: "\<And>x. 0 \<le> x \<Longrightarrow> x < int w \<Longrightarrow> valid g (px x y)"
  shows "\<exists>b2. for_upto w (\<lambda>x. put_clipped g (col (int x) y) (row (int x) y) (px (int x) y)) b1 = Inr b2 \<and>
     painted g (\<lambda>c r. S c r \<or> (iy c r = y \<and> 0 \<le> ix c r \<and> ix c r < int w))
       (\<lambda>c r. px (ix c r) (iy c r)) b b2"
proof (rule for_upto_invariant [where P = "\<lambda>j b2.
    painted g (\<lambda>c r. S c r \<or> (iy c r = y \<and> 0 \<le> ix c r \<and> ix c r < int j))
      (\<lambda>c r. px (ix c r) (iy c r)) b b2"])
  show "painted g (\<lambda>c r. S c r \<or> (iy c r = y \<and> 0 \<le> ix c r \<and> ix c r < int 0))
      (\<lambda>c r. px (ix c r) (iy c r)) b b1"
    using b1 by (rule painted_cong) auto
next
  fix j s
  assume j: "j < w"
    and s: "painted g (\<lambda>c r. S c r \<or> (iy c r = y \<and> 0 \<le> ix c r \<and> ix c r < int j))
      (\<lambda>c r. px (ix c r) (iy c r)) b s"
  let ?c = "col (int j) y" and ?r = "row (int j) y"
  have at: "ix ?c ?r = int j \<and> iy ?c ?r = y" using inv [of "int j" ?c ?r] by simp
  from put_clipped_painted [OF s, of ?c ?r "px (int j) y"] at v j
  obtain b2 where b2: "put_clipped g ?c ?r (px (int j) y) s = Inr b2"
    "painted g (\<lambda>c' r'. (S c' r' \<or> (iy c' r' = y \<and> 0 \<le> ix c' r' \<and> ix c' r' < int j))
        \<or> (c' = ?c \<and> r' = ?r)) (\<lambda>c r. px (ix c r) (iy c r)) b b2"
    by auto
  have "painted g (\<lambda>c r. S c r \<or> (iy c r = y \<and> 0 \<le> ix c r \<and> ix c r < int (Suc j)))
      (\<lambda>c r. px (ix c r) (iy c r)) b b2"
    using b2(2)
  proof (rule painted_cong)
    fix c r
    have "(c = ?c \<and> r = ?r) = (ix c r = int j \<and> iy c r = y)"
      using inv [of "int j" c r] by auto
    then show "((S c r \<or> (iy c r = y \<and> 0 \<le> ix c r \<and> ix c r < int j)) \<or> (c = ?c \<and> r = ?r))
        = (S c r \<or> (iy c r = y \<and> 0 \<le> ix c r \<and> ix c r < int (Suc j)))"
      by auto
  qed
  with b2(1) show "\<exists>s'. put_clipped g ?c ?r (px (int j) y) s = Inr s' \<and>
      painted g (\<lambda>c r. S c r \<or> (iy c r = y \<and> 0 \<le> ix c r \<and> ix c r < int (Suc j)))
        (\<lambda>c r. px (ix c r) (iy c r)) b s'"
    by blast
qed

text \<open>A whole blit: rows \<open>0 \<le> y < h\<close> of \<open>w\<close> pixels.\<close>

lemma blit:
  fixes w h :: nat
  assumes wf: "wf g b"
    and inv: "\<And>x y c r. (col x y = c \<and> row x y = r) \<longleftrightarrow> (ix c r = x \<and> iy c r = y)"
    and v: "\<And>x y. 0 \<le> x \<Longrightarrow> x < int w \<Longrightarrow> 0 \<le> y \<Longrightarrow> y < int h \<Longrightarrow> valid g (px x y)"
  shows "\<exists>b2. for_upto h (\<lambda>y. for_upto w
       (\<lambda>x. put_clipped g (col (int x) (int y)) (row (int x) (int y)) (px (int x) (int y)))) b = Inr b2 \<and>
     painted g (\<lambda>c r. 0 \<le> iy c r \<and> iy c r < int h \<and> 0 \<le> ix c r \<and> ix c r < int w)
       (\<lambda>c r. px (ix c r) (iy c r)) b b2"
proof (rule for_upto_invariant [where P = "\<lambda>j b2.
    painted g (\<lambda>c r. 0 \<le> iy c r \<and> iy c r < int j \<and> 0 \<le> ix c r \<and> ix c r < int w)
      (\<lambda>c r. px (ix c r) (iy c r)) b b2"])
  show "painted g (\<lambda>c r. 0 \<le> iy c r \<and> iy c r < int 0 \<and> 0 \<le> ix c r \<and> ix c r < int w)
      (\<lambda>c r. px (ix c r) (iy c r)) b b"
    using painted_none [OF wf] by (rule painted_cong) auto
next
  fix j s
  assume j: "j < h"
    and s: "painted g (\<lambda>c r. 0 \<le> iy c r \<and> iy c r < int j \<and> 0 \<le> ix c r \<and> ix c r < int w)
      (\<lambda>c r. px (ix c r) (iy c r)) b s"
  from blit_row [where px = px and ix = ix and iy = iy and col = col and row = row
      and y = "int j" and w = w, OF s inv] v j
  obtain b2 where b2: "for_upto w (\<lambda>x. put_clipped g (col (int x) (int j)) (row (int x) (int j))
        (px (int x) (int j))) s = Inr b2"
    "painted g (\<lambda>c r. (0 \<le> iy c r \<and> iy c r < int j \<and> 0 \<le> ix c r \<and> ix c r < int w) \<or>
       (iy c r = int j \<and> 0 \<le> ix c r \<and> ix c r < int w)) (\<lambda>c r. px (ix c r) (iy c r)) b b2"
    by auto
  have "painted g (\<lambda>c r. 0 \<le> iy c r \<and> iy c r < int (Suc j) \<and> 0 \<le> ix c r \<and> ix c r < int w)
      (\<lambda>c r. px (ix c r) (iy c r)) b b2"
    using b2(2) by (rule painted_cong) auto
  with b2(1) show "\<exists>s'. for_upto w (\<lambda>x. put_clipped g (col (int x) (int j)) (row (int x) (int j))
        (px (int x) (int j))) s = Inr s' \<and>
      painted g (\<lambda>c r. 0 \<le> iy c r \<and> iy c r < int (Suc j) \<and> 0 \<le> ix c r \<and> ix c r < int w)
        (\<lambda>c r. px (ix c r) (iy c r)) b s'"
    by blast
qed

end

section \<open>Byte rasters\<close>

text \<open>A pixel buffer: bytes per pixel, bytes per row, columns and rows.\<close>

record geom =
  g_bpp :: nat
  g_stride :: int
  g_w :: int
  g_h :: int

definition byte_off :: "geom \<Rightarrow> int \<Rightarrow> int \<Rightarrow> int" where
  "byte_off g c r = r * g_stride g + c * int (g_bpp g)"

definition byte_wf :: "geom \<Rightarrow> bytes \<Rightarrow> bool" where
  "byte_wf g b \<longleftrightarrow> 0 < g_bpp g \<and> 0 \<le> g_w g \<and> 0 \<le> g_h g \<and>
     g_w g * int (g_bpp g) \<le> g_stride g \<and> g_h g * g_stride g \<le> int (length b)"

definition byte_get :: "geom \<Rightarrow> bytes \<Rightarrow> int \<Rightarrow> int \<Rightarrow> bytes" where
  "byte_get g b c r = take (g_bpp g) (drop (nat (byte_off g c r)) b)"

definition byte_put :: "geom \<Rightarrow> int \<Rightarrow> int \<Rightarrow> bytes \<Rightarrow> bytes \<Rightarrow> bytes res" where
  "byte_put g c r p b = store_bytes b (byte_off g c r) p"

definition byte_valid :: "geom \<Rightarrow> bytes \<Rightarrow> bool" where
  "byte_valid g p \<longleftrightarrow> length p = g_bpp g"

lemma byte_off_bounds:
  assumes "byte_wf g b" "0 \<le> c" "c < g_w g" "0 \<le> r" "r < g_h g"
  shows "0 \<le> byte_off g c r" "byte_off g c r + int (g_bpp g) \<le> int (length b)"
proof -
  let ?B = "int (g_bpp g)"
  have B: "0 < ?B" and W: "g_w g * ?B \<le> g_stride g" and H: "g_h g * g_stride g \<le> int (length b)"
    using assms by (auto simp: byte_wf_def)
  have S: "0 \<le> g_stride g" using W B assms by (smt (verit) mult_nonneg_nonneg)
  show "0 \<le> byte_off g c r" using assms S B by (simp add: byte_off_def)
  have "c * ?B + ?B \<le> g_w g * ?B"
    using assms B by (metis add.commute add_less_imp_less_left distrib_right linorder_not_less
        mult.left_neutral mult_right_mono zle_add1_eq_le not_less add1_zle_eq less_imp_le)
  moreover have "r * g_stride g + g_stride g \<le> g_h g * g_stride g"
    using assms S by (metis add1_zle_eq distrib_right mult.left_neutral mult_right_mono)
  ultimately show "byte_off g c r + ?B \<le> int (length b)"
    using W H by (simp add: byte_off_def)
qed

lemma byte_off_disjoint:
  assumes "byte_wf g b" "0 \<le> c" "c < g_w g" "0 \<le> c'" "c' < g_w g" "(c, r) \<noteq> (c', r')"
  shows "byte_off g c r + int (g_bpp g) \<le> byte_off g c' r' \<or>
         byte_off g c' r' + int (g_bpp g) \<le> byte_off g c r"
proof -
  let ?B = "int (g_bpp g)" and ?S = "g_stride g"
  have B: "0 < ?B" and W: "g_w g * ?B \<le> ?S" using assms by (auto simp: byte_wf_def)
  have step: "k * ?B + ?B \<le> l * ?B" if "k < l" for k l :: int
    using that B by (metis add1_zle_eq distrib_right mult.left_neutral mult_right_mono less_imp_le)
  have S: "0 \<le> ?S" using W B assms by (smt (verit) mult_nonneg_nonneg)
  have row: "k * ?S + ?S \<le> l * ?S" if "k < l" for k l :: int
    using that S by (metis add1_zle_eq distrib_right mult.left_neutral mult_right_mono)
  have inrow: "k * ?B + ?B \<le> ?S" if "k < g_w g" for k
    using step [OF that] W by simp
  have nn: "0 \<le> k * ?B" if "0 \<le> k" for k using that B by simp
  consider "r < r'" | "r' < r" | "r = r'" "c < c'" | "r = r'" "c' < c"
    using assms(6) by force
  then show ?thesis
  proof cases
    case 1
    then show ?thesis using row [OF 1] inrow [OF assms(3)] nn [OF assms(4)]
      by (simp add: byte_off_def)
  next
    case 2
    then show ?thesis using row [OF 2] inrow [OF assms(5)] nn [OF assms(2)]
      by (simp add: byte_off_def)
  qed (use step in \<open>auto simp: byte_off_def\<close>)
qed

interpretation br: raster byte_wf g_w g_h byte_valid byte_get byte_put
proof unfold_locales
  fix g b p c r
  assume a: "byte_wf g b" "byte_valid g p" "0 \<le> c" "c < g_w g" "0 \<le> r" "r < g_h g"
  from byte_off_bounds [OF a(1) a(3-6)] a show "\<exists>b'. byte_put g c r p b = Inr b' \<and> byte_wf g b'"
    by (auto simp: byte_put_def byte_valid_def byte_wf_def store_bytes_def)
next
  fix g c r p b b' c' r'
  assume put: "byte_put g c r p b = Inr b'"
    and a: "byte_wf g b" "byte_valid g p" "0 \<le> c" "c < g_w g" "0 \<le> r" "r < g_h g"
    and a': "0 \<le> c'" "c' < g_w g" "0 \<le> r'" "r' < g_h g"
  let ?o = "nat (byte_off g c r)" and ?o' = "nat (byte_off g c' r')"
  note bd = byte_off_bounds [OF a(1) a(3-6)] and bd' = byte_off_bounds [OF a(1) a']
  have lp: "length p = g_bpp g" using a by (simp add: byte_valid_def)
  have b': "b' = take ?o b @ p @ drop (?o + length p) b"
    using put bd lp by (simp add: byte_put_def store_bytes_def)
  show "byte_get g b' c' r' = (if c' = c \<and> r' = r then p else byte_get g b c' r')"
  proof (cases "c' = c \<and> r' = r")
    case True
    have "?o + length p \<le> length b" using bd lp by linarith
    with True show ?thesis
      unfolding byte_get_def b' using splice_same [of ?o p b] lp by simp
  next
    case False
    then have "(c, r) \<noteq> (c', r')" by auto
    from byte_off_disjoint [OF a(1) a(3,4) a'(1,2) this]
    consider "?o + length p \<le> ?o'" | "?o' + g_bpp g \<le> ?o"
      using bd bd' lp by linarith
    then show ?thesis
    proof cases
      case 1
      then show ?thesis using False bd lp splice_after [of ?o p ?o' b "g_bpp g"]
        unfolding byte_get_def b' by auto
    next
      case 2
      then show ?thesis using False bd lp splice_before [of ?o' "g_bpp g" ?o "length p" b p]
        unfolding byte_get_def b' by auto
    qed
  qed
qed

end
