(* ===== verification/Wire.thy ===== *)
theory Wire
  imports Buffers
begin

text \<open>
  The vncast qtfb wire protocol, version 1 (\<open>src/middleware/extension/src/qtfb/protocol.h\<close>, and
  the copy of it that the client compiles, \<open>src/src/rmioc/vncast_client.hpp\<close>). The structs are
  packed and little-endian, so a message is the concatenation of its 32-bit words (and, in the
  acknowledgement, the 64 bytes of the shm name). The locale \<open>message_codec\<close> is what both ends
  rely on: fixed size, and decoding inverts encoding on the front of a byte stream.
\<close>

section \<open>Little-endian words\<close>

definition le32 :: "u32 \<Rightarrow> bytes" where
  "le32 w = [ucast w, ucast (drop_bit 8 w), ucast (drop_bit 16 w), ucast (drop_bit 24 w)]"

definition unle32 :: "u8 \<Rightarrow> u8 \<Rightarrow> u8 \<Rightarrow> u8 \<Rightarrow> u32" where
  "unle32 a b c d =
     ucast a OR push_bit 8 (ucast b) OR push_bit 16 (ucast c) OR push_bit 24 (ucast d)"

lemma unle32_le32:
  "unle32 (ucast w) (ucast (drop_bit 8 w)) (ucast (drop_bit 16 w)) (ucast (drop_bit 24 w)) = w"
proof (rule bit_word_eqI)
  fix n assume "n < LENGTH(32)"
  then have "n < 8 \<or> (8 \<le> n \<and> n < 16) \<or> (16 \<le> n \<and> n < 24) \<or> (24 \<le> n \<and> n < 32)" by auto
  then show "bit (unle32 (ucast w) (ucast (drop_bit 8 w)) (ucast (drop_bit 16 w))
      (ucast (drop_bit 24 w))) n \<longleftrightarrow> bit w n"
    by (elim disjE) (auto simp: unle32_def bit_simps)
qed

lemma le32_unle32: "le32 (unle32 a b c d) = [a, b, c, d]"
proof -
  have "ucast (unle32 a b c d) = a"
    by (rule bit_word_eqI) (auto simp: unle32_def bit_simps)
  moreover have "ucast (drop_bit 8 (unle32 a b c d)) = b"
    by (rule bit_word_eqI) (auto simp: unle32_def bit_simps dest: bit_imp_le_length)
  moreover have "ucast (drop_bit 16 (unle32 a b c d)) = c"
    by (rule bit_word_eqI) (auto simp: unle32_def bit_simps dest: bit_imp_le_length)
  moreover have "ucast (drop_bit 24 (unle32 a b c d)) = d"
    by (rule bit_word_eqI) (auto simp: unle32_def bit_simps dest: bit_imp_le_length)
  ultimately show ?thesis by (simp add: le32_def)
qed

fun u32s :: "bytes \<Rightarrow> u32 list" where
  "u32s (a # b # c # d # bs) = unle32 a b c d # u32s bs"
| "u32s _ = []"

definition words_bytes :: "u32 list \<Rightarrow> bytes" where
  "words_bytes ws = concat (map le32 ws)"

lemma words_bytes_simps [codec_simps]:
  "words_bytes [] = []" "words_bytes (w # ws) = le32 w @ words_bytes ws"
  by (simp_all add: words_bytes_def)

lemma length_le32 [codec_simps]: "length (le32 w) = 4"
  by (simp add: le32_def)

lemma length_words_bytes [codec_simps]: "length (words_bytes ws) = 4 * length ws"
  by (induction ws) (auto simp: codec_simps)

lemma u32s_le32: "u32s (le32 w @ bs) = w # u32s bs"
  by (simp add: le32_def unle32_le32)

lemma u32s_words_bytes [codec_simps]: "u32s (words_bytes ws @ bs) = ws @ u32s bs"
  by (induction ws) (auto simp: codec_simps u32s_le32)

lemma u32s_words_bytes_Nil [codec_simps]: "u32s (words_bytes ws) = ws"
  using u32s_words_bytes [of ws "[]"] by simp

lemma words_bytes_u32s: "length bs = 4 * n \<Longrightarrow> words_bytes (u32s bs) = bs \<and> length (u32s bs) = n"
proof (induction bs arbitrary: n rule: u32s.induct)
  case (1 a b c d bs)
  from "1.prems" obtain m where m: "n = Suc m" "length bs = 4 * m" by (cases n) auto
  from "1.IH" [OF m(2)] m(1) show ?case by (simp add: codec_simps le32_unle32)
qed (simp_all add: codec_simps, presburger+)

section \<open>Message codecs\<close>

locale message_codec =
  fixes size :: nat
    and wf :: "'m \<Rightarrow> bool"
    and enc :: "'m \<Rightarrow> bytes"
    and dec :: "bytes \<Rightarrow> 'm option"
  assumes enc_size: "wf m \<Longrightarrow> length (enc m) = size"
    and dec_enc: "wf m \<Longrightarrow> dec (enc m) = Some m"
    and dec_total: "length bs = size \<Longrightarrow> \<exists>m. dec bs = Some m \<and> wf m \<and> enc m = bs"
begin

lemma take_enc: "wf m \<Longrightarrow> take size (enc m @ rest) = enc m"
  using enc_size by simp

lemma drop_enc: "wf m \<Longrightarrow> drop size (enc m @ rest) = rest"
  using enc_size by simp

lemma dec_stream: "wf m \<Longrightarrow> dec (take size (enc m @ rest)) = Some m"
  by (simp add: enc_size dec_enc)

lemma enc_inj: "wf m \<Longrightarrow> wf m' \<Longrightarrow> enc m = enc m' \<Longrightarrow> m = m'"
  by (metis dec_enc option.inject)

lemma dec_prefix: "size \<le> length bs \<Longrightarrow> \<exists>m. dec (take size bs) = Some m \<and> wf m"
  using dec_total [of "take size bs"] by auto

end

section \<open>Tags, modes and messages\<close>

definition MAGIC :: u32 where "MAGIC = 0x56434B31"
definition VERSION :: u32 where "VERSION = 1"
definition SOCKET :: string where "SOCKET = ''/run/vncast.sock''"

datatype tag = HelloC2S | HelloAckS2C | FrameTag | InputS2C | CursorC2S | ByeTag

fun tag_code :: "tag \<Rightarrow> u32" where
  "tag_code HelloC2S = 0x01"
| "tag_code HelloAckS2C = 0x02"
| "tag_code FrameTag = 0x03"
| "tag_code InputS2C = 0x04"
| "tag_code CursorC2S = 0x05"
| "tag_code ByeTag = 0xFF"

datatype frame_mode = AutoMode | Pen | Mono | Animation | Content | UI

fun frame_mode_code :: "frame_mode \<Rightarrow> u32" where
  "frame_mode_code AutoMode = 0xFFFFFFFF"
| "frame_mode_code Pen = 0"
| "frame_mode_code Mono = 1"
| "frame_mode_code Animation = 2"
| "frame_mode_code Content = 3"
| "frame_mode_code UI = 4"

record header =
  magic :: u32
  htag :: u32

record hello_c2s =
  hello_header :: header
  client_version :: u32
  requested_w :: u32
  requested_h :: u32
  requested_fps :: u32

record hello_ack =
  ack_header :: header
  accepted :: u32
  ack_w :: u32
  ack_h :: u32
  ack_stride :: u32
  ack_bpp :: u32
  ack_format :: u32
  shm_name_len :: u32
  shm_name :: bytes

record frame =
  frame_header :: header
  frame_seq :: u32
  frame_x :: u32
  frame_y :: u32
  frame_w :: u32
  frame_h :: u32
  frame_mode :: u32

record cursor =
  cursor_header :: header
  cursor_x :: int      \<comment> \<open>\<open>int32_t\<close>\<close>
  cursor_y :: int      \<comment> \<open>\<open>int32_t\<close>\<close>
  cursor_w :: u32
  cursor_h :: u32
  cursor_visible :: u32

record bye =
  bye_header :: header
  reason :: u32

definition mk_header :: "tag \<Rightarrow> header" where
  "mk_header t = \<lparr>magic = MAGIC, htag = tag_code t\<rparr>"

section \<open>Their layout in bytes\<close>

definition enc_header :: "header \<Rightarrow> bytes" where
  "enc_header h = words_bytes [magic h, htag h]"

definition dec_header :: "bytes \<Rightarrow> header option" where
  "dec_header bs = (case u32s bs of [m, t] \<Rightarrow> Some \<lparr>magic = m, htag = t\<rparr> | _ \<Rightarrow> None)"

definition enc_hello :: "hello_c2s \<Rightarrow> bytes" where
  "enc_hello m = words_bytes [magic (hello_header m), htag (hello_header m), client_version m,
     requested_w m, requested_h m, requested_fps m]"

definition dec_hello :: "bytes \<Rightarrow> hello_c2s option" where
  "dec_hello bs = (case u32s bs of
     [m, t, v, w, h, f] \<Rightarrow> Some \<lparr>hello_header = \<lparr>magic = m, htag = t\<rparr>, client_version = v,
       requested_w = w, requested_h = h, requested_fps = f\<rparr>
   | _ \<Rightarrow> None)"

definition enc_ack :: "hello_ack \<Rightarrow> bytes" where
  "enc_ack m = words_bytes [magic (ack_header m), htag (ack_header m), accepted m, ack_w m,
     ack_h m, ack_stride m, ack_bpp m, ack_format m, shm_name_len m] @ shm_name m"

definition dec_ack :: "bytes \<Rightarrow> hello_ack option" where
  "dec_ack bs = (case u32s (take 36 bs) of
     [m, t, a, w, h, s, b, f, n] \<Rightarrow> Some \<lparr>ack_header = \<lparr>magic = m, htag = t\<rparr>, accepted = a,
       ack_w = w, ack_h = h, ack_stride = s, ack_bpp = b, ack_format = f, shm_name_len = n,
       shm_name = drop 36 bs\<rparr>
   | _ \<Rightarrow> None)"

definition ack_wf :: "hello_ack \<Rightarrow> bool" where
  "ack_wf m \<longleftrightarrow> length (shm_name m) = 64"

definition enc_frame :: "frame \<Rightarrow> bytes" where
  "enc_frame m = words_bytes [magic (frame_header m), htag (frame_header m), frame_seq m,
     frame_x m, frame_y m, frame_w m, frame_h m, frame_mode m]"

definition dec_frame :: "bytes \<Rightarrow> frame option" where
  "dec_frame bs = (case u32s bs of
     [m, t, s, x, y, w, h, d] \<Rightarrow> Some \<lparr>frame_header = \<lparr>magic = m, htag = t\<rparr>, frame_seq = s,
       frame_x = x, frame_y = y, frame_w = w, frame_h = h, frame_mode = d\<rparr>
   | _ \<Rightarrow> None)"

definition enc_cursor :: "cursor \<Rightarrow> bytes" where
  "enc_cursor m = words_bytes [magic (cursor_header m), htag (cursor_header m),
     word_of_int (cursor_x m), word_of_int (cursor_y m), cursor_w m, cursor_h m, cursor_visible m]"

definition dec_cursor :: "bytes \<Rightarrow> cursor option" where
  "dec_cursor bs = (case u32s bs of
     [m, t, x, y, w, h, v] \<Rightarrow> Some \<lparr>cursor_header = \<lparr>magic = m, htag = t\<rparr>, cursor_x = sint x,
       cursor_y = sint y, cursor_w = w, cursor_h = h, cursor_visible = v\<rparr>
   | _ \<Rightarrow> None)"

definition cursor_wf :: "cursor \<Rightarrow> bool" where
  "cursor_wf m \<longleftrightarrow> INT_MIN \<le> cursor_x m \<and> cursor_x m \<le> INT_MAX \<and>
     INT_MIN \<le> cursor_y m \<and> cursor_y m \<le> INT_MAX"

definition enc_bye :: "bye \<Rightarrow> bytes" where
  "enc_bye m = words_bytes [magic (bye_header m), htag (bye_header m), reason m]"

definition dec_bye :: "bytes \<Rightarrow> bye option" where
  "dec_bye bs = (case u32s bs of
     [m, t, r] \<Rightarrow> Some \<lparr>bye_header = \<lparr>magic = m, htag = t\<rparr>, reason = r\<rparr> | _ \<Rightarrow> None)"

lemma length_Suc_list: "length xs = Suc n \<Longrightarrow> \<exists>y ys. xs = y # ys \<and> length ys = n"
  by (cases xs) auto

lemma length_eq_cases:
  "length xs = 2 \<Longrightarrow> \<exists>a b. xs = [a, b]"
  "length xs = 3 \<Longrightarrow> \<exists>a b c. xs = [a, b, c]"
  "length xs = 6 \<Longrightarrow> \<exists>a b c d e f. xs = [a, b, c, d, e, f]"
  "length xs = 7 \<Longrightarrow> \<exists>a b c d e f g. xs = [a, b, c, d, e, f, g]"
  "length xs = 8 \<Longrightarrow> \<exists>a b c d e f g h. xs = [a, b, c, d, e, f, g, h]"
  "length xs = 9 \<Longrightarrow> \<exists>a b c d e f g h i. xs = [a, b, c, d, e, f, g, h, i]"
  by (auto simp: eval_nat_numeral dest!: length_Suc_list)

lemma sint_word_of_int32:
  "INT_MIN \<le> n \<Longrightarrow> n \<le> INT_MAX \<Longrightarrow> sint (word_of_int n :: u32) = n"
  by (simp add: INT_MIN_def INT_MAX_def sint_sbintrunc' signed_take_bit_int_eq_self)

lemma sint32_range: "INT_MIN \<le> sint (w :: u32)" "sint (w :: u32) \<le> INT_MAX"
  using sint_greater_eq [of w] sint_less [of w] by (simp_all add: INT_MIN_def INT_MAX_def)

lemma sint_u32_small: "uint (m :: u32) < 2 ^ 31 \<Longrightarrow> sint m = uint m"
  using uint_ge_0 [of m]
  by (subst sint_uint) (rule signed_take_bit_int_eq_self, auto intro: order_trans [of _ 0])

lemma sint_u32_large: "2 ^ 31 \<le> uint (m :: u32) \<Longrightarrow> sint m = uint m - 2 ^ 32"
proof -
  assume a: "2 ^ 31 \<le> uint m"
  have t: "take_bit 32 (uint m) = uint m" using uint_lt2p [of m] by (simp add: take_bit_int_eq_self)
  have "sint m = uint m - 2 ^ 32 * of_bool (bit (uint m) 31)"
    by (simp add: sint_uint signed_take_bit_eq_take_bit_minus t)
  with a sint32_range(2) [of m] show ?thesis
    by (cases "bit (uint m) 31") (auto simp: INT_MAX_def)
qed

interpretation header_codec: message_codec 8 "\<lambda>_. True" enc_header dec_header
proof unfold_locales
  show "\<exists>m. dec_header bs = Some m \<and> True \<and> enc_header m = bs" if "length bs = 8" for bs
    using words_bytes_u32s [of bs 2] that length_eq_cases(1) [of "u32s bs"]
    by (auto simp: dec_header_def enc_header_def)
qed (auto simp: enc_header_def dec_header_def u32s_words_bytes_Nil length_words_bytes)

interpretation hello_codec: message_codec 24 "\<lambda>_. True" enc_hello dec_hello
proof unfold_locales
  show "\<exists>m. dec_hello bs = Some m \<and> True \<and> enc_hello m = bs" if "length bs = 24" for bs
    using words_bytes_u32s [of bs 6] that length_eq_cases(3) [of "u32s bs"]
    by (auto simp: dec_hello_def enc_hello_def)
qed (auto simp: enc_hello_def dec_hello_def u32s_words_bytes_Nil length_words_bytes)

interpretation ack_codec: message_codec 100 ack_wf enc_ack dec_ack
proof unfold_locales
  show "\<exists>m. dec_ack bs = Some m \<and> ack_wf m \<and> enc_ack m = bs" if "length bs = 100" for bs
  proof -
    have "length (take 36 bs) = 4 * 9" using that by simp
    from words_bytes_u32s [OF this] length_eq_cases(6) [of "u32s (take 36 bs)"]
    obtain a b c d e f g h i where w: "u32s (take 36 bs) = [a, b, c, d, e, f, g, h, i]"
      "words_bytes [a, b, c, d, e, f, g, h, i] = take 36 bs" by auto
    show ?thesis using w that by (simp add: dec_ack_def enc_ack_def ack_wf_def)
  qed
qed (auto simp: enc_ack_def dec_ack_def ack_wf_def u32s_words_bytes_Nil length_words_bytes)

interpretation frame_codec: message_codec 32 "\<lambda>_. True" enc_frame dec_frame
proof unfold_locales
  show "\<exists>m. dec_frame bs = Some m \<and> True \<and> enc_frame m = bs" if "length bs = 32" for bs
    using words_bytes_u32s [of bs 8] that length_eq_cases(5) [of "u32s bs"]
    by (auto simp: dec_frame_def enc_frame_def)
qed (auto simp: enc_frame_def dec_frame_def u32s_words_bytes_Nil length_words_bytes)

interpretation cursor_codec: message_codec 28 cursor_wf enc_cursor dec_cursor
proof unfold_locales
  show "\<exists>m. dec_cursor bs = Some m \<and> cursor_wf m \<and> enc_cursor m = bs" if "length bs = 28" for bs
    using words_bytes_u32s [of bs 7] that length_eq_cases(4) [of "u32s bs"]
    by (auto simp: dec_cursor_def enc_cursor_def cursor_wf_def sint32_range)
qed (auto simp: enc_cursor_def dec_cursor_def cursor_wf_def u32s_words_bytes_Nil length_words_bytes
      sint_word_of_int32)

interpretation bye_codec: message_codec 12 "\<lambda>_. True" enc_bye dec_bye
proof unfold_locales
  show "\<exists>m. dec_bye bs = Some m \<and> True \<and> enc_bye m = bs" if "length bs = 12" for bs
    using words_bytes_u32s [of bs 3] that length_eq_cases(2) [of "u32s bs"]
    by (auto simp: dec_bye_def enc_bye_def)
qed (auto simp: enc_bye_def dec_bye_def u32s_words_bytes_Nil length_words_bytes)

text \<open>Every message starts with the header that the receiver peeks at.\<close>

lemma header_of_messages:
  "take 8 (enc_hello m @ bs) = enc_header (hello_header m)"
  "take 8 (enc_ack a @ bs) = enc_header (ack_header a)"
  "take 8 (enc_frame f @ bs) = enc_header (frame_header f)"
  "take 8 (enc_cursor c @ bs) = enc_header (cursor_header c)"
  "take 8 (enc_bye b @ bs) = enc_header (bye_header b)"
  by (simp_all add: enc_hello_def enc_ack_def enc_frame_def enc_cursor_def enc_bye_def
      enc_header_def codec_simps le32_def)

section \<open>What a client sends\<close>

text \<open>The messages from client to server, their encoding, and the stream of several of them.\<close>

datatype c2s = C2S_Hello hello_c2s | C2S_Frame frame | C2S_Cursor cursor | C2S_Bye bye

fun enc_c2s :: "c2s \<Rightarrow> bytes" where
  "enc_c2s (C2S_Hello m) = enc_hello m"
| "enc_c2s (C2S_Frame m) = enc_frame m"
| "enc_c2s (C2S_Cursor m) = enc_cursor m"
| "enc_c2s (C2S_Bye m) = enc_bye m"

definition enc_all :: "c2s list \<Rightarrow> bytes" where
  "enc_all ms = concat (map enc_c2s ms)"

lemma enc_all_simps [simp]:
  "enc_all [] = []" "enc_all (m # ms) = enc_c2s m @ enc_all ms" "enc_all (xs @ ys) = enc_all xs @ enc_all ys"
  by (simp_all add: enc_all_def)

fun c2s_wf :: "c2s \<Rightarrow> bool" where
  "c2s_wf (C2S_Hello m) \<longleftrightarrow> hello_header m = mk_header HelloC2S"
| "c2s_wf (C2S_Frame m) \<longleftrightarrow> frame_header m = mk_header FrameTag"
| "c2s_wf (C2S_Cursor m) \<longleftrightarrow> cursor_header m = mk_header CursorC2S \<and> cursor_wf m"
| "c2s_wf (C2S_Bye m) \<longleftrightarrow> bye_header m = mk_header ByeTag"

fun frames_of :: "c2s list \<Rightarrow> frame list" where
  "frames_of [] = []"
| "frames_of (C2S_Frame f # ms) = f # frames_of ms"
| "frames_of (_ # ms) = frames_of ms"

lemma frames_of_append [simp]: "frames_of (xs @ ys) = frames_of xs @ frames_of ys"
  by (induction xs rule: frames_of.induct) auto

lemma length_enc_cursor: "length (enc_cursor m) = 28"
  by (simp add: enc_cursor_def length_words_bytes)


text \<open>Messages after which the connection stays open.\<close>

fun keeps_open :: "c2s \<Rightarrow> bool" where
  "keeps_open (C2S_Hello m) \<longleftrightarrow> client_version m = VERSION"
| "keeps_open (C2S_Bye m) \<longleftrightarrow> False"
| "keeps_open _ \<longleftrightarrow> True"

fun frame_or_cursor :: "c2s \<Rightarrow> bool" where
  "frame_or_cursor (C2S_Frame f) = True"
| "frame_or_cursor (C2S_Cursor c) = True"
| "frame_or_cursor _ = False"

lemma frames_keep_open: "list_all frame_or_cursor ms \<Longrightarrow> list_all keeps_open ms"
  by (induction ms) (auto elim: frame_or_cursor.elims)

end
