(* ===== verification/CText.thy ===== *)
theory CText
  imports Prelude
begin

text \<open>
  Decimal integers as text: what \<open>fscanf("%d")\<close>, \<open>sscanf\<close>, \<open>strtol(s, nullptr, 10)\<close> and
  \<open>std::stoi\<close> read, and what \<open>fprintf("%d")\<close> and \<open>QString::number\<close> write. The two sides
  meet wherever one process of the program hands a number to another through a file or an
  environment variable.
\<close>

definition is_digit :: "char \<Rightarrow> bool" where
  "is_digit c \<longleftrightarrow> 48 \<le> (of_char c :: nat) \<and> (of_char c :: nat) \<le> 57"

definition digit_val :: "char \<Rightarrow> nat" where
  "digit_val c = of_char c - 48"

definition digit_char :: "nat \<Rightarrow> char" where
  "digit_char n = char_of (48 + n)"

definition is_space :: "char \<Rightarrow> bool" where
  "is_space c \<longleftrightarrow> (of_char c :: nat) = 32 \<or> (9 \<le> (of_char c :: nat) \<and> (of_char c :: nat) \<le> 13)"

definition digits_val :: "string \<Rightarrow> nat" where
  "digits_val ds = foldl (\<lambda>a c. 10 * a + digit_val c) 0 ds"

definition scan_nat :: "string \<Rightarrow> (nat \<times> string) option" where
  "scan_nat s =
     (let ds = takeWhile is_digit s in
      if ds = [] then None else Some (digits_val ds, dropWhile is_digit s))"

text \<open>White space, an optional sign, digits: the value and what follows, \<open>None\<close> for no number.\<close>

definition scan_int :: "string \<Rightarrow> (int \<times> string) option" where
  "scan_int s =
     (case dropWhile is_space s of
        [] \<Rightarrow> None
      | c # cs \<Rightarrow>
          if c = CHR ''-'' then map_option (\<lambda>(v, r). (- int v, r)) (scan_nat cs)
          else if c = CHR ''+'' then map_option (\<lambda>(v, r). (int v, r)) (scan_nat cs)
          else map_option (\<lambda>(v, r). (int v, r)) (scan_nat (c # cs)))"

fun show_nat :: "nat \<Rightarrow> string" where
  "show_nat n = (if n < 10 then [digit_char n] else show_nat (n div 10) @ [digit_char (n mod 10)])"

declare show_nat.simps [simp del]

definition show_int :: "int \<Rightarrow> string" where
  "show_int n = (if n < 0 then CHR ''-'' # show_nat (nat (- n)) else show_nat (nat n))"

text \<open>\<open>strtol\<close>: 0 when there is no number, saturated at the range of a 64-bit \<open>long\<close>.\<close>

definition strtol :: "string \<Rightarrow> int" where
  "strtol s = (case scan_int s of None \<Rightarrow> 0 | Some (v, _) \<Rightarrow> max (- (2 ^ 63)) (min (2 ^ 63 - 1) v))"

text \<open>\<open>std::stoi\<close> throws when there is no number or when it does not fit an \<open>int\<close>.\<close>

definition stoi :: "string \<Rightarrow> int res" where
  "stoi s =
     (case scan_int s of
        None \<Rightarrow> Inl Invalid_argument
      | Some (v, _) \<Rightarrow> if INT_MIN \<le> v \<and> v \<le> INT_MAX then Inr v else Inl Out_of_range)"

lemma of_char_digit_char: "n < 10 \<Longrightarrow> (of_char (digit_char n) :: nat) = 48 + n"
  by (simp add: digit_char_def)

lemma is_digit_digit_char: "n < 10 \<Longrightarrow> is_digit (digit_char n)"
  by (simp add: is_digit_def of_char_digit_char)

lemma digit_val_digit_char: "n < 10 \<Longrightarrow> digit_val (digit_char n) = n"
  by (simp add: digit_val_def of_char_digit_char)

lemma show_nat_digits: "\<forall>c \<in> set (show_nat n). is_digit c"
proof (induction n rule: show_nat.induct)
  case (1 n)
  then show ?case
    by (cases "n < 10") (auto simp: show_nat.simps [of n] is_digit_digit_char)
qed

lemma show_nat_nonempty: "show_nat n \<noteq> []"
  by (subst show_nat.simps) simp

lemma digits_val_show_nat: "digits_val (show_nat n) = n"
proof (induction n rule: show_nat.induct)
  case (1 n)
  then show ?case
    by (cases "n < 10")
      (auto simp: show_nat.simps [of n] digits_val_def digit_val_digit_char)
qed

definition starts_with_digit :: "string \<Rightarrow> bool" where
  "starts_with_digit r \<longleftrightarrow> (case r of [] \<Rightarrow> False | c # _ \<Rightarrow> is_digit c)"

lemma scan_nat_show_nat:
  "\<not> starts_with_digit r \<Longrightarrow> scan_nat (show_nat n @ r) = Some (n, r)"
  using show_nat_digits [of n] show_nat_nonempty [of n]
  by (cases r)
    (auto simp: scan_nat_def starts_with_digit_def takeWhile_append dropWhile_append
      digits_val_show_nat takeWhile_eq_all_conv [THEN iffD2] dropWhile_eq_Nil_conv [THEN iffD2])

lemma digit_not_special:
  "is_digit c \<Longrightarrow> c \<noteq> CHR ''-'' \<and> c \<noteq> CHR ''+'' \<and> \<not> is_space c"
  by (auto simp: is_digit_def is_space_def)

lemma scan_int_show_int:
  assumes "\<not> starts_with_digit r"
  shows "scan_int (show_int n @ r) = Some (n, r)"
proof (cases "n < 0")
  case True
  then show ?thesis using scan_nat_show_nat [OF assms, of "nat (- n)"]
    by (simp add: scan_int_def show_int_def is_space_def)
next
  case False
  obtain c cs where c: "show_nat (nat n) = c # cs"
    using show_nat_nonempty by (cases "show_nat (nat n)") auto
  have "is_digit c" using show_nat_digits [of "nat n"] c by simp
  then have "c \<noteq> CHR ''-''" "c \<noteq> CHR ''+''" "\<not> is_space c"
    using digit_not_special by auto
  then show ?thesis using scan_nat_show_nat [OF assms, of "nat n"] False c
    by (simp add: scan_int_def show_int_def)
qed

lemma strtol_show_int: "\<bar>n\<bar> < 2 ^ 63 \<Longrightarrow> strtol (show_int n) = n"
  using scan_int_show_int [of "[]" n] by (simp add: strtol_def starts_with_digit_def)

lemma stoi_show_int:
  "stoi (show_int n) = (if INT_MIN \<le> n \<and> n \<le> INT_MAX then Inr n else Inl Out_of_range)"
  using scan_int_show_int [of "[]" n] by (simp add: stoi_def starts_with_digit_def)

text \<open>\<open>tolower\<close> in the C locale.\<close>

definition to_lower :: "char \<Rightarrow> char" where
  "to_lower c =
     (let n = of_char c :: nat in if 65 \<le> n \<and> n \<le> 90 then char_of (n + 32) else c)"

end
