(* ===== verification/Detect.thy ===== *)
theory Detect
  imports CText "HOL-Library.Sublist"
begin

text \<open>
  Device detection of the middleware (\<open>src/middleware/extension/src/detect.h\<close>,
  \<open>src/middleware/extension/src/detect.cpp\<close>): the machine name read from two system files is
  looked up, ignoring case, in a table of known devices; the first entry that occurs in the name
  wins. Text is ASCII here (\<open>fromLocal8Bit\<close> of the names the devices write).
\<close>

record entry =
  e_machine :: string
  e_cls :: string
  e_w :: int
  e_h :: int
  e_bpl :: int
  e_bpp :: int
  e_needsQtfb :: bool

record device_info =
  m_class :: string
  di_w :: int
  di_h :: int
  m_bpl :: int
  di_bpp :: int
  m_needsQtfb :: bool

definition kKnown :: "entry list" where
  "kKnown =
     [\<lparr>e_machine = ''ferrari'', e_cls = ''rMPP'', e_w = 1620, e_h = 2160, e_bpl = 1620 * 4,
       e_bpp = 32, e_needsQtfb = True\<rparr>,
      \<lparr>e_machine = ''reMarkable Paper Pro'', e_cls = ''rMPP'', e_w = 1620, e_h = 2160,
       e_bpl = 1620 * 4, e_bpp = 32, e_needsQtfb = True\<rparr>,
      \<lparr>e_machine = ''reMarkable 2.0'', e_cls = ''rM2'', e_w = 1404, e_h = 1872,
       e_bpl = 1404 * 2, e_bpp = 16, e_needsQtfb = False\<rparr>,
      \<lparr>e_machine = ''reMarkable 1.0'', e_cls = ''rM1'', e_w = 1404, e_h = 1872,
       e_bpl = 1404 * 2, e_bpp = 16, e_needsQtfb = False\<rparr>,
      \<lparr>e_machine = ''reMarkable Paper Pro Move'', e_cls = ''rMPPM'', e_w = 1620, e_h = 2160,
       e_bpl = 1620 * 4, e_bpp = 32, e_needsQtfb = True\<rparr>]"

definition device_info_defaults :: device_info where
  "device_info_defaults =
     \<lparr>m_class = ''unknown'', di_w = 1620, di_h = 2160, m_bpl = 1620 * 4, di_bpp = 32,
      m_needsQtfb = True\<rparr>"

definition contains_ci :: "string \<Rightarrow> string \<Rightarrow> bool" where
  "contains_ci s t = sublist (map to_lower t) (map to_lower s)"

definition trimmed :: "string \<Rightarrow> string" where
  "trimmed s = rev (dropWhile is_space (rev (dropWhile is_space s)))"

text \<open>The first line of a file, without its end for what follows (\<open>trimmed\<close> removes it).\<close>

definition read_line :: "string \<Rightarrow> string" where
  "read_line s = takeWhile (\<lambda>c. c \<noteq> CHR 0x0A) s"

text \<open>\<open>fs\<close> is the text of the files that can be opened.\<close>

definition machine_name :: "(string \<rightharpoonup> string) \<Rightarrow> string" where
  "machine_name fs =
     (let m = (case fs ''/sys/devices/soc0/machine'' of Some t \<Rightarrow> trimmed (read_line t) | None \<Rightarrow> []) in
      if m = [] then
        (case fs ''/etc/device.conf'' of Some t \<Rightarrow> trimmed (read_line t) | None \<Rightarrow> m)
      else m)"

definition detect :: "(string \<rightharpoonup> string) \<Rightarrow> device_info" where
  "detect fs =
     (case find (\<lambda>e. contains_ci (machine_name fs) (e_machine e)) kKnown of
        Some e \<Rightarrow> \<lparr>m_class = e_cls e, di_w = e_w e, di_h = e_h e, m_bpl = e_bpl e, di_bpp = e_bpp e,
                   m_needsQtfb = e_needsQtfb e\<rparr>
      | None \<Rightarrow> device_info_defaults)"

text \<open>Whatever the machine, the geometry is one a server can allocate: whole pixels per row.\<close>

definition geometry_ok :: "device_info \<Rightarrow> bool" where
  "geometry_ok d \<longleftrightarrow> 0 < di_w d \<and> di_w d < 2 ^ 12 \<and> 0 < di_h d \<and> di_h d < 2 ^ 12 \<and>
     (di_bpp d = 16 \<or> di_bpp d = 32) \<and> m_bpl d * 8 = di_w d * di_bpp d"

lemma detect_cases:
  "detect fs = device_info_defaults \<or> (\<exists>e \<in> set kKnown. detect fs =
     \<lparr>m_class = e_cls e, di_w = e_w e, di_h = e_h e, m_bpl = e_bpl e, di_bpp = e_bpp e,
      m_needsQtfb = e_needsQtfb e\<rparr>)"
  by (auto simp: detect_def find_Some_iff split: option.splits)

lemma detect_geometry_ok: "geometry_ok (detect fs)"
  using detect_cases [of fs]
  by (elim disjE bexE) (auto simp: geometry_ok_def device_info_defaults_def kKnown_def)

lemma sublist_map: "sublist xs ys \<Longrightarrow> sublist (map f xs) (map f ys)"
  unfolding sublist_def by (metis map_append)

lemma contains_ci_refl: "sublist t s \<Longrightarrow> contains_ci s t"
  by (simp add: contains_ci_def sublist_map)

text \<open>
  The entry of the Paper Pro Move is never reached: its name contains the name of the Paper Pro,
  which stands before it in the table.
\<close>

lemma detect_never_rMPPM: "m_class (detect fs) \<noteq> ''rMPPM''"
proof -
  have "contains_ci s ''reMarkable Paper Pro Move'' \<Longrightarrow> contains_ci s ''reMarkable Paper Pro''" for s
  proof -
    assume "contains_ci s ''reMarkable Paper Pro Move''"
    then have "sublist (map to_lower ''reMarkable Paper Pro Move'') (map to_lower s)"
      by (simp only: contains_ci_def)
    moreover have "sublist (map to_lower ''reMarkable Paper Pro'') (map to_lower ''reMarkable Paper Pro Move'')"
      by (rule sublist_map) (auto simp: sublist_def intro: exI [of _ "[]"])
    ultimately show "contains_ci s ''reMarkable Paper Pro''"
      unfolding contains_ci_def by (rule sublist_order.order.trans [rotated])
  qed
  then show ?thesis
    by (auto simp: detect_def kKnown_def device_info_defaults_def simp del: List.list.map)
qed

end
