(* ===== verification/QtfbServer.thy ===== *)
theory QtfbServer
  imports Wire Detect
begin

text \<open>
  The middleware's framebuffer server (\<open>src/middleware/extension/src/qtfb/server.h\<close>,
  \<open>src/middleware/extension/src/qtfb/server.cpp\<close>): the shared memory, the single client, the
  receive loop over the unread bytes of its socket, the frame-rate cap and the cursor.

  Inputs from outside the class: \<open>io\<close> says whether the system calls of \<open>start\<close> succeed and what
  name the shared memory gets; \<open>clk\<close> is the sequence of readings of the millisecond clock, of
  which the state counts how many were taken; \<open>dsync\<close> says whether Qt delivers the
  \<open>disconnected\<close> signal from inside \<open>disconnectFromServer\<close> (it does when nothing is left to
  write) or later. Signals are recorded in the state, oldest first.
\<close>

section \<open>State\<close>

datatype signal =
    FrameReady u32 int int int int
  | LastFrameModeChanged
  | CursorChanged
  | ClientConnected
  | ClientDisconnected
  | ShmChanged

text \<open>A connected socket: bytes that arrived and are unread, bytes written, closing or not.\<close>

record sock =
  sk_rx :: bytes
  sk_tx :: bytes
  sk_closing :: bool

record server =
  m_server :: bool
  m_socket :: "sock option"
  sv_shm :: "bytes option"
  sv_shmName :: string
  sv_w :: int
  sv_h :: int
  sv_stride :: int
  sv_bpp :: u32
  sv_format :: u32
  m_fps_cap :: u32
  m_min_period_ms :: int
  m_last_emit_ms :: int
  sv_waveform :: string
  m_use_grayscale_shm :: bool
  m_last_frame_mode :: u32
  sv_cursor_x :: int
  sv_cursor_y :: int
  sv_cursor_w :: int
  sv_cursor_h :: int
  sv_cursor_visible :: bool
  sv_ticks :: nat
  sv_signals :: "signal list"

definition server_init :: "bool \<Rightarrow> server" where
  "server_init gray =
     \<lparr>m_server = False, m_socket = None, sv_shm = None, sv_shmName = [], sv_w = 0, sv_h = 0,
      sv_stride = 0, sv_bpp = 0, sv_format = 0, m_fps_cap = 0, m_min_period_ms = 0,
      m_last_emit_ms = 0, sv_waveform = ''A2'', m_use_grayscale_shm = gray,
      m_last_frame_mode = 0xFFFFFFFF, sv_cursor_x = -1, sv_cursor_y = -1, sv_cursor_w = 0,
      sv_cursor_h = 0, sv_cursor_visible = False, sv_ticks = 0, sv_signals = []\<rparr>"

definition emit :: "signal \<Rightarrow> server \<Rightarrow> server" where
  "emit g s = s\<lparr>sv_signals := sv_signals s @ [g]\<rparr>"

section \<open>Starting and stopping\<close>

record server_io =
  io_shm_open :: bool
  io_ftruncate :: bool
  io_mmap :: bool
  io_listen :: bool
  io_shm_name :: string

definition allocShm :: "server_io \<Rightarrow> nat \<Rightarrow> server \<Rightarrow> bool \<times> server" where
  "allocShm io n s =
     (let s1 = s\<lparr>sv_shmName := io_shm_name io\<rparr> in
      if \<not> io_shm_open io \<or> \<not> io_ftruncate io \<or> \<not> io_mmap io then (False, s1)
      else (True, s1\<lparr>sv_shm := Some (replicate n 0xFF)\<rparr>))"

definition freeShm :: "server \<Rightarrow> server" where
  "freeShm s = s\<lparr>sv_shm := None, sv_shmName := []\<rparr>"

definition server_geometry :: "device_info \<Rightarrow> server \<Rightarrow> server" where
  "server_geometry info s =
     (let s1 = s\<lparr>sv_w := di_w info, sv_h := di_h info\<rparr> in
      if m_use_grayscale_shm s then s1\<lparr>sv_bpp := 8, sv_stride := di_w info, sv_format := 2\<rparr>
      else
        let bpp = word_of_int (di_bpp info) in
        s1\<lparr>sv_stride := m_bpl info, sv_bpp := bpp, sv_format := (if bpp = 16 then 0 else 1)\<rparr>)"

definition server_start :: "server_io \<Rightarrow> device_info \<Rightarrow> server \<Rightarrow> bool \<times> server" where
  "server_start io info s =
     (if m_server s then (True, s)
      else
        let s1 = server_geometry info s; (ok, s2) = allocShm io (nat (sv_stride s1 * sv_h s1)) s1 in
        if \<not> ok then (False, s2)
        else if \<not> io_listen io then (False, freeShm s2)
        else (True, emit ShmChanged (s2\<lparr>m_server := True\<rparr>)))"

text \<open>
  \<open>disconnectFromServer\<close>: the socket starts to close; when the \<open>disconnected\<close> signal comes
  at once, its slot runs here.
\<close>

definition onSocketDisconnected :: "server \<Rightarrow> server" where
  "onSocketDisconnected s = emit ClientDisconnected (s\<lparr>m_socket := None\<rparr>)"

definition disconnectFromServer :: "bool \<Rightarrow> server \<Rightarrow> server" where
  "disconnectFromServer dsync s =
     (case m_socket s of
        None \<Rightarrow> s
      | Some k \<Rightarrow> if dsync then onSocketDisconnected s else s\<lparr>m_socket := Some (k\<lparr>sk_closing := True\<rparr>)\<rparr>)"

text \<open>
  \<open>stop\<close> calls \<open>deleteLater\<close> through the guarded pointer after \<open>disconnectFromServer\<close>; when the
  slot has run in between, the pointer is null.
\<close>

definition server_stop :: "bool \<Rightarrow> server \<Rightarrow> server res" where
  "server_stop dsync s =
     bindE (if m_socket s \<noteq> None
            then let s1 = disconnectFromServer dsync s in
                 if m_socket s1 = None then Inl (Undefined Null_deref) else Inr (s1\<lparr>m_socket := None\<rparr>)
            else Inr s) (\<lambda>s1.
     Inr (s1\<lparr>m_server := False\<rparr>))"

definition server_delete :: "bool \<Rightarrow> server \<Rightarrow> server res" where
  "server_delete dsync s = bindE (server_stop dsync s) (\<lambda>s1. Inr (freeShm s1))"

definition onNewConnection :: "server \<Rightarrow> server" where
  "onNewConnection s =
     (if m_socket s \<noteq> None then s
      else emit ClientConnected (s\<lparr>m_socket := Some \<lparr>sk_rx = [], sk_tx = [], sk_closing = False\<rparr>\<rparr>))"

section \<open>Messages\<close>

definition ascii_bytes :: "string \<Rightarrow> bytes" where
  "ascii_bytes s = map (\<lambda>c. of_char c) s"

definition ack_of :: "server \<Rightarrow> hello_c2s \<Rightarrow> hello_ack" where
  "ack_of s msg =
     (let name = ascii_bytes (sv_shmName s); n = min (length name) 64 in
      \<lparr>ack_header = mk_header HelloAckS2C,
       accepted = (if client_version msg = VERSION then 1 else 0),
       ack_w = word_of_int (sv_w s), ack_h = word_of_int (sv_h s),
       ack_stride = word_of_int (sv_stride s), ack_bpp = sv_bpp s, ack_format = sv_format s,
       shm_name_len = word_of_nat n, shm_name = take n name @ replicate (64 - n) 0\<rparr>)"

definition sock_write :: "bytes \<Rightarrow> server \<Rightarrow> server" where
  "sock_write b s =
     (case m_socket s of None \<Rightarrow> s | Some k \<Rightarrow> s\<lparr>m_socket := Some (k\<lparr>sk_tx := sk_tx k @ b\<rparr>)\<rparr>)"

definition handleHello :: "bool \<Rightarrow> hello_c2s \<Rightarrow> server \<Rightarrow> server" where
  "handleHello dsync msg s =
     (let cap = requested_fps msg;
          s1 = s\<lparr>m_fps_cap := cap, m_min_period_ms := (if cap = 0 then 0 else uint (1000 div cap)),
                 m_last_emit_ms := 0, sv_cursor_x := -1, sv_cursor_y := -1, sv_cursor_w := 0,
                 sv_cursor_h := 0, sv_cursor_visible := False, m_last_frame_mode := 0xFFFFFFFF\<rparr>;
          s2 = emit LastFrameModeChanged (emit CursorChanged s1);
          ack = ack_of s2 msg;
          s3 = sock_write (enc_ack ack) s2 in
      if accepted ack = 0 then disconnectFromServer dsync s3 else s3)"

definition small_rect :: "frame \<Rightarrow> bool" where
  "small_rect msg \<longleftrightarrow> frame_w msg > 0 \<and> frame_h msg > 0 \<and> frame_w msg \<le> 256 \<and> frame_h msg \<le> 256"

definition handleFrame :: "(nat \<Rightarrow> int) \<Rightarrow> frame \<Rightarrow> server \<Rightarrow> server" where
  "handleFrame clk msg s =
     (let emit_frame = (\<lambda>s.
            let s1 = (if frame_mode msg \<noteq> m_last_frame_mode s
                      then emit LastFrameModeChanged (s\<lparr>m_last_frame_mode := frame_mode msg\<rparr>) else s) in
            emit (FrameReady (frame_seq msg) (sint (frame_x msg)) (sint (frame_y msg))
                    (sint (frame_w msg)) (sint (frame_h msg))) s1) in
      if \<not> small_rect msg \<and> m_fps_cap s > 0 \<and> m_min_period_ms s > 0 then
        let now_ms = clk (sv_ticks s); s1 = s\<lparr>sv_ticks := sv_ticks s + 1\<rparr> in
        if m_last_emit_ms s \<noteq> 0 \<and> now_ms - m_last_emit_ms s < m_min_period_ms s then s1
        else emit_frame (s1\<lparr>m_last_emit_ms := now_ms\<rparr>)
      else emit_frame s)"

definition handleCursor :: "cursor \<Rightarrow> server \<Rightarrow> server" where
  "handleCursor msg s =
     (let changed = cursor_x msg \<noteq> sv_cursor_x s \<or> cursor_y msg \<noteq> sv_cursor_y s \<or>
            sint (cursor_w msg) \<noteq> sv_cursor_w s \<or> sint (cursor_h msg) \<noteq> sv_cursor_h s \<or>
            (cursor_visible msg \<noteq> 0) \<noteq> sv_cursor_visible s;
          s1 = s\<lparr>sv_cursor_x := cursor_x msg, sv_cursor_y := cursor_y msg,
                 sv_cursor_w := sint (cursor_w msg), sv_cursor_h := sint (cursor_h msg),
                 sv_cursor_visible := (cursor_visible msg \<noteq> 0)\<rparr> in
      if changed then emit CursorChanged s1 else s1)"

text \<open>\<open>read\<close> removes the front of the unread bytes.\<close>

definition unread :: "server \<Rightarrow> bytes" where
  "unread s = (case m_socket s of None \<Rightarrow> [] | Some k \<Rightarrow> sk_rx k)"

definition consume :: "nat \<Rightarrow> server \<Rightarrow> server" where
  "consume n s =
     (case m_socket s of None \<Rightarrow> s | Some k \<Rightarrow> s\<lparr>m_socket := Some (k\<lparr>sk_rx := drop n (sk_rx k)\<rparr>)\<rparr>)"

text \<open>
  One pass of the receive loop: the new state, and whether the loop goes on. A message that has
  not arrived completely stays unread.
\<close>

definition read_step :: "bool \<Rightarrow> (nat \<Rightarrow> int) \<Rightarrow> server \<Rightarrow> server \<times> bool" where
  "read_step dsync clk s =
     (let rx = unread s in
      case dec_header (take 8 rx) of
        None \<Rightarrow> (s, False)
      | Some h \<Rightarrow>
          if magic h \<noteq> MAGIC then (disconnectFromServer dsync s, False)
          else if htag h = tag_code HelloC2S then
            (if length rx < 24 then (s, False)
             else case dec_hello (take 24 rx) of
                    None \<Rightarrow> (s, False)
                  | Some msg \<Rightarrow> (handleHello dsync msg (consume 24 s), True))
          else if htag h = tag_code FrameTag then
            (if length rx < 32 then (s, False)
             else case dec_frame (take 32 rx) of
                    None \<Rightarrow> (s, False)
                  | Some msg \<Rightarrow> (handleFrame clk msg (consume 32 s), True))
          else if htag h = tag_code CursorC2S then
            (if length rx < 28 then (s, False)
             else case dec_cursor (take 28 rx) of
                    None \<Rightarrow> (s, False)
                  | Some msg \<Rightarrow> (handleCursor msg (consume 28 s), True))
          else if htag h = tag_code ByeTag then
            (if length rx < 12 then (s, False)
             else (disconnectFromServer dsync (consume 12 s), False))
          else (disconnectFromServer dsync s, False))"

lemma unread_consume: "unread (consume n s) = drop n (unread s)"
  by (auto simp: unread_def consume_def split: option.splits)

lemma unread_emit [simp]: "unread (emit g s) = unread s"
  by (simp add: unread_def emit_def)

lemma unread_disconnect: "length (unread (disconnectFromServer dsync s)) \<le> length (unread s)"
  by (auto simp: disconnectFromServer_def onSocketDisconnected_def unread_def emit_def split: option.splits)

lemma unread_handleHello: "length (unread (handleHello dsync msg s)) \<le> length (unread s)"
proof -
  have w: "unread (sock_write b t) = unread t" for b t
    by (simp add: sock_write_def unread_def split: option.splits)
  have u: "unread (t\<lparr>m_fps_cap := a1, m_min_period_ms := a2, m_last_emit_ms := a3, sv_cursor_x := a4,
      sv_cursor_y := a5, sv_cursor_w := a6, sv_cursor_h := a7, sv_cursor_visible := a8,
      m_last_frame_mode := a9\<rparr>) = unread t" for t a1 a2 a3 a4 a5 a6 a7 a8 a9
    by (simp add: unread_def)
  show ?thesis
    unfolding handleHello_def Let_def
    by (auto simp: w u intro: order_trans [OF unread_disconnect])
qed

lemma unread_handleFrame: "unread (handleFrame clk msg s) = unread s"
  by (auto simp: handleFrame_def Let_def unread_def emit_def)

lemma unread_handleCursor: "unread (handleCursor msg s) = unread s"
  by (auto simp: handleCursor_def Let_def unread_def emit_def)

lemma unread_handleHello_consume:
  "24 \<le> length (unread s) \<Longrightarrow> length (unread (handleHello dsync msg (consume 24 s))) < length (unread s)"
  using unread_handleHello [of dsync msg "consume 24 s"] by (simp add: unread_consume)

lemma read_step_progress:
  "read_step dsync clk s = (s', True) \<Longrightarrow> length (unread s') < length (unread s)"
  by (auto simp: read_step_def Let_def unread_consume unread_handleFrame unread_handleCursor
      unread_handleHello_consume split: option.splits if_splits)

function onSocketReadyRead :: "bool \<Rightarrow> (nat \<Rightarrow> int) \<Rightarrow> server \<Rightarrow> server" where
  "onSocketReadyRead dsync clk s =
     (if m_socket s \<noteq> None \<and> 8 \<le> length (unread s) then
        (case read_step dsync clk s of
           (s', True) \<Rightarrow> onSocketReadyRead dsync clk s'
         | (s', False) \<Rightarrow> s')
      else s)"
  by pat_completeness auto

termination onSocketReadyRead
  by (relation "measure (\<lambda>(dsync, clk, s). length (unread s))")
    (auto dest: read_step_progress [OF sym])

declare onSocketReadyRead.simps [simp del]

text \<open>Bytes arrive on the client's socket and Qt emits \<open>readyRead\<close>.\<close>

definition sock_arrive :: "bytes \<Rightarrow> server \<Rightarrow> server" where
  "sock_arrive b s =
     (case m_socket s of None \<Rightarrow> s | Some k \<Rightarrow> s\<lparr>m_socket := Some (k\<lparr>sk_rx := sk_rx k @ b\<rparr>)\<rparr>)"

definition feed :: "bool \<Rightarrow> (nat \<Rightarrow> int) \<Rightarrow> server \<Rightarrow> bytes \<Rightarrow> server" where
  "feed dsync clk s b = onSocketReadyRead dsync clk (sock_arrive b s)"

section \<open>Messages arrive in order, however the stream is cut\<close>

fun handle_c2s :: "bool \<Rightarrow> (nat \<Rightarrow> int) \<Rightarrow> server \<Rightarrow> c2s \<Rightarrow> server" where
  "handle_c2s dsync clk s (C2S_Hello m) = handleHello dsync m s"
| "handle_c2s dsync clk s (C2S_Frame m) = handleFrame clk m s"
| "handle_c2s dsync clk s (C2S_Cursor m) = handleCursor m s"
| "handle_c2s dsync clk s (C2S_Bye m) = disconnectFromServer dsync s"

definition set_unread :: "bytes \<Rightarrow> server \<Rightarrow> server" where
  "set_unread r s = s\<lparr>m_socket := map_option (\<lambda>k. k\<lparr>sk_rx := r\<rparr>) (m_socket s)\<rparr>"

lemma set_unread_simps [simp]:
  "set_unread a (set_unread b s) = set_unread a s"
  "set_unread (unread s) s = s"
  "m_socket s \<noteq> None \<Longrightarrow> unread (set_unread r s) = r"
  "m_socket (set_unread r s) = None \<longleftrightarrow> m_socket s = None"
  by (auto simp: set_unread_def unread_def option.map_comp comp_def split: option.splits)

lemma consume_set_unread: "consume n s = set_unread (drop n (unread s)) s"
  by (auto simp: consume_def set_unread_def unread_def split: option.splits)

lemma sock_arrive_set_unread: "sock_arrive b s = set_unread (unread s @ b) s"
  by (auto simp: sock_arrive_def set_unread_def unread_def split: option.splits)

text \<open>Handling a message does not look at what is still unread.\<close>

lemma handle_c2s_unread:
  assumes "keeps_open m" "m_socket s \<noteq> None"
  shows "handle_c2s dsync clk (set_unread r s) m = set_unread r (handle_c2s dsync clk s m)"
    and "m_socket (handle_c2s dsync clk s m) \<noteq> None"
proof -
  obtain k where k: "m_socket s = Some k" using assms(2) by blast
  have "handle_c2s dsync clk (set_unread r s) m = set_unread r (handle_c2s dsync clk s m) \<and>
    m_socket (handle_c2s dsync clk s m) \<noteq> None"
  proof (cases m)
    case (C2S_Hello h)
    then show ?thesis using assms(1) k
      by (simp add: handleHello_def Let_def ack_of_def set_unread_def emit_def sock_write_def)
  next
    case (C2S_Frame f)
    then show ?thesis using k
      by (auto simp: handleFrame_def Let_def set_unread_def emit_def)
  next
    case (C2S_Cursor c)
    then show ?thesis using k
      by (simp add: handleCursor_def Let_def set_unread_def emit_def)
  qed (use assms in simp)
  then show "handle_c2s dsync clk (set_unread r s) m = set_unread r (handle_c2s dsync clk s m)"
    and "m_socket (handle_c2s dsync clk s m) \<noteq> None" by auto
qed

lemma foldl_handle_unread:
  "list_all keeps_open ms \<Longrightarrow> m_socket s \<noteq> None \<Longrightarrow>
     foldl (handle_c2s dsync clk) (set_unread r s) ms =
     set_unread r (foldl (handle_c2s dsync clk) s ms)"
proof (induction ms arbitrary: s)
  case (Cons m ms)
  then show ?case using handle_c2s_unread [of m s] by simp
qed simp

lemma foldl_handle_open:
  "list_all keeps_open ms \<Longrightarrow> m_socket s \<noteq> None \<Longrightarrow> m_socket (foldl (handle_c2s dsync clk) s ms) \<noteq> None"
proof (induction ms arbitrary: s)
  case (Cons m ms)
  then show ?case using handle_c2s_unread(2) [of m s] by simp
qed simp

fun c2s_header :: "c2s \<Rightarrow> header" where
  "c2s_header (C2S_Hello m) = hello_header m"
| "c2s_header (C2S_Frame m) = frame_header m"
| "c2s_header (C2S_Cursor m) = cursor_header m"
| "c2s_header (C2S_Bye m) = bye_header m"

lemma c2s_prefix:
  "take 8 (enc_c2s m @ rest) = enc_header (c2s_header m)" "8 \<le> length (enc_c2s m)"
  by (cases m, simp_all only: enc_c2s.simps c2s_header.simps header_of_messages)
    (cases m, simp_all add: enc_hello_def enc_frame_def enc_cursor_def enc_bye_def length_words_bytes)

lemma read_step_message:
  assumes "c2s_wf m" "keeps_open m" "m_socket s \<noteq> None" "unread s = enc_c2s m @ rest"
  shows "read_step dsync clk s = (handle_c2s dsync clk (set_unread rest s) m, True)"
proof -
  have h: "dec_header (take 8 (unread s)) = Some (c2s_header m)"
    using c2s_prefix(1) [of m rest] header_codec.dec_enc by (simp add: assms(4))
  show ?thesis
  proof (cases m)
    case (C2S_Hello x)
    then have "length (unread s) \<ge> 24" "dec_hello (take 24 (unread s)) = Some x"
      "drop 24 (unread s) = rest"
      using assms(4) hello_codec.enc_size [of x] hello_codec.dec_stream [of x rest] by simp_all
    then show ?thesis using C2S_Hello h assms(1)
      by (simp add: read_step_def Let_def mk_header_def consume_set_unread)
  next
    case (C2S_Frame x)
    then have "length (unread s) \<ge> 32" "dec_frame (take 32 (unread s)) = Some x"
      "drop 32 (unread s) = rest"
      using assms(4) frame_codec.enc_size [of x] frame_codec.dec_stream [of x rest] by simp_all
    then show ?thesis using C2S_Frame h assms(1)
      by (simp add: read_step_def Let_def mk_header_def consume_set_unread)
  next
    case (C2S_Cursor x)
    then have "length (unread s) \<ge> 28" "dec_cursor (take 28 (unread s)) = Some x"
      "drop 28 (unread s) = rest"
      using assms(1,4) cursor_codec.enc_size [of x] cursor_codec.dec_stream [of x rest] by simp_all
    then show ?thesis using C2S_Cursor h assms(1)
      by (simp add: read_step_def Let_def mk_header_def consume_set_unread)
  qed (use assms(2) in simp)
qed

text \<open>Part of a message: nothing is consumed.\<close>

definition partial_front :: "bytes \<Rightarrow> c2s list \<Rightarrow> bool" where
  "partial_front r ms \<longleftrightarrow>
     r = [] \<or> (\<exists>m ms' n. ms = m # ms' \<and> n < length (enc_c2s m) \<and> r = take n (enc_c2s m))"

lemma read_partial:
  assumes "list_all c2s_wf ms" "partial_front (unread s) ms"
  shows "onSocketReadyRead dsync clk s = s"
proof (cases "m_socket s \<noteq> None \<and> 8 \<le> length (unread s)")
  case False
  then show ?thesis by (subst onSocketReadyRead.simps) auto
next
  case True
  then obtain m ms' n where m: "ms = m # ms'" "n < length (enc_c2s m)" "unread s = take n (enc_c2s m)"
    using assms(2) by (auto simp: partial_front_def)
  have "take 8 (unread s) = take 8 (enc_c2s m @ [])" using True m by (simp add: min_def)
  then have h: "dec_header (take 8 (unread s)) = Some (c2s_header m)"
    using c2s_prefix(1) [of m "[]"] header_codec.dec_enc by simp
  have "length (unread s) < length (enc_c2s m)" using m by simp
  moreover have "c2s_wf m" using assms(1) m by simp
  ultimately have "read_step dsync clk s = (s, False)"
    using h by (cases m)
      (auto simp: read_step_def Let_def mk_header_def hello_codec.enc_size frame_codec.enc_size
        length_enc_cursor bye_codec.enc_size)
  then show ?thesis by (subst onSocketReadyRead.simps) simp
qed

lemma read_messages:
  assumes "list_all c2s_wf ms" "list_all keeps_open ms" "m_socket s \<noteq> None"
    and "unread s = enc_all ms @ r" "list_all c2s_wf ms'" "partial_front r ms'"
  shows "onSocketReadyRead dsync clk s = set_unread r (foldl (handle_c2s dsync clk) s ms) \<and>
     m_socket (foldl (handle_c2s dsync clk) s ms) \<noteq> None"
  using assms
proof (induction ms arbitrary: s)
  case Nil
  then have "unread s = r" by simp
  with Nil read_partial [of ms' s] show ?case by (metis foldl.simps(1) set_unread_simps(2))
next
  case (Cons m ms)
  let ?s = "handle_c2s dsync clk s m" and ?rest = "enc_all ms @ r"
  have o: "keeps_open m" using Cons.prems by simp
  note hu = handle_c2s_unread(1) [OF o Cons.prems(3), of dsync clk ?rest]
    handle_c2s_unread(2) [OF o Cons.prems(3), of dsync clk]
  have u: "unread s = enc_c2s m @ ?rest" using Cons.prems by simp
  have step: "read_step dsync clk s = (set_unread ?rest ?s, True)"
    using read_step_message [OF _ o Cons.prems(3) u] Cons.prems(1) hu(1) by simp
  have "8 \<le> length (unread s)" using c2s_prefix(2) [of m] u by simp
  then have loop: "onSocketReadyRead dsync clk s = onSocketReadyRead dsync clk (set_unread ?rest ?s)"
    using Cons.prems(3) by (subst onSocketReadyRead.simps) (simp add: step)
  have ih: "onSocketReadyRead dsync clk (set_unread ?rest ?s) =
      set_unread r (foldl (handle_c2s dsync clk) (set_unread ?rest ?s) ms) \<and>
      m_socket (foldl (handle_c2s dsync clk) (set_unread ?rest ?s) ms) \<noteq> None"
    by (rule Cons.IH) (use Cons.prems hu in auto)
  moreover have "foldl (handle_c2s dsync clk) (set_unread ?rest ?s) ms =
      set_unread ?rest (foldl (handle_c2s dsync clk) ?s ms)"
    by (rule foldl_handle_unread) (use Cons.prems hu in auto)
  ultimately show ?case using loop by simp
qed

lemma split_stream:
  assumes "p @ q = enc_all ms"
  shows "\<exists>ms1 ms2 r. ms = ms1 @ ms2 \<and> p = enc_all ms1 @ r \<and> r @ q = enc_all ms2 \<and> partial_front r ms2"
  using assms
proof (induction ms arbitrary: p)
  case Nil
  then show ?case by (intro exI [of _ "[]"]) (simp add: partial_front_def)
next
  case (Cons m ms)
  show ?case
  proof (cases "length p < length (enc_c2s m)")
    case True
    then have "p = take (length p) (enc_c2s m)"
      using Cons.prems by (metis append_eq_append_conv_if enc_all_simps(2) less_imp_le)
    with True Cons.prems show ?thesis
      by (intro exI [of _ "[]"] exI [of _ "m # ms"] exI [of _ p]) (auto simp: partial_front_def)
  next
    case False
    have "take (length (enc_c2s m)) (p @ q) = enc_c2s m" using Cons.prems by simp
    with False have "take (length (enc_c2s m)) p = enc_c2s m" by simp
    then obtain p' where p': "p = enc_c2s m @ p'" by (metis append_take_drop_id)
    with Cons.prems have "p' @ q = enc_all ms" by simp
    from Cons.IH [OF this] obtain ms1 ms2 r where
      "ms = ms1 @ ms2" "p' = enc_all ms1 @ r" "r @ q = enc_all ms2" "partial_front r ms2" by blast
    with p' show ?thesis by (intro exI [of _ "m # ms1"] exI [of _ ms2] exI [of _ r]) simp
  qed
qed

lemma partial_front_append: "partial_front r ms \<Longrightarrow> partial_front r (ms @ ns)"
  by (auto simp: partial_front_def)

lemma partial_front_all: "partial_front (enc_all ms) ms \<Longrightarrow> ms = []"
proof (cases ms)
  case (Cons m ms')
  assume "partial_front (enc_all ms) ms"
  then have "enc_all ms = [] \<or> (\<exists>n. n < length (enc_c2s m) \<and> enc_all ms = take n (enc_c2s m))"
    using Cons unfolding partial_front_def by blast
  then have "length (enc_all ms) < length (enc_c2s m)"
    using c2s_prefix(2) [of m] by (auto simp del: enc_all_simps)
  then show ?thesis using Cons by simp
qed simp

text \<open>One arrival: the messages that are complete now are handled, the rest stays unread.\<close>

lemma feed_step:
  assumes "unread s @ b @ q = enc_all ms" "list_all c2s_wf ms" "list_all keeps_open ms" "m_socket s \<noteq> None"
  shows "\<exists>ms1 ms2 r. ms = ms1 @ ms2 \<and> r @ q = enc_all ms2 \<and> partial_front r ms2 \<and>
    feed dsync clk s b = set_unread r (foldl (handle_c2s dsync clk) s ms1) \<and>
    m_socket (foldl (handle_c2s dsync clk) s ms1) \<noteq> None"
proof -
  from assms(1) have "(unread s @ b) @ q = enc_all ms" by simp
  from split_stream [OF this] obtain ms1 ms2 r where sp: "ms = ms1 @ ms2"
    "unread s @ b = enc_all ms1 @ r" "r @ q = enc_all ms2" "partial_front r ms2" by blast
  let ?a = "set_unread (unread s @ b) s"
  have "feed dsync clk s b = set_unread r (foldl (handle_c2s dsync clk) ?a ms1)"
    using read_messages [of ms1 ?a r ms2 dsync clk] assms sp
    by (auto simp: feed_def sock_arrive_set_unread)
  then have "feed dsync clk s b = set_unread r (foldl (handle_c2s dsync clk) s ms1)"
    "m_socket (foldl (handle_c2s dsync clk) s ms1) \<noteq> None"
    using foldl_handle_unread [of ms1 s dsync clk "unread s @ b"] foldl_handle_open [of ms1 s dsync clk] assms sp
    by auto
  then show ?thesis using sp by (intro exI [of _ ms1] exI [of _ ms2] exI [of _ r] conjI)
qed

text \<open>
  However the kernel cuts the client's byte stream, the server handles exactly the messages of
  the stream, in order, and has nothing left to read at the end.
\<close>

lemma feed_messages:
  assumes "unread s @ concat chunks = enc_all ms" "partial_front (unread s) ms"
    and "list_all c2s_wf ms" "list_all keeps_open ms" "m_socket s \<noteq> None"
  shows "foldl (feed dsync clk) s chunks = set_unread [] (foldl (handle_c2s dsync clk) s ms)"
  using assms
proof (induction chunks arbitrary: s ms)
  case Nil
  then have e: "unread s = enc_all ms" by simp
  then have "ms = []" using Nil.prems(2) partial_front_all by simp
  with e show ?case by (metis enc_all_simps(1) foldl.simps(1) set_unread_simps(2))
next
  case (Cons b chunks)
  from feed_step [of s b "concat chunks" ms dsync clk] Cons.prems obtain ms1 ms2 r where sp: "ms = ms1 @ ms2"
    "r @ concat chunks = enc_all ms2" "partial_front r ms2"
    and f1: "feed dsync clk s b = set_unread r (foldl (handle_c2s dsync clk) s ms1)"
    and st: "m_socket (foldl (handle_c2s dsync clk) s ms1) \<noteq> None" by auto
  let ?t = "foldl (handle_c2s dsync clk) s ms1"
  have "foldl (feed dsync clk) (set_unread r ?t) chunks =
      set_unread [] (foldl (handle_c2s dsync clk) (set_unread r ?t) ms2)"
    by (rule Cons.IH) (use sp st Cons.prems in auto)
  then show ?case using f1 foldl_handle_unread [of ms2 ?t dsync clk r] st sp Cons.prems by simp
qed

section \<open>The frame-rate cap\<close>

text \<open>The signals that the cap counts: every frame that is not a small rectangle.\<close>

fun capped_signal :: "signal \<Rightarrow> bool" where
  "capped_signal (FrameReady q x y w h) \<longleftrightarrow> \<not> (0 < w \<and> w \<le> 256 \<and> 0 < h \<and> h \<le> 256)"
| "capped_signal _ \<longleftrightarrow> False"

definition capped_count :: "server \<Rightarrow> nat" where
  "capped_count s = length (filter capped_signal (sv_signals s))"

lemma sint_small_u32: "(0 < sint (w :: u32) \<and> sint w \<le> 256) = (0 < w \<and> w \<le> 256)"
proof -
  have u: "0 \<le> uint w" "uint w < 2 ^ 32" using uint_lt2p [of w] by simp_all
  have s: "sint w = (if uint w < 2 ^ 31 then uint w else uint w - 2 ^ 32)"
    by (simp add: sint_u32_small sint_u32_large)
  have "(0 < w) = (0 < uint w)" "(w \<le> 256) = (uint w \<le> 256)"
    by (simp_all add: word_less_def word_le_def)
  then show ?thesis using s u by auto
qed

lemma capped_FrameReady:
  "capped_signal (FrameReady q x y (sint (frame_w f)) (sint (frame_h f))) \<longleftrightarrow> \<not> small_rect f"
  using sint_small_u32 [of "frame_w f"] sint_small_u32 [of "frame_h f"]
  by (auto simp: small_rect_def)

text \<open>
  One frame under a cap: the count grows by one exactly when the previous capped emission is at
  least a period old, and then that emission's time is recorded.
\<close>

lemma handleFrame_capped:
  assumes "0 < m_fps_cap s" "0 < m_min_period_ms s"
  shows "let s' = handleFrame clk f s; now = clk (sv_ticks s) in
     m_fps_cap s' = m_fps_cap s \<and> m_min_period_ms s' = m_min_period_ms s \<and>
     (if small_rect f
      then capped_count s' = capped_count s \<and> m_last_emit_ms s' = m_last_emit_ms s \<and> sv_ticks s' = sv_ticks s
      else sv_ticks s' = Suc (sv_ticks s) \<and>
        (if m_last_emit_ms s \<noteq> 0 \<and> now - m_last_emit_ms s < m_min_period_ms s
         then capped_count s' = capped_count s \<and> m_last_emit_ms s' = m_last_emit_ms s
         else capped_count s' = Suc (capped_count s) \<and> m_last_emit_ms s' = now))"
  using assms capped_FrameReady [of _ _ _ f]
  by (auto simp: handleFrame_def Let_def capped_count_def emit_def)

lemma handleCursor_capped:
  "let s' = handleCursor c s in m_fps_cap s' = m_fps_cap s \<and> m_min_period_ms s' = m_min_period_ms s \<and>
     capped_count s' = capped_count s \<and> m_last_emit_ms s' = m_last_emit_ms s \<and> sv_ticks s' = sv_ticks s"
  by (auto simp: handleCursor_def Let_def capped_count_def emit_def)

text \<open>One message leaves the count alone, or adds one and records the clock, a period after the last.\<close>

lemma handle_capped:
  assumes "frame_or_cursor m" "0 < m_fps_cap s" "0 < m_min_period_ms s" "handle_c2s dsync clk s m = s'"
  shows "m_fps_cap s' = m_fps_cap s \<and> m_min_period_ms s' = m_min_period_ms s \<and> sv_ticks s \<le> sv_ticks s' \<and>
    ((capped_count s' = capped_count s \<and> m_last_emit_ms s' = m_last_emit_ms s) \<or>
     (capped_count s' = Suc (capped_count s) \<and> m_last_emit_ms s' = clk (sv_ticks s) \<and> sv_ticks s' = Suc (sv_ticks s) \<and>
      (m_last_emit_ms s = 0 \<or> m_min_period_ms s \<le> clk (sv_ticks s) - m_last_emit_ms s)))"
proof (cases m)
  case (C2S_Frame f)
  then show ?thesis using assms handleFrame_capped [of s clk f] by (auto simp: Let_def split: if_splits)
next
  case (C2S_Cursor c)
  then show ?thesis using assms(4) handleCursor_capped [of c s] by (auto simp: Let_def)
qed (use assms in auto)

text \<open>Emissions spread over the clock: \<open>n\<close> of them after \<open>t\<close> need \<open>n\<close> periods.\<close>

lemma capped_rate_from:
  assumes "list_all frame_or_cursor ms" "0 < m_fps_cap s" "0 < m_min_period_ms s" "0 < m_last_emit_ms s"
  shows "m_min_period_ms s * (int (capped_count (foldl (handle_c2s dsync clk) s ms)) - int (capped_count s))
      \<le> m_last_emit_ms (foldl (handle_c2s dsync clk) s ms) - m_last_emit_ms s \<and>
    sv_ticks s \<le> sv_ticks (foldl (handle_c2s dsync clk) s ms) \<and>
    (m_last_emit_ms (foldl (handle_c2s dsync clk) s ms) = m_last_emit_ms s \<or>
     (\<exists>j < sv_ticks (foldl (handle_c2s dsync clk) s ms). sv_ticks s \<le> j \<and>
        m_last_emit_ms (foldl (handle_c2s dsync clk) s ms) = clk j))"
  using assms
proof (induction ms arbitrary: s)
  case (Cons m ms)
  let ?s = "handle_c2s dsync clk s m"
  let ?e = "foldl (handle_c2s dsync clk) ?s ms"
  have st: "m_fps_cap ?s = m_fps_cap s \<and> m_min_period_ms ?s = m_min_period_ms s \<and> sv_ticks s \<le> sv_ticks ?s \<and>
    ((capped_count ?s = capped_count s \<and> m_last_emit_ms ?s = m_last_emit_ms s) \<or>
     (capped_count ?s = Suc (capped_count s) \<and> m_last_emit_ms ?s = clk (sv_ticks s) \<and>
      sv_ticks ?s = Suc (sv_ticks s) \<and> m_min_period_ms s \<le> clk (sv_ticks s) - m_last_emit_ms s))"
    using handle_capped [of m s dsync clk ?s] Cons.prems by auto
  then have "0 < m_last_emit_ms ?s" using Cons.prems by auto
  then have ih: "m_min_period_ms ?s * (int (capped_count ?e) - int (capped_count ?s))
      \<le> m_last_emit_ms ?e - m_last_emit_ms ?s" "sv_ticks ?s \<le> sv_ticks ?e"
    "m_last_emit_ms ?e = m_last_emit_ms ?s \<or>
     (\<exists>j < sv_ticks ?e. sv_ticks ?s \<le> j \<and> m_last_emit_ms ?e = clk j)"
    using Cons.IH [of ?s] Cons.prems st by auto
  from st have P: "m_min_period_ms ?s = m_min_period_ms s" by blast
  from st have ticks: "sv_ticks s \<le> sv_ticks ?s" by auto
  have "m_min_period_ms s * (int (capped_count ?s) - int (capped_count s)) \<le> m_last_emit_ms ?s - m_last_emit_ms s"
    using st by auto
  then have 1: "m_min_period_ms s * (int (capped_count ?e) - int (capped_count s)) \<le> m_last_emit_ms ?e - m_last_emit_ms s"
    using ih(1) unfolding P right_diff_distrib by linarith
  have 2: "m_last_emit_ms ?e = m_last_emit_ms s \<or>
     (\<exists>j < sv_ticks ?e. sv_ticks s \<le> j \<and> m_last_emit_ms ?e = clk j)"
    using ih(3)
  proof (elim disjE exE conjE)
    assume e: "m_last_emit_ms ?e = m_last_emit_ms ?s"
    from st show ?thesis
    proof (elim conjE disjE)
      assume "m_last_emit_ms ?s = clk (sv_ticks s)" "sv_ticks ?s = Suc (sv_ticks s)"
      with e ih(2) show ?thesis by (intro disjI2 exI [of _ "sv_ticks s"]) simp
    qed (use e in simp)
  next
    fix j assume "j < sv_ticks ?e" "sv_ticks ?s \<le> j" "m_last_emit_ms ?e = clk j"
    with ticks show ?thesis by (intro disjI2 exI [of _ j]) simp
  qed
  have "foldl (handle_c2s dsync clk) s (m # ms) = ?e" by simp
  with 1 2 ih(2) ticks show ?case by (metis order.trans)
qed simp

text \<open>
  Since the hello set the cap, the capped frames the server announces are at most one more than
  the periods between two readings of its clock.
\<close>

lemma capped_rate:
  assumes "list_all frame_or_cursor ms" "0 < m_fps_cap s" "0 < m_min_period_ms s"
    and "m_last_emit_ms s = 0" "\<And>i. 0 < clk i"
    and "s' = foldl (handle_c2s dsync clk) s ms"
  shows "capped_count s' = capped_count s \<or>
    (\<exists>i j. sv_ticks s \<le> i \<and> i \<le> j \<and> j < sv_ticks s' \<and>
       m_min_period_ms s * (int (capped_count s') - int (capped_count s) - 1) \<le> clk j - clk i)"
  using assms(1-4) unfolding assms(6)
proof (induction ms arbitrary: s)
  case (Cons m ms)
  let ?s = "handle_c2s dsync clk s m"
  let ?e = "foldl (handle_c2s dsync clk) ?s ms"
  have st: "m_fps_cap ?s = m_fps_cap s \<and> m_min_period_ms ?s = m_min_period_ms s \<and>
    ((capped_count ?s = capped_count s \<and> m_last_emit_ms ?s = 0 \<and> sv_ticks s \<le> sv_ticks ?s) \<or>
     (capped_count ?s = Suc (capped_count s) \<and> m_last_emit_ms ?s = clk (sv_ticks s) \<and>
      sv_ticks ?s = Suc (sv_ticks s)))"
    using handle_capped [of m s dsync clk ?s] Cons.prems by auto
  then consider "m_last_emit_ms ?s = 0" "capped_count ?s = capped_count s" "sv_ticks s \<le> sv_ticks ?s"
    | "capped_count ?s = Suc (capped_count s)" "m_last_emit_ms ?s = clk (sv_ticks s)"
      "sv_ticks ?s = Suc (sv_ticks s)" by blast
  then show ?case
  proof cases
    case 1
    from st have P: "m_min_period_ms ?s = m_min_period_ms s" by blast
    have "capped_count ?e = capped_count ?s \<or>
      (\<exists>i j. sv_ticks ?s \<le> i \<and> i \<le> j \<and> j < sv_ticks ?e \<and>
       m_min_period_ms ?s * (int (capped_count ?e) - int (capped_count ?s) - 1) \<le> clk j - clk i)"
      by (rule Cons.IH) (use Cons.prems st 1 in auto)
    with 1 P show ?thesis by (auto intro: order.trans)
  next
    case 2
    have l: "list_all frame_or_cursor ms" "0 < m_fps_cap ?s" "0 < m_min_period_ms ?s" "0 < m_last_emit_ms ?s"
      using Cons.prems st 2 assms(5) by auto
    note r = capped_rate_from [OF l, of dsync clk]
    from st have P: "m_min_period_ms ?s = m_min_period_ms s" by blast
    from r have "\<exists>j. sv_ticks s \<le> j \<and> j < sv_ticks ?e \<and> m_last_emit_ms ?e = clk j"
    proof (elim conjE disjE exE)
      assume "m_last_emit_ms ?e = m_last_emit_ms ?s" "sv_ticks ?s \<le> sv_ticks ?e"
      with 2 show ?thesis by (intro exI [of _ "sv_ticks s"]) simp
    next
      fix j assume "j < sv_ticks ?e" "sv_ticks ?s \<le> j" "m_last_emit_ms ?e = clk j"
      with 2 show ?thesis by (intro exI [of _ j]) simp
    qed
    then obtain j where j: "sv_ticks s \<le> j" "j < sv_ticks ?e" "m_last_emit_ms ?e = clk j" by blast
    have "m_min_period_ms s * (int (capped_count ?e) - int (capped_count s) - 1) \<le> clk j - clk (sv_ticks s)"
      using r 2 P j by (simp add: diff_diff_eq add.commute)
    with j have "\<exists>i j. sv_ticks s \<le> i \<and> i \<le> j \<and> j < sv_ticks ?e \<and>
       m_min_period_ms s * (int (capped_count ?e) - int (capped_count s) - 1) \<le> clk j - clk i"
      by blast
    then show ?thesis by simp
  qed
qed simp

section \<open>The life of a server\<close>

text \<open>
  The events a server sees. A device description is one that detection can produce; clients can
  connect while it listens; \<open>stop\<close> is called when it does not go wrong.
\<close>

datatype sv_event =
    Ev_start server_io device_info
  | Ev_connect
  | Ev_data bytes
  | Ev_disconnected
  | Ev_stop

fun sv_step :: "bool \<Rightarrow> (nat \<Rightarrow> int) \<Rightarrow> server \<Rightarrow> sv_event \<Rightarrow> server" where
  "sv_step dsync clk s (Ev_start io info) = snd (server_start io info s)"
| "sv_step dsync clk s Ev_connect = onNewConnection s"
| "sv_step dsync clk s (Ev_data b) = feed dsync clk s b"
| "sv_step dsync clk s Ev_disconnected = onSocketDisconnected s"
| "sv_step dsync clk s Ev_stop = (case server_stop dsync s of Inr s' \<Rightarrow> s' | Inl _ \<Rightarrow> s)"

fun sv_allowed :: "bool \<Rightarrow> server \<Rightarrow> sv_event \<Rightarrow> bool" where
  "sv_allowed dsync s (Ev_start io info) \<longleftrightarrow> geometry_ok info"
| "sv_allowed dsync s Ev_connect \<longleftrightarrow> m_server s"
| "sv_allowed dsync s (Ev_data b) \<longleftrightarrow> m_socket s \<noteq> None"
| "sv_allowed dsync s Ev_disconnected \<longleftrightarrow> m_socket s \<noteq> None"
| "sv_allowed dsync s Ev_stop \<longleftrightarrow> server_stop dsync s \<noteq> Inl (Undefined Null_deref)"

text \<open>
  The invariant: a listening server has a shared memory of exactly \<open>stride * h\<close> bytes, of a
  format that fits its stride; only a listening server has a client.
\<close>

definition format_fits :: "server \<Rightarrow> bool" where
  "format_fits s \<longleftrightarrow>
     (sv_format s = 0 \<and> sv_bpp s = 16 \<and> sv_stride s = 2 * sv_w s) \<or>
     (sv_format s = 1 \<and> sv_bpp s = 32 \<and> sv_stride s = 4 * sv_w s) \<or>
     (sv_format s = 2 \<and> sv_bpp s = 8 \<and> sv_stride s = sv_w s)"

definition server_inv :: "server \<Rightarrow> bool" where
  "server_inv s \<longleftrightarrow>
     (m_server s \<longrightarrow> 0 < sv_w s \<and> sv_w s < 2 ^ 12 \<and> 0 < sv_h s \<and> sv_h s < 2 ^ 12 \<and> format_fits s \<and>
        (\<exists>shm. sv_shm s = Some shm \<and> int (length shm) = sv_stride s * sv_h s)) \<and>
     (m_socket s \<noteq> None \<longrightarrow> m_server s)"

text \<open>What messages leave alone.\<close>

definition same_buffer :: "server \<Rightarrow> server \<Rightarrow> bool" where
  "same_buffer s s' \<longleftrightarrow> m_server s' = m_server s \<and> sv_w s' = sv_w s \<and> sv_h s' = sv_h s \<and>
     sv_stride s' = sv_stride s \<and> sv_bpp s' = sv_bpp s \<and> sv_format s' = sv_format s \<and>
     sv_shm s' = sv_shm s \<and> sv_shmName s' = sv_shmName s \<and> (m_socket s = None \<longrightarrow> m_socket s' = None)"

lemma same_buffer_refl [simp]: "same_buffer s s"
  by (simp add: same_buffer_def)

lemma same_buffer_trans: "same_buffer a b \<Longrightarrow> same_buffer b c \<Longrightarrow> same_buffer a c"
  by (simp add: same_buffer_def)

lemma same_buffer_inv: "same_buffer s s' \<Longrightarrow> server_inv s \<Longrightarrow> server_inv s'"
  by (auto simp: same_buffer_def server_inv_def format_fits_def)

lemma same_buffer_disconnect: "same_buffer s (disconnectFromServer dsync s)"
  by (auto simp: same_buffer_def disconnectFromServer_def onSocketDisconnected_def emit_def split: option.splits)

lemma same_buffer_set_unread: "same_buffer s (set_unread r s)"
  by (auto simp: same_buffer_def set_unread_def)

lemma buffer_fields:
  fixes t :: server
  shows "m_server (disconnectFromServer dsync t) = m_server t" "sv_w (disconnectFromServer dsync t) = sv_w t"
    "sv_h (disconnectFromServer dsync t) = sv_h t" "sv_stride (disconnectFromServer dsync t) = sv_stride t"
    "sv_bpp (disconnectFromServer dsync t) = sv_bpp t" "sv_format (disconnectFromServer dsync t) = sv_format t"
    "sv_shm (disconnectFromServer dsync t) = sv_shm t" "sv_shmName (disconnectFromServer dsync t) = sv_shmName t"
    "m_socket t = None \<Longrightarrow> m_socket (disconnectFromServer dsync t) = None"
    "m_server (sock_write b t) = m_server t" "sv_w (sock_write b t) = sv_w t" "sv_h (sock_write b t) = sv_h t"
    "sv_stride (sock_write b t) = sv_stride t" "sv_bpp (sock_write b t) = sv_bpp t"
    "sv_format (sock_write b t) = sv_format t" "sv_shm (sock_write b t) = sv_shm t"
    "sv_shmName (sock_write b t) = sv_shmName t" "m_socket t = None \<Longrightarrow> m_socket (sock_write b t) = None"
  by (simp_all add: disconnectFromServer_def onSocketDisconnected_def emit_def sock_write_def split: option.splits)

lemma same_buffer_handle: "same_buffer s (handle_c2s dsync clk s m)"
proof (cases m)
  case (C2S_Hello h)
  show ?thesis
    by (simp add: C2S_Hello handleHello_def Let_def same_buffer_def buffer_fields emit_def)
next
  case (C2S_Frame f)
  then show ?thesis by (auto simp: handleFrame_def Let_def same_buffer_def emit_def)
next
  case (C2S_Cursor c)
  then show ?thesis by (auto simp: handleCursor_def Let_def same_buffer_def emit_def)
qed (simp add: same_buffer_disconnect)

lemma same_buffer_read_step: "same_buffer s (fst (read_step dsync clk s))"
proof -
  have h: "same_buffer s (handle_c2s dsync clk (set_unread r s) m)" for r m
    by (rule same_buffer_trans [OF same_buffer_set_unread same_buffer_handle])
  show ?thesis
    using h [of _ "C2S_Hello _"] h [of _ "C2S_Frame _"] h [of _ "C2S_Cursor _"] h [of _ "C2S_Bye undefined"]
    by (auto simp: read_step_def Let_def consume_set_unread same_buffer_disconnect split: option.splits)
qed

lemma same_buffer_read: "same_buffer s (onSocketReadyRead dsync clk s)"
proof (induction dsync clk s rule: onSocketReadyRead.induct)
  case (1 dsync clk s)
  have r: "same_buffer s s'" if "read_step dsync clk s = (s', b)" for s' b
    using same_buffer_read_step [of s dsync clk] that by simp
  show ?case
    using 1 r by (subst onSocketReadyRead.simps)
      (auto intro: same_buffer_trans [OF r] split: prod.splits bool.splits)
qed

lemma server_start_inv:
  assumes "server_inv s" "geometry_ok info"
  shows "server_inv (snd (server_start io info s))"
proof (cases "m_server s")
  case True
  then show ?thesis using assms by (simp add: server_start_def)
next
  case False
  then have "m_socket s = None" using assms by (auto simp: server_inv_def)
  have nn: "0 \<le> sv_stride (server_geometry info s) * sv_h (server_geometry info s)"
    using assms(2) by (auto simp: server_geometry_def geometry_ok_def Let_def intro!: mult_nonneg_nonneg)
  have ff: "format_fits (server_geometry info s)"
    using assms(2) by (auto simp: format_fits_def server_geometry_def geometry_ok_def Let_def)
  have sg: "sv_w (server_geometry info s) = di_w info" "sv_h (server_geometry info s) = di_h info"
    "m_socket (server_geometry info s) = m_socket s" "m_server (server_geometry info s) = m_server s"
    by (simp_all add: server_geometry_def Let_def)
  show ?thesis
    using False assms(2) \<open>m_socket s = None\<close> nn ff sg
    by (auto simp: server_start_def allocShm_def freeShm_def emit_def Let_def server_inv_def
        geometry_ok_def format_fits_def split: prod.splits)
qed

interpretation server_sys: transition_system "server_init gray" "sv_allowed dsync" "sv_step dsync clk" server_inv
proof unfold_locales
  show "server_inv (server_init gray)" by (simp add: server_inv_def server_init_def)
next
  fix s e
  assume inv: "server_inv s" and al: "sv_allowed dsync s e"
  show "server_inv (sv_step dsync clk s e)"
  proof (cases e)
    case (Ev_start io info)
    then show ?thesis using server_start_inv inv al by simp
  next
    case Ev_connect
    then show ?thesis using inv al
      by (auto simp: onNewConnection_def emit_def server_inv_def format_fits_def)
  next
    case (Ev_data b)
    have "same_buffer s (feed dsync clk s b)"
      unfolding feed_def sock_arrive_set_unread
      by (rule same_buffer_trans [OF same_buffer_set_unread same_buffer_read])
    then show ?thesis using same_buffer_inv inv Ev_data by simp
  next
    case Ev_disconnected
    then show ?thesis using inv
      by (auto simp: onSocketDisconnected_def emit_def server_inv_def format_fits_def)
  next
    case Ev_stop
    then show ?thesis using inv
      by (auto simp: server_stop_def Let_def disconnectFromServer_def onSocketDisconnected_def emit_def
          server_inv_def format_fits_def split: sum.splits option.splits if_splits)
  qed
qed

text \<open>A second client never disturbs the first, and hanging up frees the place.\<close>

lemma second_client_refused: "m_socket s \<noteq> None \<Longrightarrow> onNewConnection s = s"
  by (simp add: onNewConnection_def)

text \<open>\<open>stop\<close> goes wrong exactly with a client whose disconnection is signalled at once.\<close>

lemma server_stop_null: "server_stop dsync s = Inl (Undefined Null_deref) \<longleftrightarrow> dsync \<and> m_socket s \<noteq> None"
  by (auto simp: server_stop_def Let_def disconnectFromServer_def onSocketDisconnected_def emit_def
      split: option.splits)

end
