(* ===== verification/QtfbCommon.thy ===== *)
theory QtfbCommon
  imports Prelude
begin

text \<open>
  The shared definitions of the qtfb framebuffer protocol, used by the client's input handling and
  by the middleware's framebuffer manager (\<open>src/middleware/extension/src/qtfb/common.h\<close>).
\<close>

section \<open>Input codes\<close>

definition INPUT_TOUCH_PRESS :: int where "INPUT_TOUCH_PRESS = 0x10"
definition INPUT_TOUCH_RELEASE :: int where "INPUT_TOUCH_RELEASE = 0x11"
definition INPUT_TOUCH_UPDATE :: int where "INPUT_TOUCH_UPDATE = 0x12"
definition INPUT_PEN_PRESS :: int where "INPUT_PEN_PRESS = 0x20"
definition INPUT_PEN_RELEASE :: int where "INPUT_PEN_RELEASE = 0x21"
definition INPUT_PEN_UPDATE :: int where "INPUT_PEN_UPDATE = 0x22"
definition INPUT_BTN_PRESS :: int where "INPUT_BTN_PRESS = 0x30"
definition INPUT_BTN_RELEASE :: int where "INPUT_BTN_RELEASE = 0x31"
definition INPUT_VKB_PRESS :: int where "INPUT_VKB_PRESS = 0x40"
definition INPUT_VKB_RELEASE :: int where "INPUT_VKB_RELEASE = 0x41"
definition INPUT_BTN_X_LEFT :: int where "INPUT_BTN_X_LEFT = 0"
definition INPUT_BTN_X_HOME :: int where "INPUT_BTN_X_HOME = 1"
definition INPUT_BTN_X_RIGHT :: int where "INPUT_BTN_X_RIGHT = 2"
definition INPUT_VKB_SHIFTMOD :: int where "INPUT_VKB_SHIFTMOD = 0x100000"
definition INPUT_VKB_CTRLMOD :: int where "INPUT_VKB_CTRLMOD = 0x200000"
definition INPUT_VKB_ALTMOD :: int where "INPUT_VKB_ALTMOD = 0x400000"
definition INPUT_VKB_PGUP :: int where "INPUT_VKB_PGUP = 0x80"
definition INPUT_VKB_PGDOWN :: int where "INPUT_VKB_PGDOWN = 0x81"
definition INPUT_VKB_DOWN :: int where "INPUT_VKB_DOWN = 0x82"
definition INPUT_VKB_UP :: int where "INPUT_VKB_UP = 0x83"
definition INPUT_VKB_LEFT :: int where "INPUT_VKB_LEFT = 0x84"
definition INPUT_VKB_RIGHT :: int where "INPUT_VKB_RIGHT = 0x85"
definition INPUT_VKB_HOME :: int where "INPUT_VKB_HOME = 0x86"
definition INPUT_VKB_END :: int where "INPUT_VKB_END = 0x87"
lemmas qtfb_input_codes =
  INPUT_TOUCH_PRESS_def INPUT_TOUCH_RELEASE_def INPUT_TOUCH_UPDATE_def INPUT_PEN_PRESS_def
  INPUT_PEN_RELEASE_def INPUT_PEN_UPDATE_def INPUT_BTN_PRESS_def INPUT_BTN_RELEASE_def
  INPUT_VKB_PRESS_def INPUT_VKB_RELEASE_def INPUT_BTN_X_LEFT_def INPUT_BTN_X_HOME_def
  INPUT_BTN_X_RIGHT_def INPUT_VKB_SHIFTMOD_def INPUT_VKB_CTRLMOD_def INPUT_VKB_ALTMOD_def
  INPUT_VKB_PGUP_def INPUT_VKB_PGDOWN_def INPUT_VKB_DOWN_def INPUT_VKB_UP_def INPUT_VKB_LEFT_def
  INPUT_VKB_RIGHT_def INPUT_VKB_HOME_def INPUT_VKB_END_def

section \<open>Messages and formats\<close>

definition MESSAGE_INITIALIZE :: nat where "MESSAGE_INITIALIZE = 0"
definition MESSAGE_UPDATE :: nat where "MESSAGE_UPDATE = 1"
definition MESSAGE_CUSTOM_INITIALIZE :: nat where "MESSAGE_CUSTOM_INITIALIZE = 2"
definition MESSAGE_TERMINATE :: nat where "MESSAGE_TERMINATE = 3"
definition MESSAGE_USERINPUT :: nat where "MESSAGE_USERINPUT = 4"
definition MESSAGE_SET_REFRESH_MODE :: nat where "MESSAGE_SET_REFRESH_MODE = 5"
definition MESSAGE_REQUEST_FULL_REFRESH :: nat where "MESSAGE_REQUEST_FULL_REFRESH = 6"

lemmas message_codes = MESSAGE_INITIALIZE_def MESSAGE_UPDATE_def MESSAGE_CUSTOM_INITIALIZE_def
  MESSAGE_TERMINATE_def MESSAGE_USERINPUT_def MESSAGE_SET_REFRESH_MODE_def
  MESSAGE_REQUEST_FULL_REFRESH_def

definition UPDATE_ALL :: int where "UPDATE_ALL = 0"
definition UPDATE_PARTIAL :: int where "UPDATE_PARTIAL = 1"

text \<open>The sizes of the three panels.\<close>

definition RM2_WIDTH :: int where "RM2_WIDTH = 1404"
definition RM2_HEIGHT :: int where "RM2_HEIGHT = 1872"
definition RMPP_WIDTH :: int where "RMPP_WIDTH = 1620"
definition RMPP_HEIGHT :: int where "RMPP_HEIGHT = 2160"
definition RMPPM_WIDTH :: int where "RMPPM_WIDTH = 954"
definition RMPPM_HEIGHT :: int where "RMPPM_HEIGHT = 1696"

lemmas panel_sizes = RM2_WIDTH_def RM2_HEIGHT_def RMPP_WIDTH_def RMPP_HEIGHT_def RMPPM_WIDTH_def
  RMPPM_HEIGHT_def

record user_input =
  inputType :: int
  devId :: int
  in_x :: int
  in_y :: int
  in_d :: int

text \<open>
  What a client can send: the union of the message is the constructor that its type selects.
  \<open>Other\<close> is any other type byte, and \<open>MESSAGE_USERINPUT\<close> is only ever sent by the server.
\<close>

datatype client_msg =
    Init int nat
  | Custom_init int nat nat nat
  | Update_region int int int int int
  | Terminate
  | Set_refresh_mode int
  | Request_full_refresh
  | Other nat

datatype server_msg = Init_response int int | User_input user_input

end
