(* ===== verification/FbController.thy ===== *)
theory FbController
  imports QtfbCommon Complex_Main
begin

text \<open>
  The Qt item that shows a framebuffer and turns Qt's input events into packets for its clients
  (\<open>src/middleware/extension/src/qtfb/FBController.h\<close>, \<open>FBController.cpp\<close>). A handler returns
  the item and what it emits or forwards, in order. Coordinates of Qt (\<open>qreal\<close>) are exact
  rational numbers. The calls into the framebuffer manager are in \<open>FbManagement\<close>.
\<close>

section \<open>State\<close>

record fb_image =
  img_id :: nat
  img_w :: int
  img_h :: int

record controller =
  framebufferID :: int
  refreshMode :: int
  active :: bool
  allowScaling :: bool
  isMidPaint :: bool
  checkingGestureDragDown :: bool
  refreshedScreenAlready :: bool
  fb_image :: "fb_image option"

definition DEFAULT_WAVEFORM_MODE :: int where "DEFAULT_WAVEFORM_MODE = 4"

text \<open>\<open>isMidPaint\<close> has no initial value in the class: it is whatever the memory held.\<close>

definition controller_new :: "bool \<Rightarrow> controller" where
  "controller_new mid =
     \<lparr>framebufferID = -1, refreshMode = DEFAULT_WAVEFORM_MODE, active = False, allowScaling = False,
      isMidPaint = mid, checkingGestureDragDown = False, refreshedScreenAlready = False,
      fb_image = None\<rparr>"

datatype fb_signal =
    ActiveChanged
  | DragDown
  | RequestFullRefresh
  | RefreshModeChanged
  | Update_item int int int int

section \<open>Painting\<close>

text \<open>The conversion of a \<open>qreal\<close> to \<open>int\<close> drops the fraction; out of range it is undefined.\<close>

definition trunc_rat :: "rat \<Rightarrow> int" where
  "trunc_rat q = (if q < 0 then - \<lfloor>- q\<rfloor> else \<lfloor>q\<rfloor>)"

definition to_int :: "rat \<Rightarrow> int res" where
  "to_int q =
     (if INT_MIN \<le> trunc_rat q \<and> trunc_rat q \<le> INT_MAX then Inr (trunc_rat q)
      else Inl (Undefined Bad_conversion))"

text \<open>\<open>W\<close> and \<open>H\<close> are the item's size. The division by the image's size is that of \<open>int\<close>.\<close>

definition markedUpdate ::
  "rat \<Rightarrow> rat \<Rightarrow> int \<times> int \<times> int \<times> int \<Rightarrow> controller \<Rightarrow> (controller \<times> fb_signal list) res" where
  "markedUpdate W H = (\<lambda>(x, y, w, h) c.
     let c1 = c\<lparr>isMidPaint := True\<rparr> in
     case (if allowScaling c then fb_image c else None) of
       None \<Rightarrow> Inr (c1, [Update_item x y w h])
     | Some im \<Rightarrow>
         bindE (to_int (of_int (cdiv x (img_w im)) * W)) (\<lambda>x'.
         bindE (to_int (of_int (cdiv y (img_h im)) * H)) (\<lambda>y'.
         bindE (to_int (of_int (cdiv w (img_w im)) * W)) (\<lambda>w'.
         bindE (to_int (of_int (cdiv h (img_h im)) * H)) (\<lambda>h'.
           Inr (c1, [Update_item x' y' w' h']))))))"

definition setActive :: "rat \<Rightarrow> rat \<Rightarrow> bool \<Rightarrow> controller \<Rightarrow> (controller \<times> fb_signal list) res" where
  "setActive W H a c =
     bindE (markedUpdate W H (0, 0, 0, 0) (c\<lparr>active := a\<rparr>)) (\<lambda>(c', out). Inr (c', ActiveChanged # out))"

text \<open>What \<open>paint\<close> draws: nothing, the image at the origin, or the image scaled to the item.\<close>

datatype drawing = Draw_nothing | Draw_at_origin fb_image | Draw_scaled fb_image

definition paint :: "controller \<Rightarrow> controller \<times> drawing" where
  "paint c =
     (c\<lparr>isMidPaint := False\<rparr>,
      case (if active c then fb_image c else None) of
        None \<Rightarrow> Draw_nothing
      | Some im \<Rightarrow> if allowScaling c then Draw_scaled im else Draw_at_origin im)"

definition setAllowScaling :: "bool \<Rightarrow> controller \<Rightarrow> controller" where
  "setAllowScaling a c = c\<lparr>allowScaling := a\<rparr>"

definition setRefreshMode :: "int \<Rightarrow> controller \<Rightarrow> controller \<times> fb_signal list" where
  "setRefreshMode rm c = (if rm \<noteq> refreshMode c then (c\<lparr>refreshMode := rm\<rparr>, [RefreshModeChanged]) else (c, []))"

section \<open>Input\<close>

definition convertPointToQTFBPixels :: "rat \<Rightarrow> rat \<Rightarrow> controller \<Rightarrow> rat \<times> rat \<Rightarrow> (int \<times> int) res" where
  "convertPointToQTFBPixels W H c = (\<lambda>(x, y).
     case (if allowScaling c then fb_image c else None) of
       None \<Rightarrow> bindE (to_int x) (\<lambda>a. bindE (to_int y) (\<lambda>b. Inr (a, b)))
     | Some im \<Rightarrow>
         if W = 0 \<or> H = 0 then Inl (Undefined Bad_conversion)
         else bindE (to_int (x * of_int (img_w im) / W)) (\<lambda>a.
              bindE (to_int (y * of_int (img_h im) / H)) (\<lambda>b. Inr (a, b))))"

text \<open>
  Mouse events. A press or a move uses the first point of the event (position and pressure), if
  there is one; a release uses the event's position.
\<close>

definition mouse_packet ::
  "int \<Rightarrow> rat \<Rightarrow> rat \<Rightarrow> ((rat \<times> rat) \<times> rat) option \<Rightarrow> controller \<Rightarrow> user_input list res" where
  "mouse_packet type W H point c =
     (case (if framebufferID c \<noteq> -1 then point else None) of
        None \<Rightarrow> Inr []
      | Some (pos, pressure) \<Rightarrow>
          bindE (convertPointToQTFBPixels W H c pos) (\<lambda>(x, y).
          bindE (to_int (pressure * 100)) (\<lambda>d.
            Inr [\<lparr>inputType = type, devId = 0, in_x = x, in_y = y, in_d = d\<rparr>])))"

definition mousePressEvent where "mousePressEvent = mouse_packet INPUT_PEN_PRESS"
definition mouseMoveEvent where "mouseMoveEvent = mouse_packet INPUT_PEN_UPDATE"

definition mouseReleaseEvent :: "rat \<Rightarrow> rat \<Rightarrow> rat \<times> rat \<Rightarrow> controller \<Rightarrow> user_input list res" where
  "mouseReleaseEvent W H pos c = mouse_packet INPUT_PEN_RELEASE W H (Some (pos, 0)) c"

definition sendKeyEvent :: "int \<Rightarrow> int \<Rightarrow> controller \<Rightarrow> user_input list" where
  "sendKeyEvent key pkt c =
     (if framebufferID c \<noteq> -1 then [\<lparr>inputType = pkt, devId = 0, in_x = key, in_y = 0, in_d = 0\<rparr>] else [])"

definition virtualKeyboardKeyDown where "virtualKeyboardKeyDown key = sendKeyEvent key INPUT_VKB_PRESS"
definition virtualKeyboardKeyUp where "virtualKeyboardKeyUp key = sendKeyEvent key INPUT_VKB_RELEASE"
definition specialKeyDown where "specialKeyDown key = sendKeyEvent key INPUT_BTN_PRESS"
definition specialKeyUp where "specialKeyUp key = sendKeyEvent key INPUT_BTN_RELEASE"

text \<open>The keys of Qt that are buttons of the tablet.\<close>

definition Key_Right :: int where "Key_Right = 0x01000014"
definition Key_Left :: int where "Key_Left = 0x01000012"
definition Key_Home :: int where "Key_Home = 0x01000010"

definition translateKey :: "int \<Rightarrow> int" where
  "translateKey k =
     (if k = Key_Right then INPUT_BTN_X_RIGHT else if k = Key_Left then INPUT_BTN_X_LEFT
      else if k = Key_Home then INPUT_BTN_X_HOME else -1)"

definition keyPressEvent :: "int \<Rightarrow> controller \<Rightarrow> user_input list" where
  "keyPressEvent key c = (if translateKey key \<noteq> -1 then specialKeyDown (translateKey key) c else [])"

definition keyReleaseEvent :: "int \<Rightarrow> controller \<Rightarrow> user_input list" where
  "keyReleaseEvent key c = (if translateKey key \<noteq> -1 then specialKeyUp (translateKey key) c else [])"

datatype point_state = Pressed | Released | Updated | Stationary

record touch_point =
  tp_id :: int
  tp_state :: point_state
  tp_pos :: "rat \<times> rat"

text \<open>One point of a touch event with \<open>n\<close> points.\<close>

definition touch_point_step ::
  "rat \<Rightarrow> rat \<Rightarrow> nat \<Rightarrow> touch_point \<Rightarrow> controller \<Rightarrow> (controller \<times> user_input \<times> fb_signal list) res" where
  "touch_point_step W H n p c =
     bindE (convertPointToQTFBPixels W H c (tp_pos p)) (\<lambda>(x, y).
     let packet = (\<lambda>t. \<lparr>inputType = t, devId = tp_id p, in_x = x, in_y = y, in_d = 0\<rparr>) in
     case tp_state p of
       Pressed \<Rightarrow>
         Inr ((if y < 100 then c\<lparr>checkingGestureDragDown := True\<rparr> else c), packet INPUT_TOUCH_PRESS, [])
     | Released \<Rightarrow>
         Inr ((if n = 1 then c\<lparr>refreshedScreenAlready := False\<rparr> else c)\<lparr>checkingGestureDragDown := False\<rparr>,
           packet INPUT_TOUCH_RELEASE,
           if y > 100 \<and> y < 400 \<and> checkingGestureDragDown c then [DragDown] else [])
     | Updated \<Rightarrow> Inr (c, packet INPUT_TOUCH_UPDATE, [])
     | Stationary \<Rightarrow> Inr (c, packet INPUT_TOUCH_PRESS, []))"

fun touch_points ::
  "rat \<Rightarrow> rat \<Rightarrow> nat \<Rightarrow> touch_point list \<Rightarrow> controller \<Rightarrow>
   (controller \<times> user_input list \<times> fb_signal list) res" where
  "touch_points W H n [] c = Inr (c, [], [])"
| "touch_points W H n (p # ps) c =
     bindE (touch_point_step W H n p c) (\<lambda>(c1, i, g1).
     bindE (touch_points W H n ps c1) (\<lambda>(c2, is, g2). Inr (c2, i # is, g1 @ g2)))"

definition touchEvent ::
  "rat \<Rightarrow> rat \<Rightarrow> touch_point list \<Rightarrow> controller \<Rightarrow> (controller \<times> user_input list \<times> fb_signal list) res" where
  "touchEvent W H ps c =
     (if framebufferID c \<noteq> -1 then
        if length ps = 5 \<and> \<not> refreshedScreenAlready c then
          bindE (touch_points W H (length ps) ps (c\<lparr>refreshedScreenAlready := True\<rparr>)) (\<lambda>(c', is, g).
            Inr (c', is, RequestFullRefresh # g))
        else touch_points W H (length ps) ps c
      else Inr (c, [], []))"

section \<open>Properties\<close>

lemma trunc_rat_bounds:
  assumes "0 \<le> q" "q < of_int n"
  shows "0 \<le> trunc_rat q \<and> trunc_rat q < n"
  using assms by (simp add: trunc_rat_def floor_less_iff)

text \<open>A point on the item is sent as a point on the image, so clients never see one outside.\<close>

lemma scaled_point_bounds:
  fixes x W :: rat
  assumes "0 < W" "0 \<le> x" "x < W" "0 < n"
  shows "0 \<le> x * of_int n / W" "x * of_int n / W < of_int n"
  using assms by (simp_all add: pos_divide_less_eq mult_strict_right_mono)

lemma convert_in_image:
  assumes "allowScaling c" "fb_image c = Some im" "0 < img_w im" "img_w im \<le> INT_MAX" "0 < img_h im"
    "img_h im \<le> INT_MAX" "0 \<le> x" "x < W" "0 \<le> y" "y < H"
  shows "\<exists>a b. convertPointToQTFBPixels W H c (x, y) = Inr (a, b) \<and>
     0 \<le> a \<and> a < img_w im \<and> 0 \<le> b \<and> b < img_h im"
proof -
  have p: "0 < W" "0 < H" using assms(7-10) by linarith+
  note bx = trunc_rat_bounds [OF scaled_point_bounds [OF p(1) assms(7,8,3)]]
  note bh = trunc_rat_bounds [OF scaled_point_bounds [OF p(2) assms(9,10,5)]]
  show ?thesis using assms(1-6) p bx bh
    by (simp add: convertPointToQTFBPixels_def to_int_def INT_MIN_def INT_MAX_def)
qed

text \<open>
  The scaled update region: the quotients are those of integers, so a region that does not reach
  across the whole image collapses to a point at the origin.
\<close>

lemma cdiv_small: "0 \<le> x \<Longrightarrow> x < n \<Longrightarrow> cdiv x n = 0"
  by (simp add: cdiv_nonneg)

lemma marked_update_collapses:
  assumes "allowScaling c" "fb_image c = Some im" "0 \<le> x" "x < img_w im" "0 \<le> w" "w < img_w im"
    "0 \<le> y" "y < img_h im" "0 \<le> h" "h < img_h im"
  shows "markedUpdate W H (x, y, w, h) c = Inr (c\<lparr>isMidPaint := True\<rparr>, [Update_item 0 0 0 0])"
  using assms by (simp add: markedUpdate_def cdiv_small to_int_def trunc_rat_def INT_MIN_def INT_MAX_def)

text \<open>A touch event forwards one packet per point, in order, with the point's identity.\<close>

lemma touch_point_step_packet:
  assumes "touch_point_step W H n p c = Inr (c', i, g)"
  shows "devId i = tp_id p \<and>
     inputType i = (case tp_state p of Released \<Rightarrow> INPUT_TOUCH_RELEASE | Updated \<Rightarrow> INPUT_TOUCH_UPDATE
       | _ \<Rightarrow> INPUT_TOUCH_PRESS)"
proof -
  obtain x y where "convertPointToQTFBPixels W H c (tp_pos p) = Inr (x, y)"
    using assms by (auto simp: touch_point_step_def res_simps)
  then show ?thesis using assms by (cases "tp_state p") (auto simp: touch_point_step_def)
qed

lemma touch_points_packets:
  "touch_points W H n ps c = Inr (c', is, g) \<Longrightarrow> map devId is = map tp_id ps \<and>
     map inputType is = map (\<lambda>p. case tp_state p of Released \<Rightarrow> INPUT_TOUCH_RELEASE
       | Updated \<Rightarrow> INPUT_TOUCH_UPDATE | _ \<Rightarrow> INPUT_TOUCH_PRESS) ps"
proof (induction ps arbitrary: c "is" g)
  case (Cons p ps)
  then obtain c1 i g1 is2 g2 where "touch_point_step W H n p c = Inr (c1, i, g1)"
    "touch_points W H n ps c1 = Inr (c', is2, g2)" "is = i # is2"
    by (auto simp: res_simps)
  with Cons.IH touch_point_step_packet show ?case by fastforce
qed simp

end
