(* ===== verification/FrameView.thy ===== *)
theory FrameView
  imports QtfbServer FbController
begin

text \<open>
  The item that shows the shared memory (\<open>src/middleware/extension/src/qtfb/frame_view.h\<close>,
  \<open>frame_view.cpp\<close>). Its image aliases the shared memory of a server object, so the image
  carries the identity of the object it points into. What \<open>paint\<close> draws is a list of painter
  operations; \<open>op_place\<close> says where such an operation puts a point of the image, which is what the
  rectangles that \<open>onFrameReady\<close> invalidates are compared with. Coordinates are exact rationals; the
  timers of the latency log are left out, their counter is kept.
\<close>

section \<open>State\<close>

datatype image_format = Format_Grayscale8 | Format_Grayscale16 | Format_RGBA8888

record frame_image =
  fi_owner :: nat
  fi_w :: int
  fi_h :: int
  fi_stride :: int
  fi_format :: image_format

text \<open>A \<open>QRect\<close>: its last column and row are inclusive.\<close>

record qrect =
  q_x1 :: int
  q_y1 :: int
  q_x2 :: int
  q_y2 :: int

datatype update_request = Update_all | Update_rect qrect

record frame_view =
  fv_server :: "nat option"
  fv_img :: "frame_image option"
  fv_lastSeq :: u32
  fv_rotation :: int
  fv_scale :: rat
  fv_offset :: "rat \<times> rat"
  fv_drawn :: "rat \<times> rat"
  fv_layoutValid :: bool
  fv_pending_paint :: bool
  fv_lat_count :: nat
  fv_size :: "rat \<times> rat"
  fv_updates :: "update_request list"

definition frame_view_new :: "rat \<times> rat \<Rightarrow> frame_view" where
  "frame_view_new sz =
     \<lparr>fv_server = None, fv_img = None, fv_lastSeq = 0, fv_rotation = 0, fv_scale = 1, fv_offset = (0, 0),
      fv_drawn = (0, 0), fv_layoutValid = False, fv_pending_paint = False, fv_lat_count = 0,
      fv_size = sz, fv_updates = []\<rparr>"

definition request_update :: "update_request \<Rightarrow> frame_view \<Rightarrow> frame_view" where
  "request_update u v = v\<lparr>fv_updates := fv_updates v @ [u]\<rparr>"

section \<open>The server and its image\<close>

text \<open>\<open>objs\<close> maps the server objects that exist to their states.\<close>

definition attached :: "(nat \<rightharpoonup> server) \<Rightarrow> frame_view \<Rightarrow> server option" where
  "attached objs v = (case fv_server v of None \<Rightarrow> None | Some i \<Rightarrow> objs i)"

definition rebuildImage :: "(nat \<rightharpoonup> server) \<Rightarrow> frame_view \<Rightarrow> frame_view" where
  "rebuildImage objs v =
     (let v1 = v\<lparr>fv_layoutValid := False\<rparr> in
      case (fv_server v, attached objs v) of
        (Some i, Some s) \<Rightarrow>
          if sv_shm s = None \<or> sv_w s \<le> 0 \<or> sv_h s \<le> 0 then v1\<lparr>fv_img := None\<rparr>
          else
            let fmt = (if sv_bpp s = 8 then Format_Grayscale8
                       else if sv_bpp s = 16 then Format_Grayscale16 else Format_RGBA8888) in
            v1\<lparr>fv_img := Some \<lparr>fi_owner = i, fi_w = sv_w s, fi_h = sv_h s, fi_stride = sv_stride s,
                              fi_format = fmt\<rparr>\<rparr>
      | _ \<Rightarrow> v1\<lparr>fv_img := None\<rparr>)"

definition fv_setServer :: "(nat \<rightharpoonup> server) \<Rightarrow> nat option \<Rightarrow> frame_view \<Rightarrow> frame_view" where
  "fv_setServer objs s v =
     (if (if attached objs v = None then None else fv_server v) = s then v
      else
        let v1 = v\<lparr>fv_server := s\<rparr>;
            v2 = (if s \<noteq> None then rebuildImage objs v1 else v1\<lparr>fv_img := None\<rparr>) in
        request_update Update_all v2)"

section \<open>Layout\<close>

text \<open>\<open>QSizeF::scaled\<close> with \<open>Qt::KeepAspectRatio\<close>.\<close>

definition scaled_keep :: "rat \<times> rat \<Rightarrow> rat \<times> rat \<Rightarrow> rat \<times> rat" where
  "scaled_keep = (\<lambda>(w, h) (W, H).
     if w = 0 \<or> h = 0 then (W, H)
     else let rw = H * w / h in if rw \<le> W then (rw, H) else (W, W * h / w))"

definition sideways :: "frame_view \<Rightarrow> bool" where
  "sideways v \<longleftrightarrow> fv_rotation v = 90 \<or> fv_rotation v = 270"

definition recalcLayout :: "frame_view \<Rightarrow> frame_view" where
  "recalcLayout v =
     (let v1 = v\<lparr>fv_layoutValid := True\<rparr> in
      case fv_img v of
        None \<Rightarrow> v1\<lparr>fv_scale := 1, fv_offset := (0, 0), fv_drawn := (0, 0)\<rparr>
      | Some im \<Rightarrow>
          let (W, H) = fv_size v; w = of_int (fi_w im); h = of_int (fi_h im);
              src = (if sideways v then (h, w) else (w, h));
              fit = scaled_keep src (W, H) in
          v1\<lparr>fv_scale := (if fst src > 0 then fst fit / fst src else 1),
             fv_drawn := (if sideways v then (snd fit, fst fit) else fit),
             fv_offset := ((W - fst fit) / 2, (H - snd fit) / 2)\<rparr>)"

text \<open>\<open>QRectF::toAlignedRect\<close>: the smallest rectangle of whole pixels around a rectangle.\<close>

definition toAlignedRect :: "rat \<Rightarrow> rat \<Rightarrow> rat \<Rightarrow> rat \<Rightarrow> qrect res" where
  "toAlignedRect x y w h =
     bindE (to_int (of_int \<lfloor>x\<rfloor>)) (\<lambda>xmin.
     bindE (to_int (of_int \<lceil>x + w\<rceil>)) (\<lambda>xmax.
     bindE (to_int (of_int \<lfloor>y\<rfloor>)) (\<lambda>ymin.
     bindE (to_int (of_int \<lceil>y + h\<rceil>)) (\<lambda>ymax.
       Inr \<lparr>q_x1 = xmin, q_y1 = ymin, q_x2 = xmax - 1, q_y2 = ymax - 1\<rparr>))))"

definition null_rect :: qrect where
  "null_rect = \<lparr>q_x1 = 0, q_y1 = 0, q_x2 = -1, q_y2 = -1\<rparr>"

text \<open>The sums of \<open>int\<close>s in the rotated cases can overflow; the rest is computed in \<open>qreal\<close>.\<close>

definition mapSourceRect :: "frame_view \<Rightarrow> int \<Rightarrow> int \<Rightarrow> int \<Rightarrow> int \<Rightarrow> qrect res" where
  "mapSourceRect v sx sy sw sh =
     (if fv_img v = None \<or> fv_scale v \<le> 0 then Inr null_rect
      else
        let (W, H) = fv_size v; s = fv_scale v; post_w = (if sideways v then snd (fv_drawn v) else fst (fv_drawn v));
            post_h = (if sideways v then fst (fv_drawn v) else snd (fv_drawn v));
            left = (W - post_w) / 2; top = (H - post_h) / 2; r = of_int in
        if fv_rotation v = 0 then
          toAlignedRect (fst (fv_offset v) + r sx * s) (snd (fv_offset v) + r sy * s) (r sw * s) (r sh * s)
        else if fv_rotation v = 90 then
          bindE (ckint (sy + sh)) (\<lambda>b.
            toAlignedRect (left + post_w - r b * s) (top + r sx * s) (r sh * s) (r sw * s))
        else if fv_rotation v = 270 then
          bindE (ckint (sx + sw)) (\<lambda>a.
            toAlignedRect (left + r sy * s) (top + post_h - r a * s) (r sh * s) (r sw * s))
        else
          bindE (ckint (sx + sw)) (\<lambda>a. bindE (ckint (sy + sh)) (\<lambda>b.
            toAlignedRect (left + post_w - r a * s) (top + post_h - r b * s) (r sw * s) (r sh * s))))"

text \<open>\<open>QRect::adjust\<close> by one pixel on each side, and \<open>QRect::isEmpty\<close>.\<close>

definition inflate :: "qrect \<Rightarrow> qrect res" where
  "inflate r =
     bindE (ckint (q_x1 r - 1)) (\<lambda>x1. bindE (ckint (q_y1 r - 1)) (\<lambda>y1.
     bindE (ckint (q_x2 r + 1)) (\<lambda>x2. bindE (ckint (q_y2 r + 1)) (\<lambda>y2.
       Inr \<lparr>q_x1 = x1, q_y1 = y1, q_x2 = x2, q_y2 = y2\<rparr>))))"

definition rect_empty :: "qrect \<Rightarrow> bool" where
  "rect_empty r \<longleftrightarrow> q_x1 r > q_x2 r \<or> q_y1 r > q_y2 r"

definition onFrameReady :: "u32 \<Rightarrow> int \<Rightarrow> int \<Rightarrow> int \<Rightarrow> int \<Rightarrow> frame_view \<Rightarrow> frame_view res" where
  "onFrameReady seq x y dw dh v =
     (let firstFrame = (fv_lastSeq v = 0);
          v1 = v\<lparr>fv_lastSeq := seq, fv_pending_paint := True\<rparr> in
      if firstFrame \<or> dw \<le> 0 \<or> dh \<le> 0 then Inr (request_update Update_all v1)
      else
        bindE (mapSourceRect v1 x y dw dh) (\<lambda>r0. bindE (inflate r0) (\<lambda>r.
        Inr (request_update (if rect_empty r then Update_all else Update_rect r) v1))))"

definition setRotation :: "int \<Rightarrow> frame_view \<Rightarrow> frame_view" where
  "setRotation deg v =
     (let n = Prelude.cmod (Prelude.cmod deg 360 + 360) 360 in
      if n = fv_rotation v then v
      else request_update Update_all (v\<lparr>fv_rotation := n, fv_layoutValid := False\<rparr>))"

definition geometryChange :: "rat \<times> rat \<Rightarrow> frame_view \<Rightarrow> frame_view" where
  "geometryChange sz v = v\<lparr>fv_size := sz, fv_layoutValid := False\<rparr>"

section \<open>Painting\<close>

datatype placeholder = No_server | Waiting_for_client | Waiting_for_frames

datatype paint_op =
    Fill_white
  | Draw_text placeholder
  | Draw_image "rat \<times> rat \<times> rat \<times> rat" frame_image
  | Draw_rotated "rat \<times> rat" int "rat \<times> rat \<times> rat \<times> rat" frame_image

definition fuzzy_eq :: "rat \<Rightarrow> rat \<Rightarrow> bool" where
  "fuzzy_eq p q \<longleftrightarrow> \<bar>p - q\<bar> * 1000000000000 \<le> min \<bar>p\<bar> \<bar>q\<bar>"

definition lat_log_every :: nat where "lat_log_every = 30"

definition close_timers :: "frame_view \<Rightarrow> frame_view" where
  "close_timers v =
     (if fv_pending_paint v then
        let n = fv_lat_count v + 1 in
        v\<lparr>fv_pending_paint := False, fv_lat_count := (if n \<ge> lat_log_every then 0 else n)\<rparr>
      else v)"

definition image_covers_bounds :: "frame_view \<Rightarrow> bool" where
  "image_covers_bounds v \<longleftrightarrow> fv_rotation v = 0 \<and> fv_offset v = (0, 0) \<and>
     fuzzy_eq (fst (fv_drawn v)) (fst (fv_size v)) \<and> fuzzy_eq (snd (fv_drawn v)) (snd (fv_size v))"

definition draw_op :: "frame_view \<Rightarrow> frame_image \<Rightarrow> paint_op" where
  "draw_op v im =
     (let (dw, dh) = fv_drawn v; (W, H) = fv_size v in
      if fv_rotation v = 0 then Draw_image (fst (fv_offset v), snd (fv_offset v), dw, dh) im
      else Draw_rotated (W / 2, H / 2) (fv_rotation v) (- dw / 2, - dh / 2, dw, dh) im)"

definition fv_paint :: "(nat \<rightharpoonup> server) \<Rightarrow> frame_view \<Rightarrow> frame_view \<times> paint_op list" where
  "fv_paint objs v0 =
     (let v = (if fv_layoutValid v0 then v0 else recalcLayout v0);
          fill = (if image_covers_bounds v then [] else [Fill_white]);
          sv = attached objs v;
          noClient = (case sv of None \<Rightarrow> True | Some s \<Rightarrow> m_socket s = None);
          noFrameYet = (fv_lastSeq v = 0) in
      if noClient \<or> noFrameYet then
        (v, fill @ [Draw_text (if sv = None then No_server
                               else if noClient then Waiting_for_client else Waiting_for_frames)])
      else
        case fv_img v of
          None \<Rightarrow> (v, fill)
        | Some im \<Rightarrow> (close_timers v, fill @ [draw_op v im]))"

text \<open>
  Where an operation puts the point \<open>(a, b)\<close> of the image. The painter's rotation is clockwise
  on a screen whose rows go down.
\<close>

fun quarter_turn :: "int \<Rightarrow> rat \<times> rat \<Rightarrow> rat \<times> rat" where
  "quarter_turn deg (x, y) =
     (if deg = 90 then (- y, x) else if deg = 180 then (- x, - y) else if deg = 270 then (y, - x) else (x, y))"

fun op_place :: "paint_op \<Rightarrow> rat \<times> rat \<Rightarrow> (rat \<times> rat) option" where
  "op_place (Draw_image (tx, ty, tw, th) im) (a, b) =
     Some (tx + a * tw / of_int (fi_w im), ty + b * th / of_int (fi_h im))"
| "op_place (Draw_rotated (cx, cy) deg (tx, ty, tw, th) im) (a, b) =
     (case quarter_turn deg (tx + a * tw / of_int (fi_w im), ty + b * th / of_int (fi_h im)) of
        (x, y) \<Rightarrow> Some (cx + x, cy + y))"
| "op_place _ _ = None"

section \<open>The layout\<close>

lemma scaled_keep_fits:
  assumes "0 < w" "0 < h" "0 < W" "0 < H"
  obtains k where "0 < k" "scaled_keep (w, h) (W, H) = (k * w, k * h)" "k * w \<le> W" "k * h \<le> H"
proof (cases "H * w / h \<le> W")
  case True
  show thesis
    by (rule that [of "H / h"]) (use assms True in \<open>simp_all add: scaled_keep_def Let_def field_simps\<close>)
next
  case False
  then have "W * h / w \<le> H" using assms by (simp add: field_simps)
  then show thesis
    by (intro that [of "W / w"]) (use assms False in \<open>simp_all add: scaled_keep_def Let_def field_simps\<close>)
qed

text \<open>
  A valid layout of a non-empty image in a non-empty item: one positive scale for both axes, the
  picture centred and inside the item.
\<close>

definition layout_ok :: "frame_view \<Rightarrow> bool" where
  "layout_ok v \<longleftrightarrow>
     (case fv_img v of
        None \<Rightarrow> True
      | Some im \<Rightarrow>
          let (W, H) = fv_size v; k = fv_scale v; w = of_int (fi_w im); h = of_int (fi_h im);
              (fw, fh) = (if sideways v then (k * h, k * w) else (k * w, k * h)) in
          0 < k \<and> fv_drawn v = (k * w, k * h) \<and> fw \<le> W \<and> fh \<le> H \<and>
          fv_offset v = ((W - fw) / 2, (H - fh) / 2))"

definition view_ok :: "frame_view \<Rightarrow> bool" where
  "view_ok v \<longleftrightarrow> 0 < fst (fv_size v) \<and> 0 < snd (fv_size v) \<and>
     (\<forall>im. fv_img v = Some im \<longrightarrow> 0 < fi_w im \<and> 0 < fi_h im)"

lemma recalcLayout_ok:
  assumes "view_ok v"
  shows "layout_ok (recalcLayout v)"
proof (cases "fv_img v")
  case None
  then show ?thesis by (simp add: layout_ok_def recalcLayout_def)
next
  case (Some im)
  obtain W H where sz: "fv_size v = (W, H)" by (cases "fv_size v")
  let ?w = "of_int (fi_w im) :: rat" and ?h = "of_int (fi_h im) :: rat"
  have pos: "0 < W" "0 < H" "0 < ?w" "0 < ?h" using assms Some sz by (auto simp: view_ok_def)
  show ?thesis
  proof (cases "sideways v")
    case True
    obtain k where k: "0 < k" "scaled_keep (?h, ?w) (W, H) = (k * ?h, k * ?w)" "k * ?h \<le> W" "k * ?w \<le> H"
      using scaled_keep_fits [OF pos(4,3,1,2)] .
    with True Some sz pos show ?thesis
      by (simp add: layout_ok_def recalcLayout_def sideways_def Let_def)
  next
    case False
    obtain k where k: "0 < k" "scaled_keep (?w, ?h) (W, H) = (k * ?w, k * ?h)" "k * ?w \<le> W" "k * ?h \<le> H"
      using scaled_keep_fits [OF pos(3,4,1,2)] .
    with False Some sz pos show ?thesis
      by (simp add: layout_ok_def recalcLayout_def sideways_def Let_def)
  qed
qed

section \<open>What is invalidated covers what is drawn\<close>

definition covers :: "qrect \<Rightarrow> rat \<times> rat \<Rightarrow> bool" where
  "covers r = (\<lambda>(x, y). of_int (q_x1 r) \<le> x \<and> x \<le> of_int (q_x2 r + 1) \<and>
     of_int (q_y1 r) \<le> y \<and> y \<le> of_int (q_y2 r + 1))"

lemma to_int_small: "0 \<le> n \<Longrightarrow> n \<le> 2 ^ 30 + 1 \<Longrightarrow> to_int (of_int n) = Inr n"
  by (simp add: to_int_def trunc_rat_def INT_MIN_def INT_MAX_def)

text \<open>Screens are smaller than \<open>2^30\<close> pixels.\<close>

lemma toAlignedRect_ok:
  assumes "0 \<le> x" "0 \<le> w" "x + w \<le> 2 ^ 30" "0 \<le> y" "0 \<le> h" "y + h \<le> 2 ^ 30"
  obtains r where "toAlignedRect x y w h = Inr r"
    "\<And>px py. x \<le> px \<Longrightarrow> px \<le> x + w \<Longrightarrow> y \<le> py \<Longrightarrow> py \<le> y + h \<Longrightarrow> covers r (px, py)"
    "0 \<le> q_x1 r" "q_x2 r \<le> 2 ^ 30" "0 \<le> q_y1 r" "q_y2 r \<le> 2 ^ 30"
    "0 < w \<Longrightarrow> 0 < h \<Longrightarrow> q_x1 r \<le> q_x2 r \<and> q_y1 r \<le> q_y2 r"
proof -
  let ?r = "\<lparr>q_x1 = \<lfloor>x\<rfloor>, q_y1 = \<lfloor>y\<rfloor>, q_x2 = \<lceil>x + w\<rceil> - 1, q_y2 = \<lceil>y + h\<rceil> - 1\<rparr>"
  have b: "0 \<le> \<lfloor>x\<rfloor>" "\<lfloor>x\<rfloor> \<le> 2 ^ 30" "0 \<le> \<lceil>x + w\<rceil>" "\<lceil>x + w\<rceil> \<le> 2 ^ 30"
    "0 \<le> \<lfloor>y\<rfloor>" "\<lfloor>y\<rfloor> \<le> 2 ^ 30" "0 \<le> \<lceil>y + h\<rceil>" "\<lceil>y + h\<rceil> \<le> 2 ^ 30"
    using assms by (simp_all add: ceiling_le_iff floor_le_iff le_floor_iff zero_le_ceiling)
  have cov: "covers ?r (px, py)" if "x \<le> px" "px \<le> x + w" "y \<le> py" "py \<le> y + h" for px py
    using that of_int_floor_le [of x] of_int_floor_le [of y] le_of_int_ceiling [of "x + w"] le_of_int_ceiling [of "y + h"]
    by (simp add: covers_def) linarith
  have ne: "q_x1 ?r \<le> q_x2 ?r \<and> q_y1 ?r \<le> q_y2 ?r" if "0 < w" "0 < h"
  proof -
    have "of_int \<lfloor>x\<rfloor> < x + w" "of_int \<lfloor>y\<rfloor> < y + h" using that of_int_floor_le [of x] of_int_floor_le [of y] by linarith+
    then have "\<lfloor>x\<rfloor> < \<lceil>x + w\<rceil>" "\<lfloor>y\<rfloor> < \<lceil>y + h\<rceil>" by (simp_all add: less_ceiling_iff)
    then show ?thesis by simp
  qed
  have "toAlignedRect x y w h = Inr ?r" using b by (simp add: toAlignedRect_def to_int_small)
  then show thesis by (rule that) (use b cov ne in auto)
qed

definition upright :: "frame_view \<Rightarrow> bool" where
  "upright v \<longleftrightarrow> fv_rotation v \<in> {0, 90, 180, 270}"

text \<open>The point \<open>(a, b)\<close> of the image on the item, in terms of the scale.\<close>

lemma place_eq:
  assumes "layout_ok v" "fv_img v = Some im" "0 < fi_w im" "0 < fi_h im" "upright v" "fv_size v = (W, H)"
  shows "op_place (draw_op v im) (a, b) = Some
    (let k = fv_scale v; w = of_int (fi_w im); h = of_int (fi_h im) in
     if fv_rotation v = 0 then ((W - k * w) / 2 + a * k, (H - k * h) / 2 + b * k)
     else if fv_rotation v = 90 then ((W + k * h) / 2 - b * k, (H - k * w) / 2 + a * k)
     else if fv_rotation v = 180 then ((W + k * w) / 2 - a * k, (H + k * h) / 2 - b * k)
     else ((W - k * h) / 2 + b * k, (H + k * w) / 2 - a * k))"
  using assms by (auto simp: layout_ok_def draw_op_def upright_def sideways_def Let_def field_simps)

text \<open>
  Every point of the source rectangle is drawn inside the mapped one, which is not empty and lies
  on a screen of less than \<open>2^30\<close> pixels.
\<close>

definition invalidates :: "frame_view \<Rightarrow> frame_image \<Rightarrow> int \<Rightarrow> int \<Rightarrow> int \<Rightarrow> int \<Rightarrow> qrect \<Rightarrow> bool" where
  "invalidates v im sx sy sw sh r \<longleftrightarrow>
     (\<forall>a b. of_int sx \<le> a \<and> a \<le> of_int (sx + sw) \<and> of_int sy \<le> b \<and> b \<le> of_int (sy + sh) \<longrightarrow>
        (\<exists>q. op_place (draw_op v im) (a, b) = Some q \<and> covers r q))"

definition maps_onto :: "frame_view \<Rightarrow> frame_image \<Rightarrow> int \<Rightarrow> int \<Rightarrow> int \<Rightarrow> int \<Rightarrow> qrect \<Rightarrow> bool" where
  "maps_onto v im sx sy sw sh r \<longleftrightarrow>
     0 \<le> q_x1 r \<and> q_x1 r \<le> q_x2 r \<and> q_x2 r \<le> 2 ^ 30 \<and> 0 \<le> q_y1 r \<and> q_y1 r \<le> q_y2 r \<and> q_y2 r \<le> 2 ^ 30 \<and> invalidates v im sx sy sw sh r"

lemma scaled_side:
  fixes k :: rat
  assumes "0 < k" "0 \<le> s" "0 < n" "s + n \<le> m"
  shows "0 \<le> of_int s * k" and "0 < of_int n * k" and "of_int s * k + of_int n * k \<le> k * of_int m"
proof -
  have "of_int (s + n) * k \<le> of_int m * k" using assms by (intro mult_right_mono) (simp_all del: of_int_add)
  then show "of_int s * k + of_int n * k \<le> k * of_int m" by (simp add: algebra_simps)
qed (use assms in \<open>simp_all add: algebra_simps\<close>)

text \<open>A rectangle of the item onto which \<open>paint\<close> places the scaled source rectangle.\<close>

definition placed_in :: "frame_view \<Rightarrow> frame_image \<Rightarrow> rat \<times> rat \<Rightarrow> rat \<times> rat \<Rightarrow> rat \<times> rat \<Rightarrow> rat \<times> rat \<Rightarrow> bool" where
  "placed_in v im X Y U T \<longleftrightarrow>
     0 \<le> fst U \<and> 0 < snd U \<and> fst U + snd U \<le> 2 ^ 30 \<and> 0 \<le> fst T \<and> 0 < snd T \<and> fst T + snd T \<le> 2 ^ 30 \<and>
     (\<forall>a b. fst X \<le> a * fv_scale v \<longrightarrow> a * fv_scale v \<le> fst X + snd X \<longrightarrow>
       fst Y \<le> b * fv_scale v \<longrightarrow> b * fv_scale v \<le> fst Y + snd Y \<longrightarrow>
       (case op_place (draw_op v im) (a, b) of None \<Rightarrow> False
        | Some (px, py) \<Rightarrow> fst U \<le> px \<and> px \<le> fst U + snd U \<and> fst T \<le> py \<and> py \<le> fst T + snd T))"

lemma placed_maps_onto:
  assumes k: "0 < fv_scale v" and m: "mapSourceRect v sx sy sw sh = toAlignedRect u t p q"
    and pl: "placed_in v im (of_int sx * fv_scale v, of_int sw * fv_scale v) (of_int sy * fv_scale v, of_int sh * fv_scale v) (u, p) (t, q)"
  shows "\<exists>r. mapSourceRect v sx sy sw sh = Inr r \<and> maps_onto v im sx sy sw sh r"
proof -
  obtain r where r: "toAlignedRect u t p q = Inr r"
    "\<And>px py. u \<le> px \<Longrightarrow> px \<le> u + p \<Longrightarrow> t \<le> py \<Longrightarrow> py \<le> t + q \<Longrightarrow> covers r (px, py)"
    "0 \<le> q_x1 r" "q_x2 r \<le> 2 ^ 30" "0 \<le> q_y1 r" "q_y2 r \<le> 2 ^ 30" "q_x1 r \<le> q_x2 r \<and> q_y1 r \<le> q_y2 r"
    by (rule toAlignedRect_ok [of u p t q]) (use pl in \<open>auto simp: placed_in_def\<close>)
  have side: "of_int s * fv_scale v \<le> a * fv_scale v" "a * fv_scale v \<le> of_int s * fv_scale v + of_int n * fv_scale v"
    if "of_int s \<le> a" "a \<le> of_int (s + n)" for s n a
    using mult_right_mono [OF that(1), of "fv_scale v"] mult_right_mono [OF that(2), of "fv_scale v"] k by (simp_all add: algebra_simps)
  have "\<exists>q. op_place (draw_op v im) (a, b) = Some q \<and> covers r q"
    if "of_int sx \<le> a" "a \<le> of_int (sx + sw)" "of_int sy \<le> b" "b \<le> of_int (sy + sh)" for a b
  proof -
    have "case op_place (draw_op v im) (a, b) of None \<Rightarrow> False
      | Some (px, py) \<Rightarrow> u \<le> px \<and> px \<le> u + p \<and> t \<le> py \<and> py \<le> t + q"
      using pl side [OF that(1,2)] side [OF that(3,4)] unfolding placed_in_def fst_conv snd_conv by blast
    then show ?thesis using r(2) by (auto split: option.splits)
  qed
  then have "maps_onto v im sx sy sw sh r" using r(3-) unfolding maps_onto_def invalidates_def by blast
  then show ?thesis using r(1) m by (intro exI [of _ r]) simp
qed

text \<open>The rectangle before it is aligned, for each of the four rotations.\<close>

lemma mapSourceRect_turned:
  fixes sx sy sw sh :: int
  assumes "fv_img v = Some im" "0 < fv_scale v" "fv_size v = (W, H)" "fv_drawn v = (dw, dh)" "fv_offset v = (ox, oy)"
    and sums: "0 \<le> sx + sw" "sx + sw \<le> INT_MAX" "0 \<le> sy + sh" "sy + sh \<le> INT_MAX"
    and X: "X = of_int sx * fv_scale v" "DX = of_int sw * fv_scale v" and Y: "Y = of_int sy * fv_scale v" "DY = of_int sh * fv_scale v"
  shows "fv_rotation v = 0 \<Longrightarrow> mapSourceRect v sx sy sw sh = toAlignedRect (ox + X) (oy + Y) DX DY"
    and "fv_rotation v = 90 \<Longrightarrow> mapSourceRect v sx sy sw sh = toAlignedRect ((W - dh) / 2 + dh - (Y + DY)) ((H - dw) / 2 + X) DY DX"
    and "fv_rotation v = 180 \<Longrightarrow> mapSourceRect v sx sy sw sh =
      toAlignedRect ((W - dw) / 2 + dw - (X + DX)) ((H - dh) / 2 + dh - (Y + DY)) DX DY"
    and "fv_rotation v = 270 \<Longrightarrow> mapSourceRect v sx sy sw sh = toAlignedRect ((W - dh) / 2 + Y) ((H - dw) / 2 + dw - (X + DX)) DY DX"
proof -
  have ck: "ckint (sx + sw) = Inr (sx + sw)" "ckint (sy + sh) = Inr (sy + sh)" using sums by (simp_all add: INT_MIN_def)
  have e: "of_int (sx + sw) * fv_scale v = X + DX" "of_int (sy + sh) * fv_scale v = Y + DY"
    by (simp_all add: X Y algebra_simps)
  show "fv_rotation v = 0 \<Longrightarrow> mapSourceRect v sx sy sw sh = toAlignedRect (ox + X) (oy + Y) DX DY"
    and "fv_rotation v = 90 \<Longrightarrow> mapSourceRect v sx sy sw sh = toAlignedRect ((W - dh) / 2 + dh - (Y + DY)) ((H - dw) / 2 + X) DY DX"
    and "fv_rotation v = 180 \<Longrightarrow> mapSourceRect v sx sy sw sh =
      toAlignedRect ((W - dw) / 2 + dw - (X + DX)) ((H - dh) / 2 + dh - (Y + DY)) DX DY"
    and "fv_rotation v = 270 \<Longrightarrow> mapSourceRect v sx sy sw sh = toAlignedRect ((W - dh) / 2 + Y) ((H - dw) / 2 + dw - (X + DX)) DY DX"
    using assms(1-5) by (simp_all add: mapSourceRect_def sideways_def Let_def ck e X [symmetric] Y [symmetric] del: of_int_add)
qed

lemma map_covers:
  assumes lay: "layout_ok v" and im: "fv_img v = Some im" "0 < fi_w im" "0 < fi_h im"
    and rot: "upright v" and sz: "fv_size v = (W, H)" "W \<le> 2 ^ 30" "H \<le> 2 ^ 30"
    and x: "0 \<le> sx" "0 < sw" "sx + sw \<le> fi_w im" and y: "0 \<le> sy" "0 < sh" "sy + sh \<le> fi_h im"
    and big: "fi_w im \<le> INT_MAX" "fi_h im \<le> INT_MAX"
  shows "\<exists>r. mapSourceRect v sx sy sw sh = Inr r \<and> maps_onto v im sx sy sw sh r"
proof -
  define k w h where "k = fv_scale v" and "w = (of_int (fi_w im) :: rat)" and "h = (of_int (fi_h im) :: rat)"
  have k: "0 < k" and d: "fv_drawn v = (k * w, k * h)" using lay im(1) by (auto simp: layout_ok_def Let_def k_def w_def h_def split: if_splits)
  have off: "sideways v \<Longrightarrow> k * h \<le> W \<and> k * w \<le> H" "\<not> sideways v \<Longrightarrow> k * w \<le> W \<and> k * h \<le> H"
    and offset: "fv_rotation v = 0 \<Longrightarrow> fv_offset v = ((W - k * w) / 2, (H - k * h) / 2)"
    using lay im(1) sz(1) by (auto simp: layout_ok_def Let_def sideways_def k_def w_def h_def)
  define X DX Y DY where "X = of_int sx * k" and "DX = of_int sw * k" and "Y = of_int sy * k" and "DY = of_int sh * k"
  note inside = scaled_side [OF k x, folded X_def DX_def w_def] scaled_side [OF k y, folded Y_def DY_def h_def]
  note place = place_eq [OF lay im rot sz(1), folded k_def w_def h_def]
  have covered: ?thesis
    if "mapSourceRect v sx sy sw sh = toAlignedRect u t p q" "placed_in v im (X, DX) (Y, DY) (u, p) (t, q)" for u t p q
    using placed_maps_onto [of v sx sy sw sh u t p q im] that k by (simp add: X_def DX_def Y_def DY_def k_def)
  note drawn = placed_in_def place k_def [symmetric] Let_def
  obtain ox oy where o: "fv_offset v = (ox, oy)" by (cases "fv_offset v")
  have turned: "fv_img v = Some im" "0 < fv_scale v" using im(1) k by (simp_all add: k_def)
  have sums: "0 \<le> sx + sw" "sx + sw \<le> INT_MAX" "0 \<le> sy + sh" "sy + sh \<le> INT_MAX" using x y big by simp_all
  note at = mapSourceRect_turned [OF turned sz(1) d o sums, folded k_def, OF X_def DX_def Y_def DY_def]
  consider (r0) "fv_rotation v = 0" | (r90) "fv_rotation v = 90" | (r180) "fv_rotation v = 180" | (r270) "fv_rotation v = 270"
    using rot by (auto simp: upright_def)
  then show ?thesis
  proof cases
    case r0
    then have "k * w \<le> W" "k * h \<le> H" using off(2) by (simp_all add: sideways_def)
    then show ?thesis using r0 sz inside o offset
      by (intro covered [of "(W - k * w) / 2 + X" "(H - k * h) / 2 + Y" DX DY])
         (simp add: at, simp add: drawn field_simps)
  next
    case r90
    then have "k * h \<le> W" "k * w \<le> H" using off(1) by (simp_all add: sideways_def)
    then show ?thesis using r90 sz inside
      by (intro covered [of "(W - k * h) / 2 + k * h - (Y + DY)" "(H - k * w) / 2 + X" DY DX])
         (simp add: at, simp add: drawn field_simps)
  next
    case r180
    then have "k * w \<le> W" "k * h \<le> H" using off(2) by (simp_all add: sideways_def)
    then show ?thesis using r180 sz inside
      by (intro covered [of "(W - k * w) / 2 + k * w - (X + DX)" "(H - k * h) / 2 + k * h - (Y + DY)" DX DY])
         (simp add: at, simp add: drawn field_simps)
  next
    case r270
    then have "k * h \<le> W" "k * w \<le> H" using off(1) by (simp_all add: sideways_def)
    then show ?thesis using r270 sz inside
      by (intro covered [of "(W - k * h) / 2 + Y" "(H - k * w) / 2 + k * w - (X + DX)" DY DX])
         (simp add: at, simp add: drawn field_simps)
  qed
qed

text \<open>
  A frame with a rectangle inside the image invalidates, with one pixel of margin, all that \<open>paint\<close>
  draws of the rectangle. The first frame, and one without a rectangle, invalidates everything.
\<close>

lemma invalidates_inflate:
  assumes "invalidates v im sx sy sw sh r" "inflate r = Inr r'"
  shows "invalidates v im sx sy sw sh r'"
proof -
  have "covers r' q" if "covers r q" for q
    using that assms(2) by (cases q) (auto simp: covers_def inflate_def res_simps)
  then show ?thesis using assms(1) unfolding invalidates_def by blast
qed

lemma frame_ready_covers:
  assumes lay: "layout_ok v" and im: "fv_img v = Some im" "0 < fi_w im" "0 < fi_h im"
    and rot: "upright v" and sz: "fv_size v = (W, H)" "W \<le> 2 ^ 30" "H \<le> 2 ^ 30"
    and x: "0 \<le> sx" "0 < sw" "sx + sw \<le> fi_w im" and y: "0 \<le> sy" "0 < sh" "sy + sh \<le> fi_h im"
    and big: "fi_w im \<le> INT_MAX" "fi_h im \<le> INT_MAX" and seq: "fv_lastSeq v \<noteq> 0"
  shows "\<exists>r. onFrameReady seq sx sy sw sh v =
      Inr (request_update (Update_rect r) (v\<lparr>fv_lastSeq := seq, fv_pending_paint := True\<rparr>)) \<and>
    invalidates v im sx sy sw sh r"
proof -
  let ?v = "v\<lparr>fv_lastSeq := seq, fv_pending_paint := True\<rparr>"
  have m: "mapSourceRect ?v sx sy sw sh = mapSourceRect v sx sy sw sh"
    by (simp add: mapSourceRect_def sideways_def sz(1) Let_def cong: if_cong)
  obtain r where r: "mapSourceRect v sx sy sw sh = Inr r" "maps_onto v im sx sy sw sh r"
    using map_covers [OF lay im rot sz x y big] by blast
  let ?r = "\<lparr>q_x1 = q_x1 r - 1, q_y1 = q_y1 r - 1, q_x2 = q_x2 r + 1, q_y2 = q_y2 r + 1\<rparr>"
  have i: "inflate r = Inr ?r" and ne: "\<not> rect_empty ?r"
    using r(2) by (simp_all add: maps_onto_def inflate_def INT_MIN_def INT_MAX_def rect_empty_def)
  have "invalidates v im sx sy sw sh ?r"
    using invalidates_inflate [OF _ i] r(2) by (simp add: maps_onto_def)
  moreover have "onFrameReady seq sx sy sw sh v = Inr (request_update (Update_rect ?r) ?v)"
    using seq x(2) y(2) m r(1) i ne by (simp add: onFrameReady_def Let_def)
  ultimately show ?thesis by blast
qed

text \<open>
  The test for an empty rectangle comes after the rectangle has grown: the empty rectangle that
  \<open>mapSourceRect\<close> returns when there is no image is no longer empty there, so it never leads to an
  update of everything.
\<close>

lemma null_rect_inflated: "inflate null_rect = Inr r \<Longrightarrow> rect_empty null_rect \<and> \<not> rect_empty r"
  by (auto simp: inflate_def null_rect_def rect_empty_def res_simps)

text \<open>The server hands on whatever rectangle a client names, and on a turned view the sum overflows.\<close>

lemma unchecked_rectangle_overflows:
  assumes "fv_img v = Some im" "0 < fv_scale v" "fv_rotation v = 90" "fv_lastSeq v \<noteq> 0" "0 < sw" "0 < sh" "INT_MAX < sy + sh"
  shows "onFrameReady seq sx sy sw sh v = Inl (Undefined Signed_overflow)"
  using assms by (simp add: onFrameReady_def mapSourceRect_def ckint_def Let_def split: prod.splits)

lemma setRotation_range: "0 \<le> fv_rotation v \<Longrightarrow> fv_rotation v < 360 \<Longrightarrow>
  0 \<le> fv_rotation (setRotation deg v) \<and> fv_rotation (setRotation deg v) < 360"
proof -
  assume a: "0 \<le> fv_rotation v" "fv_rotation v < 360"
  have "- 360 < Prelude.cmod deg 360"
  proof (cases "deg < 0")
    case True
    have "(- deg) - 360 * ((- deg) div 360) < 360" by (simp add: minus_mult_div_eq_mod)
    then show ?thesis using True by (simp add: Prelude.cmod_def cdiv_neg)
  qed (simp add: cmod_nonneg)
  then have "0 \<le> Prelude.cmod (Prelude.cmod deg 360 + 360) 360 \<and> Prelude.cmod (Prelude.cmod deg 360 + 360) 360 < 360"
    by (simp add: cmod_nonneg)
  with a show ?thesis by (simp add: setRotation_def Let_def request_update_def)
qed

text \<open>What \<open>paint\<close> shows: the image exactly when a client is connected and has announced a frame.\<close>

lemma paint_shows:
  assumes "fv_paint objs v = (v', ops)"
  shows "(\<exists>op. op \<in> set ops \<and> op_place op (0, 0) \<noteq> None) \<longleftrightarrow>
    (\<exists>s. attached objs v = Some s \<and> m_socket s \<noteq> None) \<and> fv_lastSeq v \<noteq> 0 \<and> fv_img v \<noteq> None"
proof -
  have f: "fv_lastSeq (recalcLayout v) = fv_lastSeq v" "fv_img (recalcLayout v) = fv_img v"
    "attached objs (recalcLayout v) = attached objs v"
    by (auto simp: recalcLayout_def attached_def Let_def split: option.splits prod.splits)
  have d: "op_place (draw_op u im) (0, 0) \<noteq> None" for u im
    by (auto simp: draw_op_def Let_def split: prod.splits)
  show ?thesis using assms f d
    by (auto simp: fv_paint_def Let_def split: if_splits option.splits)
qed

end
