(* ===== verification/Settings.thy ===== *)
theory Settings
  imports Detect Complex_Main
begin

text \<open>
  The preferences of the middleware (\<open>src/middleware/extension/src/settings.h\<close>, \<open>settings.cpp\<close>):
  their defaults, the file that stores them, the setters and the map of variants that is handed to
  the launcher. A JSON document is a tree (\<open>json\<close>); how Qt reads and writes its text is a
  parameter (\<open>parse\<close>, \<open>print\<close>), of which \<open>json_text\<close> says what the code relies on: printing an
  object and parsing the text gives the object back. Files are a partial map from paths to texts.
\<close>

section \<open>JSON values and variants\<close>

datatype json =
    JNull
  | JBool bool
  | JNumber rat
  | JString string
  | JArray "json list"
  | JObject "(string \<times> json) list"

text \<open>\<open>QJsonValue\<close>'s conversions, with the value to use when the type is another.\<close>

fun json_toString :: "string \<Rightarrow> json \<Rightarrow> string" where
  "json_toString d (JString s) = s"
| "json_toString d _ = d"

fun json_toInt :: "int \<Rightarrow> json \<Rightarrow> int" where
  "json_toInt d (JNumber q) =
     (if q = of_int \<lfloor>q\<rfloor> \<and> INT_MIN \<le> \<lfloor>q\<rfloor> \<and> \<lfloor>q\<rfloor> \<le> INT_MAX then \<lfloor>q\<rfloor> else d)"
| "json_toInt d _ = d"

fun json_toBool :: "bool \<Rightarrow> json \<Rightarrow> bool" where
  "json_toBool d (JBool b) = b"
| "json_toBool d _ = d"

datatype variant = VStr string | VInt int | VBool bool

text \<open>\<open>QVariant\<close>'s conversions between the three types that occur.\<close>

fun variant_toString :: "variant \<Rightarrow> string" where
  "variant_toString (VStr s) = s"
| "variant_toString (VInt n) = show_int n"
| "variant_toString (VBool b) = (if b then ''true'' else ''false'')"

fun variant_toInt :: "variant \<Rightarrow> int" where
  "variant_toInt (VStr s) =
     (case scan_int (trimmed s) of
        Some (v, []) \<Rightarrow> if INT_MIN \<le> v \<and> v \<le> INT_MAX then v else 0
      | _ \<Rightarrow> 0)"
| "variant_toInt (VInt n) = n"
| "variant_toInt (VBool b) = (if b then 1 else 0)"

fun variant_toBool :: "variant \<Rightarrow> bool" where
  "variant_toBool (VStr s) = (map to_lower s \<notin> {[], ''0'', ''false''})"
| "variant_toBool (VInt n) = (n \<noteq> 0)"
| "variant_toBool (VBool b) = b"

type_synonym variant_map = "string \<rightharpoonup> variant"

definition variant_value :: "variant_map \<Rightarrow> string \<Rightarrow> variant \<Rightarrow> variant" where
  "variant_value cfg k d = (case cfg k of Some v \<Rightarrow> v | None \<Rightarrow> d)"

section \<open>The preferences\<close>

record settings =
  st_host :: string
  st_port :: int
  st_fps :: int
  st_waveform :: string
  st_orientation :: string
  st_encoding :: string
  st_grayscale :: bool
  st_mono1 :: bool
  st_lowLatency :: bool
  st_compressLevel :: int
  st_changed :: nat      \<comment> \<open>how often \<open>changed\<close> was emitted\<close>

definition settings_defaults :: settings where
  "settings_defaults =
     \<lparr>st_host = ''10.11.99.2'', st_port = 5900, st_fps = 30, st_waveform = ''A2'',
      st_orientation = ''auto'', st_encoding = ''COPYRECT'', st_grayscale = True, st_mono1 = False,
      st_lowLatency = False, st_compressLevel = 0, st_changed = 0\<rparr>"

definition configPath :: "environment \<Rightarrow> string" where
  "configPath env =
     (let dir = (case env ''HOME'' of
            None \<Rightarrow> ''/home/root/.config''
          | Some [] \<Rightarrow> ''/home/root/.config''
          | Some h \<Rightarrow> h @ ''/.config'') in
      dir @ ''/vncast.json'')"

text \<open>A key that is absent, or of another type, leaves the value as it is.\<close>

definition obj_get :: "('a \<Rightarrow> json \<Rightarrow> 'a) \<Rightarrow> (string \<times> json) list \<Rightarrow> string \<Rightarrow> 'a \<Rightarrow> 'a" where
  "obj_get conv obj k d = (case map_of obj k of None \<Rightarrow> d | Some v \<Rightarrow> conv d v)"

definition load_from :: "(string \<times> json) list \<Rightarrow> settings \<Rightarrow> settings" where
  "load_from obj s =
     s\<lparr>st_host := obj_get json_toString obj ''host'' (st_host s),
       st_port := obj_get json_toInt obj ''port'' (st_port s),
       st_fps := obj_get json_toInt obj ''fps'' (st_fps s),
       st_waveform := obj_get json_toString obj ''waveform'' (st_waveform s),
       st_orientation := obj_get json_toString obj ''orientation'' (st_orientation s),
       st_encoding := obj_get json_toString obj ''encoding'' (st_encoding s),
       st_grayscale := obj_get json_toBool obj ''grayscale'' (st_grayscale s),
       st_mono1 := obj_get json_toBool obj ''mono1'' (st_mono1 s),
       st_lowLatency := obj_get json_toBool obj ''lowLatency'' (st_lowLatency s),
       st_compressLevel := obj_get json_toInt obj ''compressLevel'' (st_compressLevel s)\<rparr>"

definition load :: "('t \<Rightarrow> json option) \<Rightarrow> environment \<Rightarrow> (string \<rightharpoonup> 't) \<Rightarrow> settings \<Rightarrow> settings" where
  "load parse env files s =
     (case files (configPath env) of
        None \<Rightarrow> s
      | Some t \<Rightarrow> (case parse t of Some (JObject obj) \<Rightarrow> load_from obj s | _ \<Rightarrow> s))"

definition settings_new :: "('t \<Rightarrow> json option) \<Rightarrow> environment \<Rightarrow> (string \<rightharpoonup> 't) \<Rightarrow> settings" where
  "settings_new parse env files = load parse env files settings_defaults"

definition to_object :: "settings \<Rightarrow> (string \<times> json) list" where
  "to_object s =
     [(''host'', JString (st_host s)), (''port'', JNumber (of_int (st_port s))),
      (''fps'', JNumber (of_int (st_fps s))), (''waveform'', JString (st_waveform s)),
      (''orientation'', JString (st_orientation s)), (''encoding'', JString (st_encoding s)),
      (''grayscale'', JBool (st_grayscale s)), (''mono1'', JBool (st_mono1 s)),
      (''lowLatency'', JBool (st_lowLatency s)), (''compressLevel'', JNumber (of_int (st_compressLevel s)))]"

text \<open>\<open>writable\<close>: whether the file can be opened for writing.\<close>

definition save :: "(json \<Rightarrow> 't) \<Rightarrow> environment \<Rightarrow> bool \<Rightarrow> settings \<Rightarrow> (string \<rightharpoonup> 't) \<Rightarrow> (string \<rightharpoonup> 't)" where
  "save print env writable s files =
     (if writable then files(configPath env \<mapsto> print (JObject (to_object s))) else files)"

definition asMap :: "settings \<Rightarrow> variant_map" where
  "asMap s = map_of
     [(''host'', VStr (st_host s)), (''port'', VInt (st_port s)), (''fps'', VInt (st_fps s)),
      (''waveform'', VStr (st_waveform s)), (''orientation'', VStr (st_orientation s)),
      (''encoding'', VStr (st_encoding s)), (''grayscale'', VBool (st_grayscale s)),
      (''mono1'', VBool (st_mono1 s)), (''lowLatency'', VBool (st_lowLatency s)),
      (''compressLevel'', VInt (st_compressLevel s))]"

section \<open>The setters\<close>

definition emit_changed :: "settings \<Rightarrow> settings" where
  "emit_changed s = s\<lparr>st_changed := st_changed s + 1\<rparr>"

definition qBound :: "int \<Rightarrow> int \<Rightarrow> int \<Rightarrow> int" where
  "qBound lo v hi = max lo (min hi v)"

datatype setting =
    Host string | Port int | Fps int | Waveform string | Orientation_pref string | Encoding string
  | Grayscale bool | Mono1 bool | LowLatency bool | CompressLevel int

fun set_pref :: "setting \<Rightarrow> settings \<Rightarrow> settings" where
  "set_pref (Host v) s = (if v = st_host s then s else emit_changed (s\<lparr>st_host := v\<rparr>))"
| "set_pref (Port v) s = (if v = st_port s then s else emit_changed (s\<lparr>st_port := v\<rparr>))"
| "set_pref (Fps v) s = (if v = st_fps s then s else emit_changed (s\<lparr>st_fps := v\<rparr>))"
| "set_pref (Waveform v) s = (if v = st_waveform s then s else emit_changed (s\<lparr>st_waveform := v\<rparr>))"
| "set_pref (Orientation_pref v) s =
     (if v = st_orientation s then s else emit_changed (s\<lparr>st_orientation := v\<rparr>))"
| "set_pref (Encoding v) s = (if v = st_encoding s then s else emit_changed (s\<lparr>st_encoding := v\<rparr>))"
| "set_pref (Grayscale v) s = (if v = st_grayscale s then s else emit_changed (s\<lparr>st_grayscale := v\<rparr>))"
| "set_pref (Mono1 v) s = (if v = st_mono1 s then s else emit_changed (s\<lparr>st_mono1 := v\<rparr>))"
| "set_pref (LowLatency v) s = (if v = st_lowLatency s then s else emit_changed (s\<lparr>st_lowLatency := v\<rparr>))"
| "set_pref (CompressLevel v) s =
     (if v = st_compressLevel s then s else emit_changed (s\<lparr>st_compressLevel := qBound 0 v 9\<rparr>))"

section \<open>Properties\<close>

definition ints_fit :: "settings \<Rightarrow> bool" where
  "ints_fit s \<longleftrightarrow> (\<forall>n \<in> {st_port s, st_fps s, st_compressLevel s}. INT_MIN \<le> n \<and> n \<le> INT_MAX)"

text \<open>What the code relies on of the JSON text: an object that was printed is parsed back.\<close>

definition json_text :: "('t \<Rightarrow> json option) \<Rightarrow> (json \<Rightarrow> 't) \<Rightarrow> bool" where
  "json_text parse print \<longleftrightarrow> (\<forall>obj. parse (print (JObject obj)) = Some (JObject obj))"

lemma load_to_object: "ints_fit s \<Longrightarrow> load_from (to_object s) t = s\<lparr>st_changed := st_changed t\<rparr>"
  by (cases s) (simp add: load_from_def obj_get_def to_object_def ints_fit_def)

lemma save_load:
  assumes "json_text parse print" "ints_fit s"
  shows "settings_new parse env (save print env True s files) = s\<lparr>st_changed := 0\<rparr>"
  using assms load_to_object [of s settings_defaults]
  by (simp add: settings_new_def load_def save_def json_text_def settings_defaults_def)

text \<open>A file that does not hold an object leaves the defaults; so does one that cannot be read.\<close>

lemma load_garbage:
  "(\<forall>t obj. files (configPath env) = Some t \<longrightarrow> parse t \<noteq> Some (JObject obj)) \<Longrightarrow>
     settings_new parse env files = settings_defaults"
  by (auto simp: settings_new_def load_def split: option.splits json.splits)

text \<open>
  The setters emit \<open>changed\<close> exactly when the value changes, except that of the compression level,
  which compares before it clamps. From the defaults the level stays in its range; a file is not
  clamped.
\<close>

definition same_prefs :: "settings \<Rightarrow> settings \<Rightarrow> bool" where
  "same_prefs s t \<longleftrightarrow> s\<lparr>st_changed := 0\<rparr> = t\<lparr>st_changed := 0\<rparr>"

lemma set_pref_changed:
  "(\<forall>v. p \<noteq> CompressLevel v \<or> 0 \<le> v \<and> v \<le> 9) \<Longrightarrow>
     st_changed (set_pref p s) = (if same_prefs (set_pref p s) s then st_changed s else st_changed s + 1)"
  by (cases p; cases s) (auto simp: emit_changed_def same_prefs_def qBound_def)

lemma compress_level_spurious:
  assumes "st_compressLevel s = 9" "9 < v"
  shows "same_prefs (set_pref (CompressLevel v) s) s" "st_changed (set_pref (CompressLevel v) s) = st_changed s + 1"
  using assms by (simp_all add: same_prefs_def emit_changed_def qBound_def)

lemma set_pref_level: "0 \<le> st_compressLevel s \<Longrightarrow> st_compressLevel s \<le> 9 \<Longrightarrow>
  0 \<le> st_compressLevel (set_pref p s) \<and> st_compressLevel (set_pref p s) \<le> 9"
  by (cases p) (auto simp: emit_changed_def qBound_def)

interpretation pref_sys: transition_system settings_defaults "\<lambda>_ _. True" "\<lambda>s p. set_pref p s"
    "\<lambda>s. 0 \<le> st_compressLevel s \<and> st_compressLevel s \<le> 9"
  by unfold_locales (simp_all add: settings_defaults_def set_pref_level)

end
