(* ===== verification/EpdcHook.thy ===== *)
theory EpdcHook
  imports Wire
begin

text \<open>
  The run-time hook on the panel driver (\<open>src/middleware/extension/src/epdc_hook.cpp\<close>). It writes
  machine code: sixteen bytes over the start of a function of \<open>libqsgepaper.so\<close> that jump to a
  handler, and a thunk that runs the overwritten bytes and continues behind them. The model keeps
  the code as bytes at 64-bit addresses with the write and execute permissions that \<open>mmap\<close> and
  \<open>mprotect\<close> set; a store to an address that may not be written is an error. What the two
  instructions do is given by a small decoder (\<open>cpu_step\<close>), and the claim about the installed hook
  is about running it. Calls of the original functions are values (\<open>orig_call\<close>); what the
  handlers print is left out. The system calls and \<open>dlsym\<close> are parameters.
\<close>

section \<open>Code in memory\<close>

record code_mem =
  byte_at :: "u64 \<Rightarrow> u8"
  can_write :: "u64 \<Rightarrow> bool"
  can_exec :: "u64 \<Rightarrow> bool"

definition in_range :: "u64 \<Rightarrow> nat \<Rightarrow> u64 \<Rightarrow> bool" where
  "in_range a n x \<longleftrightarrow> unat (x - a) < n"

definition read_mem :: "u64 \<Rightarrow> nat \<Rightarrow> code_mem \<Rightarrow> bytes" where
  "read_mem a n m = map (\<lambda>i. byte_at m (a + of_nat i)) [0..<n]"

definition write_mem :: "u64 \<Rightarrow> bytes \<Rightarrow> code_mem \<Rightarrow> code_mem res" where
  "write_mem a bs m =
     (if list_all (\<lambda>i. can_write m (a + of_nat i)) [0..<length bs]
      then Inr (m\<lparr>byte_at := (\<lambda>x. if in_range a (length bs) x then bs ! unat (x - a) else byte_at m x)\<rparr>)
      else Inl (Undefined Out_of_bounds))"

definition protect :: "u64 \<Rightarrow> nat \<Rightarrow> bool \<Rightarrow> bool \<Rightarrow> code_mem \<Rightarrow> code_mem" where
  "protect a n w x m =
     m\<lparr>can_write := (\<lambda>y. if in_range a n y then w else can_write m y),
       can_exec := (\<lambda>y. if in_range a n y then x else can_exec m y)\<rparr>"

definition map_zero :: "u64 \<Rightarrow> nat \<Rightarrow> code_mem \<Rightarrow> code_mem" where
  "map_zero a n m = (protect a n True True m)\<lparr>byte_at := (\<lambda>x. if in_range a n x then 0 else byte_at m x)\<rparr>"

definition le64 :: "u64 \<Rightarrow> bytes" where
  "le64 w = le32 (ucast w) @ le32 (ucast (drop_bit 32 w))"

section \<open>Installing one hook\<close>

definition kPrologueBytes :: nat where "kPrologueBytes = 16"
definition LDR_X16_8 :: u32 where "LDR_X16_8 = 0x58000050"
definition BR_X16 :: u32 where "BR_X16 = 0xD61F0200"

text \<open>
  The answers of the system: the address of the new mapping or a failure, the page size, and
  whether each of the two changes of protection succeeds.
\<close>

record hook_os =
  hk_mmap :: "u64 option"
  hk_page :: u64
  hk_rwx :: bool
  hk_rx :: bool

text \<open>The jump, through the 64-bit literal that follows it.\<close>

definition jump_to :: "u64 \<Rightarrow> u64 \<Rightarrow> code_mem \<Rightarrow> code_mem res" where
  "jump_to at dest m =
     bindE (write_mem at (le32 LDR_X16_8) m) (\<lambda>m1.
     bindE (write_mem (at + 4) (le32 BR_X16) m1) (\<lambda>m2.
     write_mem (at + 8) (le64 dest) m2))"

definition page_of :: "u64 \<Rightarrow> u64 \<Rightarrow> u64" where
  "page_of page addr = addr AND NOT (page - 1)"

definition prot_size :: "u64 \<Rightarrow> u64 \<Rightarrow> u64" where
  "prot_size page addr =
     (let span = (addr + of_nat kPrologueBytes) - page_of page addr in ((span + page - 1) div page) * page)"

definition install_inline_hook_at :: "hook_os \<Rightarrow> u64 \<Rightarrow> u64 \<Rightarrow> code_mem \<Rightarrow> (u64 \<times> code_mem) res" where
  "install_inline_hook_at os target handler m =
     (if target = 0 then Inr (0, m)
      else case hk_mmap os of
        None \<Rightarrow> Inr (0, m)
      | Some thunk \<Rightarrow>
          let m1 = map_zero thunk (unat (hk_page os)) m in
          bindE (write_mem thunk (read_mem target kPrologueBytes m1) m1) (\<lambda>m2.
          bindE (jump_to (thunk + of_nat kPrologueBytes) (target + of_nat kPrologueBytes) m2) (\<lambda>m3.
          let page = hk_page os; n = unat (prot_size page target) in
          if \<not> hk_rwx os then Inr (0, protect thunk (unat page) False False m3)
          else
            bindE (jump_to target handler (protect (page_of page target) n True True m3)) (\<lambda>m4.
            Inr (thunk, if hk_rx os then protect (page_of page target) n False True m4 else m4)))))"

section \<open>What the written code does\<close>

text \<open>
  Two instructions of the A64 set: a 64-bit literal load and a branch to a register. Everything
  else is left to the processor (\<open>None\<close>).
\<close>

record cpu =
  pc :: u64
  regs :: "u32 \<Rightarrow> u64"

definition fetch32 :: "code_mem \<Rightarrow> u64 \<Rightarrow> u32" where
  "fetch32 m a = unle32 (byte_at m a) (byte_at m (a + 1)) (byte_at m (a + 2)) (byte_at m (a + 3))"

definition fetch64 :: "code_mem \<Rightarrow> u64 \<Rightarrow> u64" where
  "fetch64 m a = ucast (fetch32 m a) OR push_bit 32 (ucast (fetch32 m (a + 4)))"

definition executable :: "code_mem \<Rightarrow> u64 \<Rightarrow> bool" where
  "executable m a \<longleftrightarrow> list_all (\<lambda>i. can_exec m (a + of_nat i)) [0..<4]"

definition literal_offset :: "u32 \<Rightarrow> u64" where
  "literal_offset w = push_bit 2 (scast (ucast (drop_bit 5 w) :: 19 word))"

definition cpu_step :: "code_mem \<Rightarrow> cpu \<Rightarrow> cpu option" where
  "cpu_step m c =
     (let w = fetch32 m (pc c) in
      if \<not> executable m (pc c) then None
      else if w AND 0xFF000000 = 0x58000000 then
        Some (c\<lparr>pc := pc c + 4, regs := (regs c)(w AND 31 := fetch64 m (pc c + literal_offset w))\<rparr>)
      else if w AND 0xFFFFFC1F = 0xD61F0000 then
        Some (c\<lparr>pc := regs c (drop_bit 5 w AND 31)\<rparr>)
      else None)"

lemma ldr_decoded:
  "LDR_X16_8 AND 0xFF000000 = 0x58000000" "LDR_X16_8 AND 31 = 16" "literal_offset LDR_X16_8 = 8"
  by (simp_all add: LDR_X16_8_def literal_offset_def)

lemma br_decoded:
  "BR_X16 AND 0xFF000000 \<noteq> 0x58000000" "BR_X16 AND 0xFFFFFC1F = 0xD61F0000" "drop_bit 5 BR_X16 AND 31 = 16"
  by (simp_all add: BR_X16_def)

lemma in_range_at: "i < n \<Longrightarrow> n \<le> 2 ^ 32 \<Longrightarrow> in_range a n (a + of_nat i)"
  by (simp add: in_range_def unat_of_nat)

lemma write_mem_spec:
  assumes "write_mem a bs m = Inr m'"
  shows "byte_at m' x = (if in_range a (length bs) x then bs ! unat (x - a) else byte_at m x)"
    and "can_write m' = can_write m" and "can_exec m' = can_exec m"
  using assms by (auto simp: write_mem_def split: if_splits)

lemma write_mem_ok:
  "\<forall>i < length bs. can_write m (a + of_nat i) \<Longrightarrow> \<exists>m'. write_mem a bs m = Inr m'"
  by (simp add: write_mem_def list_all_iff)

lemma write_le32:
  assumes "write_mem a (le32 w) m = Inr m'"
  shows "fetch32 m' a = w"
    and "\<not> in_range a 4 x \<Longrightarrow> byte_at m' x = byte_at m x"
    and "can_write m' = can_write m" "can_exec m' = can_exec m"
  using write_mem_spec [OF assms]
  by (simp_all add: fetch32_def codec_simps in_range_def le32_def unle32_le32)

lemma fetch64_le64:
  assumes "write_mem a (le64 w) m = Inr m'"
  shows "fetch64 m' a = w"
    and "\<not> in_range a 8 x \<Longrightarrow> byte_at m' x = byte_at m x"
    and "can_write m' = can_write m" "can_exec m' = can_exec m"
proof -
  have f: "fetch32 m' a = ucast w" "fetch32 m' (a + 4) = ucast (drop_bit 32 w)"
    using write_mem_spec [OF assms]
    by (simp_all add: fetch32_def codec_simps in_range_def le64_def le32_def unle32_le32 add.assoc)
  show "fetch64 m' a = w"
    unfolding fetch64_def f by (rule bit_word_eqI) (auto simp: bit_simps)
  show "\<not> in_range a 8 x \<Longrightarrow> byte_at m' x = byte_at m x" "can_write m' = can_write m" "can_exec m' = can_exec m"
    using write_mem_spec [OF assms] by (simp_all add: le64_def codec_simps)
qed

lemma fetch32_cong:
  "(\<And>x. in_range a 4 x \<Longrightarrow> byte_at m' x = byte_at m x) \<Longrightarrow> fetch32 m' a = fetch32 m a"
  by (simp add: fetch32_def in_range_def)

definition has_jump :: "code_mem \<Rightarrow> u64 \<Rightarrow> u64 \<Rightarrow> bool" where
  "has_jump m at dest \<longleftrightarrow> fetch32 m at = LDR_X16_8 \<and> fetch32 m (at + 4) = BR_X16 \<and> fetch64 m (at + 8) = dest"

lemma sub_range: "in_range (a + of_nat k) n x \<Longrightarrow> k + n \<le> N \<Longrightarrow> N \<le> 2 ^ 32 \<Longrightarrow> in_range a N x"
proof -
  assume a: "in_range (a + of_nat k) n x" "k + n \<le> N" "N \<le> 2 ^ 32"
  define y where "y = x - (a + of_nat k)"
  have y: "unat y < n" using a(1) by (simp add: y_def in_range_def)
  have "x - a = of_nat (k + unat y)" by (simp add: y_def)
  then have "unat (x - a) = k + unat y" using y a(2,3) by (simp add: unat_of_nat del: of_nat_add)
  then show ?thesis using y a(2) by (simp add: in_range_def)
qed

lemma apart: "in_range (a + of_nat k) n x \<Longrightarrow> k + n \<le> j \<Longrightarrow> j + n' \<le> 2 ^ 32 \<Longrightarrow> \<not> in_range (a + of_nat j) n' x"
proof
  assume a: "in_range (a + of_nat k) n x" "in_range (a + of_nat j) n' x" "k + n \<le> j" "j + n' \<le> 2 ^ 32"
  define y z where "y = x - (a + of_nat k)" and "z = x - (a + of_nat j)"
  have y: "unat y < n" and z: "unat z < n'" using a(1,2) by (simp_all add: y_def z_def in_range_def)
  have "x - a = of_nat (k + unat y)" by (simp add: y_def)
  then have u: "unat (x - a) = k + unat y" using y a(3,4) by (simp add: unat_of_nat del: of_nat_add)
  have "x - a = of_nat (j + unat z)" by (simp add: z_def)
  then have "unat (x - a) = j + unat z" using z a(4) by (simp add: unat_of_nat del: of_nat_add)
  with u show False using y a(3) by simp
qed

lemma jump_to_spec:
  assumes "jump_to at dest m = Inr m'"
  shows "has_jump m' at dest"
    and "\<not> in_range at 16 x \<Longrightarrow> byte_at m' x = byte_at m x"
    and "can_write m' = can_write m" "can_exec m' = can_exec m"
proof -
  obtain m1 m2 where w: "write_mem at (le32 LDR_X16_8) m = Inr m1"
    "write_mem (at + 4) (le32 BR_X16) m1 = Inr m2" "write_mem (at + 8) (le64 dest) m2 = Inr m'"
    using assms by (auto simp: jump_to_def res_simps)
  note s1 = write_le32 [OF w(1)] and s2 = write_le32 [OF w(2)] and s3 = fetch64_le64 [OF w(3)]
  note ap = apart [of "at", simplified]
  have "fetch32 m2 at = fetch32 m1 at"
    using ap [of 0 4 _ 4 4] by (intro fetch32_cong s2(2)) simp
  moreover have "fetch32 m' at = fetch32 m2 at"
    using ap [of 0 4 _ 8 8] by (intro fetch32_cong s3(2)) simp
  moreover have "fetch32 m' (at + 4) = fetch32 m2 (at + 4)"
    using ap [of 4 4 _ 8 8] by (intro fetch32_cong s3(2)) simp
  ultimately show "has_jump m' at dest" using s1(1) s2(1) s3(1) by (simp add: has_jump_def)
  note sr = sub_range [of "at", where N = 16 and x = x]
  show "byte_at m' x = byte_at m x" if "\<not> in_range at 16 x"
  proof -
    have "\<not> in_range at 4 x" "\<not> in_range (at + 4) 4 x" "\<not> in_range (at + 8) 8 x"
      using sr [of 0 4] sr [of 4 4] sr [of 8 8] that by auto
    then show ?thesis using s1(2) s2(2) s3(2) by simp
  qed
  show "can_write m' = can_write m" "can_exec m' = can_exec m" using s1 s2 s3 by simp_all
qed

lemma jump_to_ok:
  assumes "\<And>x. in_range at 16 x \<Longrightarrow> can_write m x"
  shows "\<exists>m'. jump_to at dest m = Inr m'"
proof -
  have c: "can_write m (at + of_nat i)" if "i < 16" for i
    using assms in_range_at that by simp
  obtain m1 where m1: "write_mem at (le32 LDR_X16_8) m = Inr m1"
    using write_mem_ok [of "le32 LDR_X16_8" m "at"] c by (auto simp: codec_simps)
  have "\<forall>i < 4. can_write m1 (at + 4 + of_nat i)"
    using c [of "4 + i" for i] write_le32(3) [OF m1] by (simp add: add.assoc)
  then obtain m2 where m2: "write_mem (at + 4) (le32 BR_X16) m1 = Inr m2"
    using write_mem_ok [of "le32 BR_X16" m1 "at + 4"] by (auto simp: codec_simps)
  have "\<forall>i < 8. can_write m2 (at + 8 + of_nat i)"
    using c [of "8 + i" for i] write_le32(3) [OF m1] write_le32(3) [OF m2] by (simp add: add.assoc)
  then have "\<exists>m3. write_mem (at + 8) (le64 dest) m2 = Inr m3"
    by (intro write_mem_ok) (simp add: codec_simps le64_def)
  then show ?thesis using m1 m2 by (simp add: jump_to_def)
qed

text \<open>Two steps of the processor take a jump; only \<open>x16\<close>, a scratch register of calls, changes.\<close>

lemma jump_runs:
  assumes "has_jump m at dest" "executable m at" "executable m (at + 4)" "pc c = at"
  shows "Option.bind (cpu_step m c) (cpu_step m) = Some (c\<lparr>pc := dest, regs := (regs c)(16 := dest)\<rparr>)"
  using assms by (simp add: cpu_step_def has_jump_def Let_def ldr_decoded br_decoded)

section \<open>The pages made writable cover the patched bytes\<close>

lemma page_of_offset:
  assumes "page = 2 ^ k"
  shows "addr - page_of page addr = take_bit k addr"
proof -
  have "page_of page addr = addr AND NOT (mask k)"
    by (simp add: page_of_def assms mask_eq_exp_minus_1)
  also have "\<dots> = addr AND NOT (take_bit k addr)"
    by (rule bit_word_eqI) (auto simp: bit_simps)
  also have "\<dots> = addr - take_bit k addr"
    by (rule disjunctive_diff_eq_and_not [symmetric]) (rule bit_word_eqI, auto simp: bit_simps)
  finally show ?thesis by simp
qed

lemma round_up: "0 < p \<Longrightarrow> (m::nat) \<le> (m + p - 1) div p * p"
proof -
  assume p: "0 < p"
  have "(m + p - 1) div p * p + (m + p - 1) mod p = m + p - 1" by simp
  moreover have "(m + p - 1) mod p \<le> p - 1" using p by (simp add: Suc_leI flip: less_Suc_eq_le)
  ultimately show ?thesis using p by linarith
qed

lemma prot_size_covers:
  assumes "page = 2 ^ k" "k \<le> 32"
  shows "unat (take_bit k addr) + 16 \<le> unat (prot_size page addr)"
proof -
  define r where "r = unat (take_bit k addr)"
  have r: "r < 2 ^ k" unfolding r_def by (simp add: unsigned_take_bit_eq)
  have k: "(2::nat) ^ k \<le> 2 ^ 32" by (rule power_increasing) (use assms(2) in auto)
  have "page = of_nat (2 ^ k)" by (simp add: assms)
  then have pu: "unat page = 2 ^ k" using k by (simp add: unat_of_nat del: of_nat_power)
  have sp: "addr + of_nat kPrologueBytes - page_of page addr = take_bit k addr + 16"
    using page_of_offset [OF assms(1), of addr] by (simp add: kPrologueBytes_def algebra_simps)
  have us: "unat (take_bit k addr + 16) = r + 16"
    using r k by (simp add: r_def unat_word_ariths)
  have "take_bit k addr + 16 + page - 1 = of_nat (r + 15 + 2 ^ k)"
    by (simp add: r_def assms)
  then have "unat (take_bit k addr + 16 + page - 1) = unat (of_nat (r + 15 + 2 ^ k) :: u64)"
    by (rule arg_cong)
  also have "\<dots> = r + 16 + 2 ^ k - 1" using r k by (subst unat_of_nat) simp
  finally have u2: "unat (take_bit k addr + 16 + page - 1) = r + 16 + 2 ^ k - 1" .
  have u3: "unat ((take_bit k addr + 16 + page - 1) div page) = (r + 16 + 2 ^ k - 1) div 2 ^ k"
    by (simp only: unat_div u2 pu)
  have lt: "(r + 16 + 2 ^ k - 1) div 2 ^ k * 2 ^ k \<le> r + 16 + 2 ^ k - 1"
    by (rule div_times_less_eq_dividend)
  define q where "q = (take_bit k addr + 16 + page - 1) div page"
  have q: "unat q = (r + 16 + 2 ^ k - 1) div 2 ^ k" unfolding q_def by (rule u3)
  have small: "unat q * 2 ^ k < 2 ^ 64" unfolding q by (rule le_less_trans [OF lt]) (use r k in simp)
  have "unat (prot_size page addr) = unat (q * page)" unfolding prot_size_def sp Let_def q_def ..
  also have "\<dots> = unat q * 2 ^ k" unfolding unat_word_ariths(2) pu using small by simp
  finally have "unat (prot_size page addr) = (r + 16 + 2 ^ k - 1) div 2 ^ k * 2 ^ k" unfolding q .
  with round_up [of "2 ^ k" "r + 16"] show ?thesis by (simp add: r_def)
qed

lemma patched_bytes_covered:
  assumes "page = 2 ^ k" "k \<le> 32" "in_range addr 16 x"
  shows "in_range (page_of page addr) (unat (prot_size page addr)) x"
proof -
  have k: "(2::nat) ^ k \<le> 2 ^ 32" by (rule power_increasing) (use assms(2) in auto)
  define y where "y = x - addr"
  have y: "unat y < 16" using assms(3) by (simp add: y_def in_range_def)
  have r: "unat (take_bit k addr) < 2 ^ k" by (simp add: unsigned_take_bit_eq)
  have "x - page_of page addr = take_bit k addr + y"
    using page_of_offset [OF assms(1), of addr] by (simp add: y_def algebra_simps)
  then have "unat (x - page_of page addr) = unat (take_bit k addr) + unat y"
    using y r k by (simp add: unat_word_ariths)
  then show ?thesis using y prot_size_covers [OF assms(1,2), of addr] by (simp add: in_range_def)
qed

section \<open>The installed hook\<close>

text \<open>
  The system as the code relies on it: pages of a power of two, and a mapping that \<open>mmap\<close> has
  made fresh, apart from the function.
\<close>

definition os_sane :: "hook_os \<Rightarrow> u64 \<Rightarrow> bool" where
  "os_sane os target \<longleftrightarrow>
     (\<exists>k. 5 \<le> k \<and> k \<le> 32 \<and> hk_page os = 2 ^ k) \<and>
     (case hk_mmap os of None \<Rightarrow> True
      | Some th \<Rightarrow> th \<noteq> 0 \<and> (\<forall>x. in_range th (unat (hk_page os)) x \<longrightarrow> \<not> in_range target 16 x))"

lemma page_holds_thunk:
  assumes "os_sane os target"
  shows "32 \<le> unat (hk_page os)"
proof -
  obtain k where k: "5 \<le> k" "k \<le> 32" "hk_page os = 2 ^ k" using assms by (auto simp: os_sane_def)
  have "(2::nat) ^ k \<le> 2 ^ 32" by (rule power_increasing) (use k in auto)
  moreover have "hk_page os = of_nat (2 ^ k)" by (simp add: k)
  ultimately have "unat (hk_page os) = 2 ^ k" by (simp add: unat_of_nat del: of_nat_power)
  moreover have "(2::nat) ^ 5 \<le> 2 ^ k" by (rule power_increasing) (use k in auto)
  ultimately show ?thesis by simp
qed

lemma executable_range:
  assumes "\<And>x. in_range a 16 x \<Longrightarrow> can_exec m x"
  shows "executable m a" "executable m (a + 4)"
proof -
  have c: "can_exec m (a + of_nat i)" if "i < 16" for i
    using assms in_range_at that by simp
  show "executable m a" using c by (simp add: executable_def list_all_iff)
  show "executable m (a + 4)" using c [of "4 + i" for i]
    by (simp add: executable_def list_all_iff add.assoc)
qed

lemma has_jump_cong:
  assumes "\<And>x. in_range at 16 x \<Longrightarrow> byte_at m' x = byte_at m x"
  shows "has_jump m' at dest \<longleftrightarrow> has_jump m at dest"
proof -
  have f: "fetch32 m' (at + of_nat k) = fetch32 m (at + of_nat k)" if "k + 4 \<le> 16" for k
    using assms sub_range [of "at" k 4 _ 16] that by (intro fetch32_cong) simp
  show ?thesis using f [of 0] f [of 4] f [of 8] f [of 12]
    by (simp add: has_jump_def fetch64_def add.assoc)
qed

lemma install_stages:
  assumes "os_sane os target" "target \<noteq> 0" "hk_mmap os = Some th" "hk_rwx os"
  obtains m2 m3 m4 where
    "write_mem th (read_mem target 16 (map_zero th (unat (hk_page os)) m)) (map_zero th (unat (hk_page os)) m) = Inr m2"
    "jump_to (th + 16) (target + 16) m2 = Inr m3"
    "jump_to target handler (protect (page_of (hk_page os) target) (unat (prot_size (hk_page os) target)) True True m3) = Inr m4"
    "install_inline_hook_at os target handler m =
      Inr (th, if hk_rx os then protect (page_of (hk_page os) target) (unat (prot_size (hk_page os) target)) False True m4 else m4)"
proof -
  let ?p = "unat (hk_page os)"
  obtain k where k: "5 \<le> k" "k \<le> 32" "hk_page os = 2 ^ k" using assms(1) by (auto simp: os_sane_def)
  have p: "32 \<le> ?p" by (rule page_holds_thunk [OF assms(1)])
  let ?m1 = "map_zero th ?p m"
  have w: "can_write ?m1 x" if "in_range th 32 x" for x
    using that p by (auto simp: map_zero_def protect_def in_range_def)
  have "\<forall>i < length (read_mem target 16 ?m1). can_write ?m1 (th + of_nat i)"
    using w by (auto simp: read_mem_def intro!: w in_range_at)
  then obtain m2 where m2: "write_mem th (read_mem target 16 ?m1) ?m1 = Inr m2" using write_mem_ok by blast
  have "\<exists>m3. jump_to (th + 16) (target + 16) m2 = Inr m3"
    using w sub_range [of th 16 16 _ 32] write_mem_spec(2) [OF m2] by (intro jump_to_ok) simp
  then obtain m3 where m3: "jump_to (th + 16) (target + 16) m2 = Inr m3" ..
  have "\<exists>m4. jump_to target handler (protect (page_of (hk_page os) target) (unat (prot_size (hk_page os) target)) True True m3) = Inr m4"
    using patched_bytes_covered [OF k(3,2)] by (intro jump_to_ok) (simp add: protect_def)
  then obtain m4 where m4: "jump_to target handler (protect (page_of (hk_page os) target) (unat (prot_size (hk_page os) target)) True True m3) = Inr m4" ..
  show thesis
    by (rule that [OF m2 m3 m4])
      (use m2 m3 m4 assms in \<open>simp add: install_inline_hook_at_def kPrologueBytes_def Let_def\<close>)
qed

text \<open>
  After a successful installation, calling the function runs the handler; the thunk holds the
  overwritten bytes and continues behind them; nothing else has changed; and when the second change
  of protection works, the patched bytes are read-only again.
\<close>

definition redirected :: "code_mem \<Rightarrow> code_mem \<Rightarrow> u64 \<Rightarrow> u64 \<Rightarrow> u64 \<Rightarrow> bool" where
  "redirected m m' target handler thunk \<longleftrightarrow>
     (\<forall>c. pc c = target \<longrightarrow>
        Option.bind (cpu_step m' c) (cpu_step m') = Some (c\<lparr>pc := handler, regs := (regs c)(16 := handler)\<rparr>)) \<and>
     read_mem thunk 16 m' = read_mem target 16 m \<and>
     (\<forall>c. pc c = thunk + 16 \<longrightarrow>
        Option.bind (cpu_step m' c) (cpu_step m') = Some (c\<lparr>pc := target + 16, regs := (regs c)(16 := target + 16)\<rparr>))"

text \<open>
  The bytes after the installation: a jump at the function, the function's old bytes and a jump back
  in the thunk, everything else as it was; and both patches are executable.
\<close>

definition patched :: "hook_os \<Rightarrow> u64 \<Rightarrow> u64 \<Rightarrow> u64 \<Rightarrow> code_mem \<Rightarrow> code_mem \<Rightarrow> bool" where
  "patched os target handler th m m' \<longleftrightarrow>
     has_jump m' target handler \<and> has_jump m' (th + 16) (target + 16) \<and> read_mem th 16 m' = read_mem target 16 m \<and>
     (\<forall>x. in_range target 16 x \<or> in_range th 32 x \<longrightarrow> can_exec m' x) \<and>
     (\<forall>x. \<not> in_range target 16 x \<and> \<not> in_range th (unat (hk_page os)) x \<longrightarrow> byte_at m' x = byte_at m x) \<and>
     (hk_rx os \<longrightarrow> (\<forall>x. in_range target 16 x \<longrightarrow> \<not> can_write m' x))"

lemma read_mem_eqI:
  assumes "\<And>x. in_range a 16 x \<Longrightarrow> byte_at m x = read_mem b 16 m' ! unat (x - a)"
  shows "read_mem a 16 m = read_mem b 16 m'"
proof (rule nth_equalityI)
  show "read_mem a 16 m ! i = read_mem b 16 m' ! i" if "i < length (read_mem a 16 m)" for i
    using that assms [OF in_range_at [of i 16 a]] by (simp add: read_mem_def unat_of_nat)
qed (simp add: read_mem_def)

lemma install_patches:
  assumes sane: "os_sane os target" and t: "target \<noteq> 0" and th: "hk_mmap os = Some th" and rwx: "hk_rwx os"
  shows "\<exists>m'. install_inline_hook_at os target handler m = Inr (th, m') \<and> patched os target handler th m m'"
proof -
  let ?p = "unat (hk_page os)" and ?pg = "page_of (hk_page os) target"
    and ?n = "unat (prot_size (hk_page os) target)"
  obtain k where k: "5 \<le> k" "k \<le> 32" "hk_page os = 2 ^ k" using sane by (auto simp: os_sane_def)
  have fresh: "in_range th ?p x \<Longrightarrow> \<not> in_range target 16 x" for x
    using sane th by (auto simp: os_sane_def)
  have thr: "in_range th 32 x \<Longrightarrow> in_range th ?p x" for x using page_holds_thunk [OF sane] by (auto simp: in_range_def)
  have lo: "in_range th 16 x \<Longrightarrow> in_range th 32 x" and hi: "in_range (th + 16) 16 x \<Longrightarrow> in_range th 32 x"
    and sep: "in_range th 16 x \<Longrightarrow> \<not> in_range (th + 16) 16 x" for x
    using sub_range [of th 16 16 x 32] apart [of th 0 16 x 16 16] by (auto simp: in_range_def)
  let ?m1 = "map_zero th ?p m"
  obtain m2 m3 m4 where m2: "write_mem th (read_mem target 16 ?m1) ?m1 = Inr m2"
    and m3: "jump_to (th + 16) (target + 16) m2 = Inr m3"
    and m4: "jump_to target handler (protect ?pg ?n True True m3) = Inr m4"
    and r: "install_inline_hook_at os target handler m = Inr (th, if hk_rx os then protect ?pg ?n False True m4 else m4)"
    using install_stages [OF sane t th rwx] by metis
  define m' where "m' = (if hk_rx os then protect ?pg ?n False True m4 else m4)"
  have b': "byte_at m' = byte_at m4" by (simp add: m'_def protect_def)
  note w2 = write_mem_spec [OF m2] and j3 = jump_to_spec [OF m3] and j4 = jump_to_spec [OF m4]
  note cover = patched_bytes_covered [OF k(3,2)]
  have b4: "byte_at m' x = byte_at m3 x" if "\<not> in_range target 16 x" for x
    using j4(2) [OF that] b' by (simp add: protect_def)
  have orig: "read_mem target 16 ?m1 = read_mem target 16 m"
    using fresh in_range_at [of _ 16 target] unfolding read_mem_def map_zero_def by fastforce
  have len: "length (read_mem target 16 ?m1) = 16" by (simp add: read_mem_def)
  have "byte_at m' x = read_mem target 16 m ! unat (x - th)" if x: "in_range th 16 x" for x
    using b4 [OF fresh [OF thr [OF lo [OF x]]]] j3(2) [OF sep [OF x]] w2(1) [of x, unfolded len] x orig by simp
  then have th16: "read_mem th 16 m' = read_mem target 16 m" by (rule read_mem_eqI)
  have jumps: "has_jump m' target handler" "has_jump m' (th + 16) (target + 16)"
    using j4(1) has_jump_cong [of target m' m4] j3(1) has_jump_cong [of "th + 16" m' m3, OF b4 [OF fresh [OF thr [OF hi]]]]
    by (simp_all add: b')
  have x4: "can_exec m' x" if "in_range target 16 x \<or> in_range th 32 x" for x
    using that cover thr by (auto simp: m'_def protect_def j4(4) j3(4) w2(3) map_zero_def)
  have rest: "byte_at m' x = byte_at m x" if "\<not> in_range target 16 x" "\<not> in_range th ?p x" for x
  proof -
    have "\<not> in_range th 16 x" "\<not> in_range (th + 16) 16 x" using that(2) thr lo hi by auto
    then show ?thesis using b4 [OF that(1)] j3(2) w2(1) that(2) by (simp add: map_zero_def read_mem_def)
  qed
  have "\<not> can_write m' x" if "hk_rx os" "in_range target 16 x" for x
    using cover [OF that(2)] that(1) by (simp add: m'_def protect_def)
  then have "patched os target handler th m m'" using th16 jumps x4 rest by (simp add: patched_def)
  then show ?thesis using r by (auto simp: m'_def)
qed

lemma install_redirects:
  assumes sane: "os_sane os target" and t: "target \<noteq> 0" and th: "hk_mmap os = Some th" and rwx: "hk_rwx os"
  shows "\<exists>m'. install_inline_hook_at os target handler m = Inr (th, m') \<and>
    redirected m m' target handler th \<and>
    (\<forall>x. \<not> in_range target 16 x \<and> \<not> in_range th (unat (hk_page os)) x \<longrightarrow> byte_at m' x = byte_at m x) \<and>
    (hk_rx os \<longrightarrow> (\<forall>x. in_range target 16 x \<longrightarrow> \<not> can_write m' x))"
proof -
  obtain m' where m': "install_inline_hook_at os target handler m = Inr (th, m')" "patched os target handler th m m'"
    using install_patches [OF assms] by blast
  then have p: "has_jump m' target handler" "has_jump m' (th + 16) (target + 16)" "read_mem th 16 m' = read_mem target 16 m"
    and x: "in_range target 16 x \<or> in_range th 32 x \<Longrightarrow> can_exec m' x" for x
    unfolding patched_def by blast+
  have "in_range (th + 16) 16 x \<Longrightarrow> in_range th 32 x" for x using sub_range [of th 16 16 x 32] by simp
  then have "executable m' target" "executable m' (target + 4)" "executable m' (th + 16)" "executable m' (th + 16 + 4)"
    using x by (blast intro: executable_range)+
  then have "redirected m m' target handler th"
    unfolding redirected_def using jump_runs [OF p(1)] jump_runs [OF p(2)] p(3) by auto
  then show ?thesis using m' unfolding patched_def by blast
qed

text \<open>Whatever the system answers, no store faults, and without a thunk the function is as it was.\<close>

lemma install_total:
  assumes sane: "os_sane os target"
  shows "\<exists>t m'. install_inline_hook_at os target handler m = Inr (t, m') \<and>
    (if t = 0 then read_mem target 16 m' = read_mem target 16 m else redirected m m' target handler t)"
proof (cases "target = 0 \<or> hk_mmap os = None \<or> hk_rwx os")
  case True
  then show ?thesis
  proof (cases "target = 0 \<or> hk_mmap os = None")
    case True
    then show ?thesis by (auto simp: install_inline_hook_at_def)
  next
    case False
    then obtain th where th: "hk_mmap os = Some th" "th \<noteq> 0" using sane by (auto simp: os_sane_def)
    then show ?thesis using install_redirects [OF sane _ th(1), of handler m] False True by auto
  qed
next
  case False
  then obtain th where th: "hk_mmap os = Some th" "target \<noteq> 0" "\<not> hk_rwx os" by auto
  let ?p = "unat (hk_page os)" and ?os = "os\<lparr>hk_rwx := True\<rparr>"
  have sane': "os_sane ?os target" using sane by (simp add: os_sane_def th(1))
  let ?m1 = "map_zero th ?p m"
  obtain m2 m3 where m2: "write_mem th (read_mem target 16 ?m1) ?m1 = Inr m2"
    and m3: "jump_to (th + 16) (target + 16) m2 = Inr m3"
    by (rule install_stages [OF sane' th(2), of th m handler]) (use th(1) in \<open>auto intro: that\<close>)
  have r: "install_inline_hook_at os target handler m = Inr (0, protect th ?p False False m3)"
    using th m2 m3 by (simp add: install_inline_hook_at_def kPrologueBytes_def Let_def)
  have "byte_at m3 x = byte_at m x" if "in_range target 16 x" for x
  proof -
    have o: "\<not> in_range th ?p x" using sane th(1) that by (auto simp: os_sane_def)
    have "\<not> in_range th 32 x" using o page_holds_thunk [OF sane] by (auto simp: in_range_def)
    then have "\<not> in_range th 16 x" "\<not> in_range (th + 16) 16 x"
      using sub_range [of th 16 16 x 32] by (auto simp: in_range_def)
    then show ?thesis using jump_to_spec(2) [OF m3] write_mem_spec(1) [OF m2] o
      by (simp add: read_mem_def map_zero_def)
  qed
  then have "read_mem target 16 m3 = read_mem target 16 m"
    using in_range_at [of _ 16 target] by (simp add: read_mem_def)
  then show ?thesis using r by (simp add: read_mem_def protect_def)
qed

section \<open>The handlers and the requests\<close>

record cqrect =
  cq_x1 :: int
  cq_y1 :: int
  cq_x2 :: int
  cq_y2 :: int

text \<open>A \<open>QHash\<close> from rectangles to numbers, as the entries it holds.\<close>

type_synonym mode_map = "(cqrect \<times> int) list"

text \<open>A call of one of the three original functions, with the object it is called on.\<close>

datatype orig_call =
    Orig_swap u64 cqrect int int int
  | Orig_region u64 "cqrect list" mode_map mode_map int
  | Orig_impl u64 "cqrect list" mode_map mode_map int

record hooks =
  g_swap :: u64
  g_swap_region :: u64
  g_swap_impl :: u64
  g_instance :: u64
  g_thunk_to_orig :: u64
  g_thunk_to_orig_region :: u64
  g_thunk_to_orig_impl :: u64
  g_hook_installed :: bool
  g_log_swaps :: bool
  g_active :: bool
  g_force_mode :: int
  g_swap_count :: u64
  g_swap_region_count :: u64
  g_swap_impl_count :: u64
  g_resolved :: bool
  g_install_ran :: bool
  g_code :: code_mem

definition hooks_init :: "code_mem \<Rightarrow> hooks" where
  "hooks_init m =
     \<lparr>g_swap = 0, g_swap_region = 0, g_swap_impl = 0, g_instance = 0, g_thunk_to_orig = 0,
      g_thunk_to_orig_region = 0, g_thunk_to_orig_impl = 0, g_hook_installed = False,
      g_log_swaps = False, g_active = False, g_force_mode = -1, g_swap_count = 0,
      g_swap_region_count = 0, g_swap_impl_count = 0, g_resolved = False, g_install_ran = False,
      g_code = m\<rparr>"

text \<open>\<open>lib\<close>: the four symbols, 0 for one that is missing; \<open>None\<close> when the library cannot be opened.\<close>

definition resolve_once :: "(u64 \<times> u64 \<times> u64 \<times> u64) option \<Rightarrow> hooks \<Rightarrow> hooks" where
  "resolve_once lib h =
     (if g_resolved h then h
      else case lib of
        None \<Rightarrow> h\<lparr>g_resolved := True\<rparr>
      | Some (sw, reg, im, inst) \<Rightarrow>
          h\<lparr>g_swap := sw, g_swap_region := reg, g_swap_impl := im, g_instance := inst, g_resolved := True\<rparr>)"

definition forcing :: "hooks \<Rightarrow> bool" where
  "forcing h \<longleftrightarrow> g_active h \<and> 0 \<le> g_force_mode h"

definition force_all :: "hooks \<Rightarrow> mode_map \<Rightarrow> mode_map" where
  "force_all h modes = (if forcing h then map (\<lambda>(k, v). (k, g_force_mode h)) modes else modes)"

definition hooked_swap :: "u64 \<Rightarrow> cqrect \<Rightarrow> int \<Rightarrow> int \<Rightarrow> int \<Rightarrow> hooks \<Rightarrow> hooks \<times> orig_call list" where
  "hooked_swap self r ct sm fl h =
     (let h1 = h\<lparr>g_swap_count := g_swap_count h + 1\<rparr>; sm1 = (if forcing h1 then g_force_mode h1 else sm) in
      (h1, if g_thunk_to_orig h1 \<noteq> 0 then [Orig_swap self r ct sm1 fl] else []))"

definition hooked_swap_region ::
  "u64 \<Rightarrow> cqrect list \<Rightarrow> mode_map \<Rightarrow> mode_map \<Rightarrow> int \<Rightarrow> hooks \<Rightarrow> hooks \<times> orig_call list" where
  "hooked_swap_region self region cts modes fl h =
     (let h1 = h\<lparr>g_swap_region_count := g_swap_region_count h + 1\<rparr>; modes1 = force_all h1 modes in
      (h1, if g_thunk_to_orig_region h1 \<noteq> 0 then [Orig_region self region cts modes1 fl] else []))"

definition hooked_swap_impl ::
  "u64 \<Rightarrow> cqrect list \<Rightarrow> mode_map \<Rightarrow> mode_map \<Rightarrow> int \<Rightarrow> hooks \<Rightarrow> hooks \<times> orig_call list" where
  "hooked_swap_impl self region cts modes fl h =
     (let h1 = h\<lparr>g_swap_impl_count := g_swap_impl_count h + 1\<rparr>; modes1 = force_all h1 modes in
      (h1, if g_thunk_to_orig_impl h1 \<noteq> 0 then [Orig_impl self region cts modes1 fl] else []))"

text \<open>The addresses of the three handlers and the answers of the system to the three installations.\<close>

record install_env =
  ie_swap :: "u64 \<times> hook_os"
  ie_region :: "u64 \<times> hook_os"
  ie_impl :: "u64 \<times> hook_os"

definition hook_symbol :: "u64 \<times> hook_os \<Rightarrow> u64 \<Rightarrow> code_mem \<Rightarrow> (u64 \<times> code_mem) res" where
  "hook_symbol e fn m = (if fn \<noteq> 0 then install_inline_hook_at (snd e) fn (fst e) m else Inr (0, m))"

definition install_inline_hook_locked :: "install_env \<Rightarrow> hooks \<Rightarrow> hooks res" where
  "install_inline_hook_locked ie h =
     bindE (hook_symbol (ie_swap ie) (g_swap h) (g_code h)) (\<lambda>(t1, m1).
     bindE (hook_symbol (ie_region ie) (g_swap_region h) m1) (\<lambda>(t2, m2).
     bindE (hook_symbol (ie_impl ie) (g_swap_impl h) m2) (\<lambda>(t3, m3).
     Inr (h\<lparr>g_thunk_to_orig := t1, g_thunk_to_orig_region := t2, g_thunk_to_orig_impl := t3,
            g_hook_installed := (t1 \<noteq> 0 \<or> t2 \<noteq> 0 \<or> t3 \<noteq> 0), g_code := m3\<rparr>))))"

definition epdc_setActive :: "bool \<Rightarrow> hooks \<Rightarrow> hooks" where
  "epdc_setActive b h = h\<lparr>g_active := b\<rparr>"

definition setForceMode :: "int \<Rightarrow> hooks \<Rightarrow> hooks" where
  "setForceMode k h = h\<lparr>g_force_mode := k\<rparr>"

definition setLogging :: "bool \<Rightarrow> hooks \<Rightarrow> hooks" where
  "setLogging b h = h\<lparr>g_log_swaps := b\<rparr>"

definition installHook :: "(u64 \<times> u64 \<times> u64 \<times> u64) option \<Rightarrow> install_env \<Rightarrow> hooks \<Rightarrow> hooks res" where
  "installHook lib ie h =
     (let h1 = resolve_once lib h in
      if g_install_ran h1 then Inr h1
      else install_inline_hook_locked ie (h1\<lparr>g_install_ran := True\<rparr>))"

definition requestUpdate ::
  "(u64 \<times> u64 \<times> u64 \<times> u64) option \<Rightarrow> u64 \<Rightarrow> cqrect \<Rightarrow> int \<Rightarrow> int \<Rightarrow> int \<Rightarrow> hooks \<Rightarrow> hooks \<times> orig_call list" where
  "requestUpdate lib instance r ct sm fl h =
     (let h1 = resolve_once lib h in
      if g_swap h1 = 0 \<or> g_instance h1 = 0 then (h1, [])
      else
        let sm1 = (if forcing h1 then g_force_mode h1 else sm) in
        if instance = 0 then (h1, []) else (h1, [Orig_swap instance r ct sm1 fl]))"

text \<open>
  The modes a call carries. Each call of a hooked function reaches the original once, with every
  mode replaced while forcing and none otherwise.
\<close>

fun call_modes :: "orig_call \<Rightarrow> int list" where
  "call_modes (Orig_swap self r ct sm fl) = [sm]"
| "call_modes (Orig_region self region cts modes fl) = map snd modes"
| "call_modes (Orig_impl self region cts modes fl) = map snd modes"

lemma force_all_modes:
  "map fst (force_all h modes) = map fst modes"
  "map snd (force_all h modes) = (if forcing h then replicate (length modes) (g_force_mode h) else map snd modes)"
  by (induction modes) (auto simp: force_all_def)

lemma hooked_swap_call:
  assumes "g_thunk_to_orig h \<noteq> 0"
  shows "snd (hooked_swap self r ct sm fl h) = [Orig_swap self r ct (if forcing h then g_force_mode h else sm) fl]"
  using assms by (simp add: hooked_swap_def forcing_def Let_def)

lemma hooked_region_call:
  assumes "g_thunk_to_orig_region h \<noteq> 0"
  shows "snd (hooked_swap_region self region cts modes fl h) = [Orig_region self region cts (force_all h modes) fl]"
  using assms by (simp add: hooked_swap_region_def force_all_def forcing_def Let_def)

lemma hooked_impl_call:
  assumes "g_thunk_to_orig_impl h \<noteq> 0"
  shows "snd (hooked_swap_impl self region cts modes fl h) = [Orig_impl self region cts (force_all h modes) fl]"
  using assms by (simp add: hooked_swap_impl_def force_all_def forcing_def Let_def)

end
