(* ===== verification/Options.thy ===== *)
theory Options
  imports CText
begin

text \<open>
  The command line parser (\<open>src/src/options.hpp\<close>). Arguments are C strings, so they hold no NUL.
  The dictionary is an association list with one entry per key, in the order the keys appear on
  the command line (\<open>std::map\<close> sorts them; only a list of names in an error message shows the
  order). \<open>value_collector\<close> points to the operands (\<open>None\<close>) or to the values of a key.

  The specification is a grammar of command lines (\<open>cmd_arg\<close>), their text (\<open>render\<close>) and their
  meaning (\<open>denote\<close>); the parser recovers the meaning from the text (\<open>parse_render\<close>).
\<close>

section \<open>The parser\<close>

type_synonym dictionary = "(string \<times> string list) list"

record parse_state =
  opts :: dictionary
  operands :: "string list"
  operands_only :: bool
  value_collector :: "string option"

definition parse_init :: parse_state where
  "parse_init = \<lparr>opts = [], operands = [], operands_only = False, value_collector = None\<rparr>"

text \<open>\<open>std::map::emplace\<close> with an empty list of values; adding a value to a key.\<close>

definition emplace :: "string \<Rightarrow> dictionary \<Rightarrow> dictionary" where
  "emplace k d = (if k \<in> fst ` set d then d else d @ [(k, [])])"

definition add_value :: "string \<Rightarrow> string \<Rightarrow> dictionary \<Rightarrow> dictionary" where
  "add_value k v d = map (\<lambda>(k', vs). (k', if k' = k then vs @ [v] else vs)) d"

definition collect :: "string \<Rightarrow> parse_state \<Rightarrow> parse_state" where
  "collect v s =
     (case value_collector s of
        None \<Rightarrow> s\<lparr>operands := operands s @ [v]\<rparr>
      | Some k \<Rightarrow> s\<lparr>opts := add_value k v (opts s)\<rparr>)"

definition select_key :: "string \<Rightarrow> parse_state \<Rightarrow> parse_state" where
  "select_key k s = s\<lparr>opts := emplace k (opts s), value_collector := Some k\<rparr>"

definition reset_collector :: "parse_state \<Rightarrow> parse_state" where
  "reset_collector s = s\<lparr>value_collector := None\<rparr>"

text \<open>A long option, given what follows the two dashes.\<close>

definition parse_long :: "string \<Rightarrow> parse_state \<Rightarrow> parse_state" where
  "parse_long rest s =
     (let key = takeWhile (\<lambda>c. c \<noteq> CHR ''='') rest; s1 = select_key key s in
      case dropWhile (\<lambda>c. c \<noteq> CHR ''='') rest of
        [] \<Rightarrow> s1
      | _ # v \<Rightarrow> reset_collector (collect v s1))"

definition parse_short :: "string \<Rightarrow> parse_state \<Rightarrow> parse_state" where
  "parse_short letters s = foldl (\<lambda>s c. select_key [c] s) s letters"

definition parse_arg :: "parse_state \<Rightarrow> string \<Rightarrow> parse_state" where
  "parse_arg s current =
     (if cstr_at current 0 = CHR ''-'' \<and> cstr_at current 1 \<noteq> CHR 0x00 \<and> \<not> operands_only s then
        if cstr_at current 1 = CHR ''-'' then
          (if cstr_at current 2 = CHR 0x00 then reset_collector (s\<lparr>operands_only := True\<rparr>)
           else parse_long (drop 2 current) s)
        else parse_short (drop 1 current) s
      else reset_collector (collect current s))"

definition parse :: "string list \<Rightarrow> dictionary \<times> string list" where
  "parse args = (let s = foldl parse_arg parse_init args in (opts s, operands s))"

section \<open>Command lines and their meaning\<close>

text \<open>
  An operand, a flag, an option with its value in the same argument or in the next one, or a
  group of letters.
\<close>

datatype cmd_arg = Operand string | Flag string | Opt_eq string string | Opt_next string string | Letters string

fun render :: "cmd_arg \<Rightarrow> string list" where
  "render (Operand v) = [v]"
| "render (Flag k) = [''--'' @ k]"
| "render (Opt_eq k v) = [''--'' @ k @ ''='' @ v]"
| "render (Opt_next k v) = [''--'' @ k, v]"
| "render (Letters ls) = [''-'' @ ls]"

fun denote_arg :: "dictionary \<times> string list \<Rightarrow> cmd_arg \<Rightarrow> dictionary \<times> string list" where
  "denote_arg (d, ops) (Operand v) = (d, ops @ [v])"
| "denote_arg (d, ops) (Flag k) = (emplace k d, ops)"
| "denote_arg (d, ops) (Opt_eq k v) = (add_value k v (emplace k d), ops)"
| "denote_arg (d, ops) (Opt_next k v) = (add_value k v (emplace k d), ops)"
| "denote_arg (d, ops) (Letters ls) = (foldl (\<lambda>d c. emplace [c] d) d ls, ops)"

definition denote :: "cmd_arg list \<Rightarrow> dictionary \<times> string list" where
  "denote as = foldl denote_arg ([], []) as"

text \<open>A value that does not look like an option; keys that can be written.\<close>

definition plain :: "string \<Rightarrow> bool" where
  "plain v \<longleftrightarrow> cstr_at v 0 \<noteq> CHR ''-'' \<or> cstr_at v 1 = CHR 0x00"

definition key_ok :: "string \<Rightarrow> bool" where
  "key_ok k \<longleftrightarrow> k \<noteq> [] \<and> CHR ''='' \<notin> set k \<and> CHR 0x00 \<notin> set k"

fun arg_ok :: "cmd_arg \<Rightarrow> bool" where
  "arg_ok (Operand v) \<longleftrightarrow> plain v"
| "arg_ok (Flag k) \<longleftrightarrow> key_ok k"
| "arg_ok (Opt_eq k v) \<longleftrightarrow> key_ok k"
| "arg_ok (Opt_next k v) \<longleftrightarrow> key_ok k \<and> plain v"
| "arg_ok (Letters ls) \<longleftrightarrow> ls \<noteq> [] \<and> hd ls \<noteq> CHR ''-'' \<and> CHR 0x00 \<notin> set ls"

text \<open>An operand must not follow a flag or a group of letters: it would be taken for its value.\<close>

fun takes_next :: "cmd_arg \<Rightarrow> bool" where
  "takes_next (Flag k) = True"
| "takes_next (Letters ls) = True"
| "takes_next _ = False"

fun is_operand :: "cmd_arg \<Rightarrow> bool" where
  "is_operand (Operand v) = True"
| "is_operand _ = False"

fun line_ok :: "cmd_arg list \<Rightarrow> bool" where
  "line_ok [] \<longleftrightarrow> True"
| "line_ok [a] \<longleftrightarrow> arg_ok a"
| "line_ok (a # b # as) \<longleftrightarrow> arg_ok a \<and> \<not> (takes_next a \<and> is_operand b) \<and> line_ok (b # as)"

section \<open>Properties\<close>

text \<open>The text of a key is read back, and so are the letters.\<close>

lemma parse_plain:
  "plain v \<Longrightarrow> parse_arg s v = reset_collector (collect v s)"
  by (auto simp: parse_arg_def plain_def)

lemma cstr_at_nonzero: "k \<noteq> [] \<Longrightarrow> CHR 0x00 \<notin> set k \<Longrightarrow> cstr_at k 0 \<noteq> CHR 0x00"
  by (cases k) (auto simp: cstr_at_def)

lemma key_split:
  assumes "CHR ''='' \<notin> set k"
  shows "takeWhile (\<lambda>c. c \<noteq> CHR ''='') (k @ CHR ''='' # v) = k"
    "dropWhile (\<lambda>c. c \<noteq> CHR ''='') (k @ CHR ''='' # v) = CHR ''='' # v"
    "takeWhile (\<lambda>c. c \<noteq> CHR ''='') k = k" "dropWhile (\<lambda>c. c \<noteq> CHR ''='') k = []"
proof -
  have n: "\<forall>c \<in> set k. c \<noteq> CHR ''=''" using assms by auto
  then show "takeWhile (\<lambda>c. c \<noteq> CHR ''='') (k @ CHR ''='' # v) = k"
    "dropWhile (\<lambda>c. c \<noteq> CHR ''='') (k @ CHR ''='' # v) = CHR ''='' # v"
    by (simp_all add: takeWhile_append dropWhile_append)
  show "takeWhile (\<lambda>c. c \<noteq> CHR ''='') k = k" "dropWhile (\<lambda>c. c \<noteq> CHR ''='') k = []"
    using n by (simp_all add: takeWhile_eq_all_conv)
qed

lemma parse_dashes:
  assumes "\<not> operands_only s" "key_ok k"
  shows "parse_arg s (''--'' @ k) = select_key k s"
    and "parse_arg s (''--'' @ k @ ''='' @ v) = reset_collector (collect v (select_key k s))"
proof -
  obtain c cs where k: "k = c # cs" "c \<noteq> CHR 0x00" using assms(2) by (cases k) (auto simp: key_ok_def)
  have e: "CHR ''='' \<notin> set k" using assms(2) by (simp add: key_ok_def)
  note sp = key_split [OF e]
  have "cstr_at (''--'' @ k) 0 = CHR ''-''" "cstr_at (''--'' @ k) 1 = CHR ''-''" "cstr_at (''--'' @ k) 2 \<noteq> CHR 0x00"
    using k by (simp_all add: cstr_at_def)
  then show "parse_arg s (''--'' @ k) = select_key k s"
    using assms(1) by (simp add: parse_arg_def parse_long_def Let_def sp del: takeWhile_eq_all_conv dropWhile_eq_Nil_conv)
  have "cstr_at (''--'' @ k @ ''='' @ v) 0 = CHR ''-''" "cstr_at (''--'' @ k @ ''='' @ v) 1 = CHR ''-''"
    "cstr_at (''--'' @ k @ ''='' @ v) 2 \<noteq> CHR 0x00"
    using k by (simp_all add: cstr_at_def)
  then show "parse_arg s (''--'' @ k @ ''='' @ v) = reset_collector (collect v (select_key k s))"
    using assms(1) by (simp add: parse_arg_def parse_long_def Let_def sp del: takeWhile_eq_all_conv dropWhile_eq_Nil_conv)
qed

lemma parse_letters:
  assumes "\<not> operands_only s" "ls \<noteq> []" "hd ls \<noteq> CHR ''-''" "CHR 0x00 \<notin> set ls"
  shows "parse_arg s (''-'' @ ls) = parse_short ls s"
  using assms by (cases ls) (auto simp: parse_arg_def cstr_at_def)

lemma parse_short_fields:
  "opts (parse_short ls s) = foldl (\<lambda>d c. emplace [c] d) (opts s) ls \<and>
   operands (parse_short ls s) = operands s \<and> operands_only (parse_short ls s) = operands_only s"
proof (induction ls arbitrary: s)
  case (Cons c ls)
  have "parse_short (c # ls) s = parse_short ls (select_key [c] s)" by (simp add: parse_short_def)
  with Cons [of "select_key [c] s"] show ?case by (simp add: select_key_def)
qed (simp add: parse_short_def)

text \<open>One argument of the grammar: its meaning, and whether the next value would go to it.\<close>

lemma parse_one:
  assumes "arg_ok a" "\<not> operands_only s" "is_operand a \<longrightarrow> value_collector s = None"
  shows "let s' = foldl parse_arg s (render a) in
    (opts s', operands s') = denote_arg (opts s, operands s) a \<and> \<not> operands_only s' \<and>
    (takes_next a \<or> value_collector s' = None)"
proof (cases a)
  case (Operand v)
  then show ?thesis using assms by (simp add: parse_plain collect_def reset_collector_def)
next
  case (Flag k)
  then show ?thesis using assms parse_dashes(1) [of s k] by (simp add: select_key_def)
next
  case (Opt_eq k v)
  then show ?thesis using assms parse_dashes(2) [of s k v]
    by (simp add: select_key_def collect_def reset_collector_def)
next
  case (Opt_next k v)
  then show ?thesis using assms parse_dashes(1) [of s k] parse_plain [of v "select_key k s"]
    by (simp add: select_key_def collect_def reset_collector_def)
next
  case (Letters ls)
  then show ?thesis using assms parse_letters [of s ls] by (simp add: parse_short_fields)
qed

lemma parse_line:
  assumes "line_ok as" "\<not> operands_only s" "as = [] \<or> \<not> is_operand (hd as) \<or> value_collector s = None"
  shows "let s' = foldl parse_arg s (concat (map render as)) in
    (opts s', operands s') = foldl denote_arg (opts s, operands s) as \<and> \<not> operands_only s'"
  using assms
proof (induction as arbitrary: s rule: line_ok.induct)
  case (2 a)
  then show ?case using parse_one [of a s] by (simp add: Let_def)
next
  case (3 a b as)
  let ?s = "foldl parse_arg s (render a)"
  have a: "(opts ?s, operands ?s) = denote_arg (opts s, operands s) a" "\<not> operands_only ?s"
    "takes_next a \<or> value_collector ?s = None"
    using parse_one [of a s] 3(2-4) by (simp_all add: Let_def)
  have "\<not> is_operand b \<or> value_collector ?s = None" using a(3) 3(2) by auto
  with 3(1) [of ?s] 3(2) a show ?case by (simp add: Let_def)
qed simp

lemma parse_render: "line_ok as \<Longrightarrow> parse (concat (map render as)) = denote as"
  using parse_line [of as parse_init] by (simp add: parse_def denote_def parse_init_def Let_def)

text \<open>After a double dash every argument is an operand.\<close>

lemma parse_only_operands:
  "operands_only s \<Longrightarrow> value_collector s = None \<Longrightarrow>
     foldl parse_arg s rest = s\<lparr>operands := operands s @ rest\<rparr>"
proof (induction rest arbitrary: s)
  case (Cons v rest)
  have "parse_arg s v = s\<lparr>operands := operands s @ [v], value_collector := None\<rparr>"
    using Cons.prems by (simp add: parse_arg_def collect_def reset_collector_def)
  moreover have "s\<lparr>operands := operands s @ [v], value_collector := None\<rparr> = s\<lparr>operands := operands s @ [v]\<rparr>"
    using Cons.prems(2) by (cases s) simp
  ultimately show ?case using Cons by simp
qed simp

lemma parse_double_dash:
  assumes "line_ok as"
  shows "parse (concat (map render as) @ ''--'' # rest) = (case denote as of (d, ops) \<Rightarrow> (d, ops @ rest))"
proof -
  let ?s = "foldl parse_arg parse_init (concat (map render as))"
  have s: "(opts ?s, operands ?s) = denote as" "\<not> operands_only ?s"
    using parse_line [OF assms, of parse_init] by (simp_all add: parse_init_def denote_def Let_def)
  have "parse_arg ?s ''--'' = reset_collector (?s\<lparr>operands_only := True\<rparr>)"
    using s(2) by (simp add: parse_arg_def cstr_at_def)
  then show ?thesis using s(1) parse_only_operands [of "reset_collector (?s\<lparr>operands_only := True\<rparr>)" rest]
    by (auto simp: parse_def reset_collector_def Let_def split: prod.splits)
qed

end
