(* ===== verification/Pixels.thy ===== *)
theory Pixels
  imports Buffers
begin

text \<open>
  The pixel conversions of \<open>ClientConnection::blit_rect_to_shm\<close>
  (\<open>src/src/rmioc/vncast_client.cpp\<close>): RGB565 components, their expansion to 8 bits, and luma,
  at the widths of the source (\<open>uint8_t\<close>, \<open>uint16_t\<close>), with the bounds that make the narrowing
  conversions harmless.
\<close>

definition rgb565 :: "u8 \<Rightarrow> u8 \<Rightarrow> u16" where
  "rgb565 lo hi = ucast lo OR push_bit 8 (ucast hi)"

definition red5 :: "u16 \<Rightarrow> u8" where "red5 px = ucast (drop_bit 11 px AND 0x1F)"
definition green6 :: "u16 \<Rightarrow> u8" where "green6 px = ucast (drop_bit 5 px AND 0x3F)"
definition blue5 :: "u16 \<Rightarrow> u8" where "blue5 px = ucast (px AND 0x1F)"

definition expand5 :: "u8 \<Rightarrow> u8" where "expand5 c = push_bit 3 c OR drop_bit 2 c"
definition expand6 :: "u8 \<Rightarrow> u8" where "expand6 c = push_bit 2 c OR drop_bit 4 c"

definition luma :: "u8 \<Rightarrow> u8 \<Rightarrow> u8 \<Rightarrow> u8" where
  "luma r8 g8 b8 = word_of_int ((uint r8 * 30 + uint g8 * 59 + uint b8 * 11) div 100)"

text \<open>The pixel that each of the three branches of the blit writes for one source pixel.\<close>

definition conv_rgba8888 :: "bool \<Rightarrow> u8 \<Rightarrow> u8 \<Rightarrow> bytes" where
  "conv_rgba8888 force_grayscale lo hi =
     (let px = rgb565 lo hi;
          r8 = expand5 (red5 px); g8 = expand6 (green6 px); b8 = expand5 (blue5 px) in
      if force_grayscale then let y8 = luma r8 g8 b8 in [y8, y8, y8, 0xFF]
      else [r8, g8, b8, 0xFF])"

definition conv_gray8 :: "u8 \<Rightarrow> u8 \<Rightarrow> bytes" where
  "conv_gray8 lo hi =
     (let px = rgb565 lo hi in
      [luma (expand5 (red5 px)) (expand6 (green6 px)) (expand5 (blue5 px))])"

definition conv_gray16 :: "u8 \<Rightarrow> u8 \<Rightarrow> bytes" where
  "conv_gray16 lo hi =
     (let px = rgb565 lo hi;
          r = ucast (red5 px) :: u16; g = ucast (green6 px) :: u16; b = ucast (blue5 px) :: u16;
          r8 = push_bit 3 r OR drop_bit 2 r;
          g8 = push_bit 2 g OR drop_bit 4 g;
          b8 = push_bit 3 b OR drop_bit 2 b;
          y16 = word_of_int ((uint r8 * 30 + uint g8 * 59 + uint b8 * 11) div 100) * 257 :: u16 in
      [ucast (y16 AND 0xFF), ucast (drop_bit 8 y16)])"

lemma length_conv [simp]:
  "length (conv_rgba8888 fg lo hi) = 4" "length (conv_gray8 lo hi) = 1"
  "length (conv_gray16 lo hi) = 2"
  by (simp_all add: conv_rgba8888_def conv_gray8_def conv_gray16_def Let_def)

lemma component_bounds: "red5 px \<le> 31" "green6 px \<le> 63" "blue5 px \<le> 31"
proof -
  have a: "uint (x AND 0x1F :: u16) \<le> 31" for x
    using AND_upper2 [of 31 "uint x"] by (simp add: uint_and)
  have b: "uint (x AND 0x3F :: u16) \<le> 63" for x
    using AND_upper2 [of 63 "uint x"] by (simp add: uint_and)
  have "uint (red5 px) \<le> 31" "uint (green6 px) \<le> 63" "uint (blue5 px) \<le> 31"
    using a [of "drop_bit 11 px"] b [of "drop_bit 5 px"] a [of px]
    by (simp_all add: red5_def green6_def blue5_def unsigned_ucast_eq take_bit_int_eq_self)
  then show "red5 px \<le> 31" "green6 px \<le> 63" "blue5 px \<le> 31"
    by (simp_all add: word_le_def)
qed

text \<open>Expansion is exact at the ends of the range and invertible.\<close>

lemma expand5_ends: "expand5 0 = 0" "expand5 31 = 255"
  by (simp_all add: expand5_def)

lemma expand6_ends: "expand6 0 = 0" "expand6 63 = 255"
  by (simp_all add: expand6_def)

text \<open>A statement on small words follows from its finitely many instances.\<close>

lemma small_word_cases:
  fixes c :: u8
  assumes "list_all (\<lambda>n. P (word_of_nat n)) [0..<Suc k]" "unat c \<le> k"
  shows "P c"
proof -
  have "unat c \<in> set [0..<Suc k]"
    using assms(2) by (simp add: less_Suc_eq_le del: upt_Suc)
  with assms(1) have "P (word_of_nat (unat c))" unfolding list_all_iff by blast
  then show ?thesis by simp
qed

lemma expand5_value: "c \<le> 31 \<Longrightarrow> unat (expand5 c) = 8 * unat c + unat c div 4"
  by (rule small_word_cases [where k = 31]) (code_simp, simp add: word_le_nat_alt)

lemma expand6_value: "c \<le> 63 \<Longrightarrow> unat (expand6 c) = 4 * unat c + unat c div 16"
  by (rule small_word_cases [where k = 63]) (code_simp, simp add: word_le_nat_alt)

lemma expand5_16: "c \<le> 31 \<Longrightarrow> push_bit 3 (ucast c :: u16) OR drop_bit 2 (ucast c) = ucast (expand5 c)"
  by (rule small_word_cases [where k = 31]) (code_simp, simp add: word_le_nat_alt)

lemma expand6_16: "c \<le> 63 \<Longrightarrow> push_bit 2 (ucast c :: u16) OR drop_bit 4 (ucast c) = ucast (expand6 c)"
  by (rule small_word_cases [where k = 63]) (code_simp, simp add: word_le_nat_alt)

lemma uint_u8_to_u16: "uint (ucast (c :: u8) :: u16) = uint c"
proof -
  have "uint c < 2 ^ 16" using uint_lt2p [of c] by simp
  then have "take_bit 16 (uint c) = uint c" by (intro take_bit_int_eq_self) simp_all
  then show ?thesis by (simp only: unsigned_ucast_eq) simp
qed

lemma expand5_inverse: "c \<le> 31 \<Longrightarrow> drop_bit 3 (expand5 c) = c"
  by (rule small_word_cases [where k = 31]) (code_simp, simp add: word_le_nat_alt)

lemma expand6_inverse: "c \<le> 63 \<Longrightarrow> drop_bit 2 (expand6 c) = c"
  by (rule small_word_cases [where k = 63]) (code_simp, simp add: word_le_nat_alt)

lemma expand5_mono: "a \<le> b \<Longrightarrow> b \<le> 31 \<Longrightarrow> expand5 a \<le> expand5 b"
  using expand5_value [of a] expand5_value [of b] by (simp add: word_le_nat_alt div_le_mono add_mono)

lemma expand6_mono: "a \<le> b \<Longrightarrow> b \<le> 63 \<Longrightarrow> expand6 a \<le> expand6 b"
  using expand6_value [of a] expand6_value [of b] by (simp add: word_le_nat_alt div_le_mono add_mono)

text \<open>The weighted sum always fits 8 bits, so the narrowing cast of the source loses nothing.\<close>

lemma uint_luma: "uint (luma r g b) = (uint r * 30 + uint g * 59 + uint b * 11) div 100"
proof -
  have "uint r \<le> 255" "uint g \<le> 255" "uint b \<le> 255"
    using uint_lt2p [of r] uint_lt2p [of g] uint_lt2p [of b] by simp_all
  then have "(uint r * 30 + uint g * 59 + uint b * 11) div 100 < 2 ^ 8" by simp
  moreover have "0 \<le> (uint r * 30 + uint g * 59 + uint b * 11) div 100"
    by (intro pos_imp_zdiv_nonneg_iff [THEN iffD2] add_nonneg_nonneg mult_nonneg_nonneg) auto
  ultimately have "take_bit 8 ((uint r * 30 + uint g * 59 + uint b * 11) div 100)
      = (uint r * 30 + uint g * 59 + uint b * 11) div 100"
    by (intro take_bit_int_eq_self)
  then show ?thesis by (simp add: luma_def unsigned_of_int)
qed

lemma luma_gray [simp]: "luma v v v = v"
proof -
  have "uint (luma v v v) = uint v" by (simp add: uint_luma)
  then show ?thesis by (simp add: word_uint_eq_iff)
qed

lemma luma_mono: "r \<le> r' \<Longrightarrow> g \<le> g' \<Longrightarrow> b \<le> b' \<Longrightarrow> luma r g b \<le> luma r' g' b'"
  by (auto simp: word_le_def uint_luma intro!: zdiv_mono1)

text \<open>The 16-bit branch writes the 8-bit luma in both bytes.\<close>

lemma conv_gray16_eq: "conv_gray16 lo hi = (let l = hd (conv_gray8 lo hi) in [l, l])"
proof -
  define px where "px = rgb565 lo hi"
  let ?r = "expand5 (red5 px)" and ?g = "expand6 (green6 px)" and ?b = "expand5 (blue5 px)"
  let ?y = "(uint ?r * 30 + uint ?g * 59 + uint ?b * 11) div 100"
  have y: "?y = uint (luma ?r ?g ?b)" by (simp add: uint_luma)
  define l where "l = luma ?r ?g ?b"
  have yl: "word_of_int ?y = (ucast l :: u16)"
    by (simp add: y l_def unsigned_ucast_eq)
  define y16 :: u16 where "y16 = ucast l * 257"
  have bytes: "n * 257 mod 256 = n" "(n * 257 div 256) mod 256 = n"
    if "0 \<le> n" "n < 256" for n :: int
  proof -
    have e: "n * 257 = n + n * 256" by simp
    show "n * 257 mod 256 = n" unfolding e mod_mult_self1 using that by simp
    have "(n + n * 256) div 256 = n" using that by (simp add: div_mult_self1)
    then show "(n * 257 div 256) mod 256 = n" unfolding e using that by simp
  qed
  have ul: "uint l < 256" using uint_lt2p [of l] by simp
  have u16: "uint y16 = uint l * 257"
    using ul uint_ge_0 [of l] unfolding y16_def
    by (simp add: uint_word_ariths unsigned_ucast_eq take_bit_int_eq_self)
  have lo: "(ucast (y16 AND 0xFF) :: u8) = l"
  proof -
    have "y16 AND 0xFF = take_bit 8 y16" by (simp add: take_bit_eq_mask mask_eq_exp_minus_1)
    then have "uint (ucast (y16 AND 0xFF) :: u8) = uint y16 mod 256"
      by (simp only: unsigned_ucast_eq unsigned_take_bit_eq) (simp add: take_bit_eq_mod)
    also have "\<dots> = uint l" using u16 bytes [of "uint l"] ul uint_ge_0 [of l] by simp
    finally show ?thesis by (simp add: word_uint_eq_iff)
  qed
  have hi: "(ucast (drop_bit 8 y16) :: u8) = l"
  proof -
    have "0 \<le> uint y16" "uint y16 < 65536" using u16 ul uint_ge_0 [of l] by simp_all
    moreover from this have "0 \<le> uint y16 div 256" "uint y16 div 256 < 256"
      by (simp_all add: pos_imp_zdiv_nonneg_iff div_less_iff_less_mult)
    ultimately have "uint y16 mod 65536 = uint y16" "uint y16 div 256 mod 256 = uint y16 div 256"
      by (simp_all only: mod_pos_pos_trivial)
    then have "uint (ucast (drop_bit 8 y16) :: u8) = (uint y16 div 256) mod 256"
      by (simp only: unsigned_ucast_eq unsigned_drop_bit_eq) (simp add: drop_bit_eq_div take_bit_eq_mod)
    also have "\<dots> = uint l" using u16 bytes [of "uint l"] ul uint_ge_0 [of l] by simp
    finally show ?thesis by (simp add: word_uint_eq_iff)
  qed
  show ?thesis
    using lo hi component_bounds [of px]
    by (simp add: conv_gray16_def conv_gray8_def Let_def px_def [symmetric] expand5_16 expand6_16
        uint_u8_to_u16 yl y16_def l_def [symmetric])
qed

text \<open>White and black survive every conversion.\<close>

lemma conv_white: "conv_rgba8888 fg 0xFF 0xFF = [0xFF, 0xFF, 0xFF, 0xFF]" "conv_gray8 0xFF 0xFF = [0xFF]"
  by (cases fg; simp only:; code_simp) code_simp

lemma conv_black: "conv_rgba8888 fg 0 0 = [0, 0, 0, 0xFF]" "conv_gray8 0 0 = [0]"
  by (cases fg; simp only:; code_simp) code_simp

end
