(* ===== verification/VncastClient.thy ===== *)
theory VncastClient
  imports Wire Pixels CText
begin

text \<open>
  The vncast qtfb client (\<open>src/src/rmioc/vncast_client.hpp\<close>, \<open>src/src/rmioc/vncast_client.cpp\<close>):
  whole-message sends and receives over a stream socket, the handshake, the conversion of a
  dirty rectangle from the RGB565 shadow buffer into the shared memory, frame and cursor
  messages.

  The kernel is an explicit input. A socket carries the results of its future \<open>send\<close> and
  \<open>recv\<close> calls, one per call, and what has been sent so far; a call with no result left never
  returns (\<open>Blocked\<close>). \<open>open\<close>, \<open>mmap\<close>, \<open>socket\<close> and \<open>connect\<close> answer from the record \<open>os\<close>.
\<close>

section \<open>Socket loops\<close>

text \<open>A result of \<open>send\<close>: bytes accepted (never more than asked), or an errno.\<close>

datatype tx_ret = Sent nat | Tx_error int

text \<open>A result of \<open>recv\<close>: the bytes that arrived (none: the peer closed), or an errno.\<close>

datatype rx_ret = Received bytes | Rx_error int

definition EINTR :: int where "EINTR = 4"
definition EINVAL :: int where "EINVAL = 22"

fun send_all :: "tx_ret list \<Rightarrow> bytes \<Rightarrow> bytes \<Rightarrow> (tx_ret list \<times> bytes) res" where
  "send_all tx [] out = Inr (tx, out)"
| "send_all [] (b # buf) out = Inl Blocked"
| "send_all (Sent r # tx) (b # buf) out =
     send_all tx (drop r (b # buf)) (out @ take r (b # buf))"
| "send_all (Tx_error e # tx) (b # buf) out =
     (if e = EINTR then send_all tx (b # buf) out else Inl (System_error e ''vncast send''))"

fun recv_all :: "rx_ret list \<Rightarrow> nat \<Rightarrow> bytes \<Rightarrow> (rx_ret list \<times> bytes) res" where
  "recv_all rx 0 acc = Inr (rx, acc)"
| "recv_all [] (Suc n) acc = Inl Blocked"
| "recv_all (Received d # rx) (Suc n) acc =
     (if d = [] then Inl (Runtime_error ''vncast: server closed during recv'')
      else if length d \<le> Suc n then recv_all rx (Suc n - length d) (acc @ d)
      else Inr (Received (drop (Suc n) d) # rx, acc @ take (Suc n) d))"
| "recv_all (Rx_error e # rx) (Suc n) acc =
     (if e = EINTR then recv_all rx (Suc n) acc else Inl (System_error e ''vncast recv''))"

text \<open>A completed \<open>send_all\<close> has put exactly the buffer on the wire, however the kernel cut it.\<close>

lemma send_all_out: "send_all tx buf out = Inr (tx', out') \<Longrightarrow> out' = out @ buf"
  by (induction tx buf out rule: send_all.induct) (auto split: if_splits)

lemma send_all_error:
  "send_all tx buf out = Inl e \<Longrightarrow>
     e = Blocked \<or> (\<exists>n. e = System_error n ''vncast send'' \<and> n \<noteq> EINTR \<and> Tx_error n \<in> set tx)"
  by (induction tx buf out rule: send_all.induct) (auto split: if_splits)

text \<open>It returns as soon as the kernel has made enough progress; interruptions do not matter.\<close>

fun progress :: "tx_ret list \<Rightarrow> nat" where
  "progress [] = 0"
| "progress (Sent r # tx) = r + progress tx"
| "progress (Tx_error e # tx) = progress tx"

lemma send_all_returns:
  "length buf \<le> progress tx \<Longrightarrow> (\<And>e. Tx_error e \<in> set tx \<Longrightarrow> e = EINTR) \<Longrightarrow>
     \<exists>tx'. send_all tx buf out = Inr (tx', out @ buf)"
proof (induction tx buf out rule: send_all.induct)
  case (3 r tx b buf out)
  have "length (drop r (b # buf)) \<le> progress tx" using "3.prems"(1) by simp
  with 3 show ?case by fastforce
qed auto

fun rx_stream :: "rx_ret list \<Rightarrow> bytes" where
  "rx_stream [] = []"
| "rx_stream (Received d # rx) = d @ rx_stream rx"
| "rx_stream (Rx_error e # rx) = rx_stream rx"

text \<open>A completed \<open>recv_all\<close> has taken the first \<open>n\<close> bytes of the stream, however they arrived.\<close>

lemma recv_all_stream:
  "recv_all rx n acc = Inr (rx', d) \<Longrightarrow>
     d = acc @ take n (rx_stream rx) \<and> rx_stream rx' = drop n (rx_stream rx) \<and>
     n \<le> length (rx_stream rx)"
  by (induction rx n acc rule: recv_all.induct) (auto split: if_splits)

lemma recv_all_returns:
  "n \<le> length (rx_stream rx) \<Longrightarrow> (\<And>e. Rx_error e \<in> set rx \<Longrightarrow> e = EINTR) \<Longrightarrow>
     Received [] \<notin> set rx \<Longrightarrow> \<exists>rx' d. recv_all rx n acc = Inr (rx', d)"
proof (induction rx n acc rule: recv_all.induct)
  case (3 d rx n acc)
  then show ?case by (cases "length d \<le> Suc n") fastforce+
qed auto

section \<open>The connection\<close>

record vconn =
  m_tx :: "tx_ret list"
  m_rx :: "rx_ret list"
  m_out :: bytes
  m_fd_open :: bool
  m_shm :: bytes
  m_shm_bytes :: nat
  m_shadow :: bytes
  m_shadow_bytes :: nat
  m_w :: u32
  m_h :: u32
  m_stride :: u32
  m_bpp :: u32
  m_format :: u32
  m_seq :: u32
  m_shm_name :: bytes
  m_waveform :: string
  m_force_grayscale :: bool
  m_cursor_x :: int
  m_cursor_y :: int
  m_cursor_w :: u32
  m_cursor_h :: u32
  m_cursor_visible :: bool

definition vconn_init :: "tx_ret list \<Rightarrow> rx_ret list \<Rightarrow> vconn" where
  "vconn_init tx rx =
     \<lparr>m_tx = tx, m_rx = rx, m_out = [], m_fd_open = False, m_shm = [], m_shm_bytes = 0,
      m_shadow = [], m_shadow_bytes = 0, m_w = 0, m_h = 0, m_stride = 0, m_bpp = 0, m_format = 0,
      m_seq = 0, m_shm_name = [], m_waveform = ''GC16'', m_force_grayscale = False,
      m_cursor_x = -1, m_cursor_y = -1, m_cursor_w = 0, m_cursor_h = 0, m_cursor_visible = False\<rparr>"

text \<open>\<open>os_shm\<close>: contents of the shared-memory objects, or the errno of \<open>open\<close>.\<close>

record os =
  os_socket :: "int option"
  os_connect :: "string \<Rightarrow> int option"
  os_shm :: "string \<Rightarrow> int + bytes"
  os_mmap :: "int option"

definition send_msg :: "bytes \<Rightarrow> vconn \<Rightarrow> vconn res" where
  "send_msg b c = bindE (send_all (m_tx c) b (m_out c)) (\<lambda>(tx, out). Inr (c\<lparr>m_tx := tx, m_out := out\<rparr>))"

definition open_shm :: "os \<Rightarrow> string \<Rightarrow> nat \<Rightarrow> vconn \<Rightarrow> vconn res" where
  "open_shm os nm bytes c =
     (let path = ''/dev/shm'' @ nm in
      case os_shm os path of
        Inl e \<Rightarrow> Inl (System_error e (''vncast: open shm '' @ path))
      | Inr content \<Rightarrow>
          (case (if bytes = 0 then Some EINVAL else os_mmap os) of
             Some e \<Rightarrow> Inl (System_error e ''vncast mmap'')
           | None \<Rightarrow> Inr (c\<lparr>m_shm := take bytes content, m_shm_bytes := bytes\<rparr>)))"

text \<open>The three environment variables of the handshake.\<close>

definition env_fps :: "environment \<Rightarrow> u32" where
  "env_fps env =
     (case env ''VNCAST_FPS'' of
        None \<Rightarrow> 0
      | Some s \<Rightarrow> let v = strtol s in if v > 0 \<and> v \<le> 120 then word_of_int v else 0)"

definition env_waveform :: "environment \<Rightarrow> vconn \<Rightarrow> vconn" where
  "env_waveform env c =
     (case env ''VNCAST_WAVEFORM'' of
        None \<Rightarrow> c
      | Some s \<Rightarrow> c\<lparr>m_waveform := s, m_force_grayscale := (s = ''A2'' \<or> s = ''DU'')\<rparr>)"

definition env_grayscale :: "environment \<Rightarrow> vconn \<Rightarrow> vconn" where
  "env_grayscale env c =
     (case env ''VNCAST_FORCE_GRAYSCALE'' of
        None \<Rightarrow> c
      | Some s \<Rightarrow> c\<lparr>m_force_grayscale := (cstr_at s 0 = CHR ''1'')\<rparr>)"

definition hello_msg :: "u32 \<Rightarrow> hello_c2s" where
  "hello_msg fps =
     \<lparr>hello_header = mk_header HelloC2S, client_version = VERSION, requested_w = 0,
      requested_h = 0, requested_fps = fps\<rparr>"

text \<open>The bytes of the name up to the first NUL, as \<open>c_str()\<close> hands them to \<open>open\<close>.\<close>

definition c_string :: "bytes \<Rightarrow> string" where
  "c_string b = map (\<lambda>w. char_of (unat w)) (takeWhile (\<lambda>w. w \<noteq> 0) b)"

definition handshake :: "os \<Rightarrow> environment \<Rightarrow> vconn \<Rightarrow> vconn res" where
  "handshake os env c =
     (let fps_cap = env_fps env; c1 = env_grayscale env (env_waveform env c) in
      bindE (send_msg (enc_hello (hello_msg fps_cap)) c1) (\<lambda>c2.
      bindE (recv_all (m_rx c2) 100 []) (\<lambda>(rx, d).
      (case dec_ack d of
         None \<Rightarrow> Inl (Undefined Out_of_bounds)
       | Some ack \<Rightarrow>
           if magic (ack_header ack) \<noteq> MAGIC \<or> htag (ack_header ack) \<noteq> tag_code HelloAckS2C
           then Inl (Runtime_error ''vncast: bad hello-ack header'')
           else if accepted ack = 0
           then Inl (Runtime_error ''vncast: server rejected handshake'')
           else
             let c3 = c2\<lparr>m_rx := rx, m_w := ack_w ack, m_h := ack_h ack, m_stride := ack_stride ack,
                         m_bpp := ack_bpp ack, m_format := ack_format ack,
                         m_shm_name := take (min (unat (shm_name_len ack)) 64) (shm_name ack)\<rparr> in
             bindE (open_shm os (c_string (m_shm_name c3)) (unat (m_stride c3 * m_h c3)) c3) (\<lambda>c4.
             let n = unat (m_w c4) * unat (m_h c4) * 2 in
             Inr (c4\<lparr>m_shadow_bytes := n, m_shadow := replicate n 0\<rparr>))))))"

definition kDefaultSocket :: string where "kDefaultSocket = ''/run/vncast.sock''"

definition socket_path :: "environment \<Rightarrow> string option \<Rightarrow> string" where
  "socket_path env arg =
     (case arg of
        Some s \<Rightarrow> if s \<noteq> [] then s else
          (case env ''VNCAST_QTFB_SOCKET'' of Some e \<Rightarrow> if e \<noteq> [] then e else kDefaultSocket
           | None \<Rightarrow> kDefaultSocket)
      | None \<Rightarrow>
          (case env ''VNCAST_QTFB_SOCKET'' of Some e \<Rightarrow> if e \<noteq> [] then e else kDefaultSocket
           | None \<Rightarrow> kDefaultSocket))"

text \<open>The constructor. \<open>sun_path\<close> holds 107 characters and the NUL.\<close>

definition client_connection ::
  "os \<Rightarrow> environment \<Rightarrow> tx_ret list \<Rightarrow> rx_ret list \<Rightarrow> string option \<Rightarrow> vconn res" where
  "client_connection os env tx rx arg =
     (let path = socket_path env arg; c = vconn_init tx rx in
      case os_socket os of
        Some e \<Rightarrow> Inl (System_error e ''vncast socket()'')
      | None \<Rightarrow>
          (case os_connect os (take 107 path) of
             Some e \<Rightarrow> Inl (System_error e (''vncast connect '' @ path))
           | None \<Rightarrow> handshake os env (c\<lparr>m_fd_open := True\<rparr>)))"

definition bye_msg :: bye where
  "bye_msg = \<lparr>bye_header = mk_header ByeTag, reason = 0\<rparr>"

text \<open>The destructor says goodbye, swallows any exception of the send, and unmaps.\<close>

definition client_close :: "vconn \<Rightarrow> vconn" where
  "client_close c =
     (let c1 = (if m_fd_open c
                then (case send_msg (enc_bye bye_msg) c of Inl _ \<Rightarrow> c | Inr c' \<Rightarrow> c')\<lparr>m_fd_open := False\<rparr>
                else c) in
      c1\<lparr>m_shadow := [], m_shm := []\<rparr>)"


section \<open>Converting a rectangle of the shadow into the shared memory\<close>

text \<open>The four clamps at the head of the blit, with their \<open>int\<close> arithmetic.\<close>

definition clamp_low :: "int \<Rightarrow> int \<Rightarrow> (int \<times> int) res" where
  "clamp_low x w = (if x < 0 then bindE (ckint (w + x)) (\<lambda>w'. Inr (0, w')) else Inr (x, w))"

definition clamp_high :: "int \<Rightarrow> int \<Rightarrow> int \<Rightarrow> int res" where
  "clamp_high x w m = bindE (ckint (x + w)) (\<lambda>e. if m < e then ckint (m - x) else Inr w)"

text \<open>
  The two nested loops that the three format branches share: read two bytes of the shadow,
  write \<open>n\<close> bytes of the shared memory. \<open>x * 2u\<close> and \<open>x * 4u\<close> are 32-bit products.
\<close>

definition blit_loop ::
  "nat \<Rightarrow> (u8 \<Rightarrow> u8 \<Rightarrow> bytes) \<Rightarrow> bytes \<Rightarrow> int \<Rightarrow> int \<Rightarrow> int \<Rightarrow> int \<Rightarrow> int \<Rightarrow> int \<Rightarrow> bytes \<Rightarrow> bytes res" where
  "blit_loop n conv src src_bpr dst_bpr x y w h dst =
     for_upto (nat h) (\<lambda>yy.
       let sp = (y + int yy) * src_bpr + (x * 2) mod 2 ^ 32;
           dp = (y + int yy) * dst_bpr + (x * int n) mod 2 ^ 32 in
       for_upto (nat w) (\<lambda>xx d.
         bindE (load_bytes src (sp + 2 * int xx) 2) (\<lambda>px.
         store_bytes d (dp + int n * int xx) (conv (px ! 0) (px ! 1))))) dst"

definition blit_rect_to_shm :: "int \<Rightarrow> int \<Rightarrow> int \<Rightarrow> int \<Rightarrow> vconn \<Rightarrow> vconn res" where
  "blit_rect_to_shm x0 y0 w0 h0 c =
     bindE (clamp_low x0 w0) (\<lambda>(x, w1).
     bindE (clamp_low y0 h0) (\<lambda>(y, h1).
     bindE (clamp_high x w1 (sint (m_w c))) (\<lambda>w.
     bindE (clamp_high y h1 (sint (m_h c))) (\<lambda>h.
       if w \<le> 0 \<or> h \<le> 0 then Inr c
       else
         let loop = (\<lambda>n conv. bindE
               (blit_loop n conv (m_shadow c) (uint (m_w c) * 2) (uint (m_stride c)) x y w h (m_shm c))
               (\<lambda>d. Inr (c\<lparr>m_shm := d\<rparr>))) in
         if m_format c = 1 then loop 4 (conv_rgba8888 (m_force_grayscale c))
         else if m_format c = 2 then loop 1 conv_gray8
         else if m_format c = 0 then loop 2 conv_gray16
         else Inr c))))"

text \<open>The buffers as rasters, and what a consistent connection looks like.\<close>

definition bytes_per_pixel :: "u32 \<Rightarrow> nat" where
  "bytes_per_pixel f = (if f = 1 then 4 else if f = 2 then 1 else 2)"

definition conv_of :: "vconn \<Rightarrow> u8 \<Rightarrow> u8 \<Rightarrow> bytes" where
  "conv_of c =
     (if m_format c = 1 then conv_rgba8888 (m_force_grayscale c)
      else if m_format c = 2 then conv_gray8 else conv_gray16)"

definition conv_pixel :: "vconn \<Rightarrow> bytes \<Rightarrow> bytes" where
  "conv_pixel c p = conv_of c (p ! 0) (p ! 1)"

definition shm_geom :: "vconn \<Rightarrow> geom" where
  "shm_geom c = \<lparr>g_bpp = bytes_per_pixel (m_format c), g_stride = uint (m_stride c),
     g_w = uint (m_w c), g_h = uint (m_h c)\<rparr>"

definition shadow_geom :: "vconn \<Rightarrow> geom" where
  "shadow_geom c = \<lparr>g_bpp = 2, g_stride = uint (m_w c) * 2, g_w = uint (m_w c), g_h = uint (m_h c)\<rparr>"

definition vconn_ok :: "vconn \<Rightarrow> bool" where
  "vconn_ok c \<longleftrightarrow> m_format c \<in> {0, 1, 2} \<and> uint (m_w c) < 2 ^ 31 \<and> uint (m_h c) < 2 ^ 31 \<and>
     byte_wf (shm_geom c) (m_shm c) \<and> byte_wf (shadow_geom c) (m_shadow c)"

definition small :: "int \<Rightarrow> bool" where
  "small n \<longleftrightarrow> - (2 ^ 30) < n \<and> n < 2 ^ 30"

lemma length_conv_pixel: "m_format c \<in> {0, 1, 2} \<Longrightarrow> length (conv_pixel c p) = bytes_per_pixel (m_format c)"
  by (auto simp: conv_pixel_def conv_of_def bytes_per_pixel_def)

lemma clamp_low_small: "small x \<Longrightarrow> small w \<Longrightarrow> clamp_low x w = Inr (max 0 x, w + min 0 x)"
  by (auto simp: clamp_low_def small_def INT_MIN_def INT_MAX_def)

lemma clamp_high_small:
  assumes "small x0" "small w0" "0 \<le> m" "m < 2 ^ 31"
  shows "clamp_high (max 0 x0) (w0 + min 0 x0) m = Inr (min m (x0 + w0) - max 0 x0)"
  using assms by (auto simp: clamp_high_def small_def ckint_def INT_MIN_def INT_MAX_def min_def max_def)

text \<open>
  On consistent buffers the loop stores every converted pixel of the rectangle inside the shared
  memory and touches no other pixel.
\<close>

lemma blit_loop_pixel:
  assumes ok: "vconn_ok c" and n: "n = bytes_per_pixel (m_format c)"
    and r: "0 \<le> px" "px < uint (m_w c)" "0 \<le> py" "py < uint (m_h c)"
  shows "load_bytes (m_shadow c) (py * (uint (m_w c) * 2) + px * 2) 2 =
           Inr (byte_get (shadow_geom c) (m_shadow c) px py)"
    and "store_bytes d (py * uint (m_stride c) + px * int n) p = byte_put (shm_geom c) px py p d"
proof -
  have wf: "byte_wf (shadow_geom c) (m_shadow c)" using ok by (simp add: vconn_ok_def)
  from byte_off_bounds [OF wf, of px py] r
  show "load_bytes (m_shadow c) (py * (uint (m_w c) * 2) + px * 2) 2 =
           Inr (byte_get (shadow_geom c) (m_shadow c) px py)"
    by (simp add: shadow_geom_def byte_off_def byte_get_def load_bytes_def)
  show "store_bytes d (py * uint (m_stride c) + px * int n) p = byte_put (shm_geom c) px py p d"
    by (simp add: byte_put_def byte_off_def shm_geom_def n)
qed

lemma blit_loop_put:
  assumes ok: "vconn_ok c" and n: "n = bytes_per_pixel (m_format c)"
    and b: "0 \<le> x" "0 \<le> y" "x + w \<le> uint (m_w c)" "y + h \<le> uint (m_h c)" "0 < w" "0 < h"
  shows "blit_loop n (conv_of c) (m_shadow c) (uint (m_w c) * 2) (uint (m_stride c)) x y w h d =
     for_upto (nat h) (\<lambda>yy. for_upto (nat w) (\<lambda>xx.
       br.put_clipped (shm_geom c) (int xx + x) (int yy + y)
         (conv_pixel c (byte_get (shadow_geom c) (m_shadow c) (int xx + x) (int yy + y))))) d"
  unfolding blit_loop_def Let_def
proof (rule for_upto_cong, rule ext, rule for_upto_cong, rule ext)
  fix yy xx d
  assume i: "yy < nat h" "xx < nat w"
  have m: "x * 2 < 2 ^ 32" "0 \<le> x * 2" "x * int n < 2 ^ 32" "0 \<le> x * int n"
  proof -
    have xm: "x \<le> uint (m_w c)" using b by simp
    then have "x * int n \<le> uint (m_w c) * int n" by (intro mult_right_mono) auto
    also have "\<dots> \<le> uint (m_stride c)"
      using ok by (simp add: vconn_ok_def byte_wf_def shm_geom_def n)
    also have "\<dots> < 2 ^ 32" using uint_lt2p [of "m_stride c"] by simp
    finally show "x * int n < 2 ^ 32" .
    show "x * 2 < 2 ^ 32" using xm ok by (simp add: vconn_ok_def)
  qed (use b in auto)
  have r: "0 \<le> int xx + x" "int xx + x < uint (m_w c)" "0 \<le> int yy + y" "int yy + y < uint (m_h c)"
    using i b by linarith+
  have sp: "(y + int yy) * (uint (m_w c) * 2) + (x * 2) mod 2 ^ 32 + 2 * int xx =
      (int yy + y) * (uint (m_w c) * 2) + (int xx + x) * 2"
    and dp: "(y + int yy) * uint (m_stride c) + (x * int n) mod 2 ^ 32 + int n * int xx =
      (int yy + y) * uint (m_stride c) + (int xx + x) * int n"
    using m by (simp_all only: mod_pos_pos_trivial) (simp_all add: algebra_simps)
  have ins: "br.inside (shm_geom c) (int xx + x) (int yy + y)"
    using r by (simp add: br.inside_def shm_geom_def)
  show "bindE (load_bytes (m_shadow c) ((y + int yy) * (uint (m_w c) * 2) + (x * 2) mod 2 ^ 32 + 2 * int xx) 2)
          (\<lambda>px. store_bytes d ((y + int yy) * uint (m_stride c) + (x * int n) mod 2 ^ 32 + int n * int xx)
                (conv_of c (px ! 0) (px ! 1))) =
        br.put_clipped (shm_geom c) (int xx + x) (int yy + y)
         (conv_pixel c (byte_get (shadow_geom c) (m_shadow c) (int xx + x) (int yy + y))) d"
    unfolding sp dp blit_loop_pixel [OF ok n r] by (simp add: br.put_clipped_def ins conv_pixel_def)
qed

lemma blit_loop_painted:
  assumes ok: "vconn_ok c" and n: "n = bytes_per_pixel (m_format c)"
    and b: "0 \<le> x" "0 \<le> y" "x + w \<le> uint (m_w c)" "y + h \<le> uint (m_h c)" "0 < w" "0 < h"
  shows "\<exists>d. blit_loop n (conv_of c) (m_shadow c) (uint (m_w c) * 2) (uint (m_stride c)) x y w h (m_shm c) = Inr d \<and>
     br.painted (shm_geom c) (\<lambda>c r. x \<le> c \<and> c < x + w \<and> y \<le> r \<and> r < y + h)
       (\<lambda>px py. conv_pixel c (byte_get (shadow_geom c) (m_shadow c) px py)) (m_shm c) d"
proof -
  have wf: "byte_wf (shm_geom c) (m_shm c)" using ok by (simp add: vconn_ok_def)
  have inv: "(i + x = a \<and> j + y = r) = (a - x = i \<and> r - y = j)" for i j a r by auto
  have v: "byte_valid (shm_geom c) (conv_pixel c p)" for p
    using ok length_conv_pixel [of c] by (simp add: byte_valid_def shm_geom_def vconn_ok_def)
  from br.blit [where g = "shm_geom c" and b = "m_shm c" and w = "nat w" and h = "nat h"
      and col = "\<lambda>i j. i + x" and row = "\<lambda>i j. j + y" and ix = "\<lambda>c r. c - x" and iy = "\<lambda>c r. r - y"
      and px = "\<lambda>i j. conv_pixel c (byte_get (shadow_geom c) (m_shadow c) (i + x) (j + y))", OF wf inv v]
  obtain d where d: "for_upto (nat h) (\<lambda>yy. for_upto (nat w) (\<lambda>xx.
       br.put_clipped (shm_geom c) (int xx + x) (int yy + y)
         (conv_pixel c (byte_get (shadow_geom c) (m_shadow c) (int xx + x) (int yy + y))))) (m_shm c) = Inr d"
    "br.painted (shm_geom c) (\<lambda>c r. 0 \<le> r - y \<and> r - y < int (nat h) \<and> 0 \<le> c - x \<and> c - x < int (nat w))
       (\<lambda>px py. conv_pixel c (byte_get (shadow_geom c) (m_shadow c) (px - x + x) (py - y + y))) (m_shm c) d"
    by blast
  have "br.painted (shm_geom c) (\<lambda>c r. x \<le> c \<and> c < x + w \<and> y \<le> r \<and> r < y + h)
       (\<lambda>px py. conv_pixel c (byte_get (shadow_geom c) (m_shadow c) px py)) (m_shm c) d"
    by (rule br.painted_cong [OF d(2) [simplified diff_add_cancel]]) (use b in auto)
  with d(1) show ?thesis unfolding blit_loop_put [OF ok n b] by blast
qed

text \<open>
  The whole operation: for any small rectangle it returns, writes only inside the shared memory,
  and leaves there the shadow converted inside the rectangle and the old pixels outside.
\<close>

definition blitted :: "int \<Rightarrow> int \<Rightarrow> int \<Rightarrow> int \<Rightarrow> vconn \<Rightarrow> bytes \<Rightarrow> bool" where
  "blitted x y w h c d \<longleftrightarrow>
     br.painted (shm_geom c) (\<lambda>px py. x \<le> px \<and> px < x + w \<and> y \<le> py \<and> py < y + h)
       (\<lambda>px py. conv_pixel c (byte_get (shadow_geom c) (m_shadow c) px py)) (m_shm c) d"

lemma blit_rect_painted:
  assumes ok: "vconn_ok c" and s: "small x" "small y" "small w" "small h"
  shows "\<exists>d. blit_rect_to_shm x y w h c = Inr (c\<lparr>m_shm := d\<rparr>) \<and> blitted x y w h c d"
proof -
  define w' where "w' = min (uint (m_w c)) (x + w) - max 0 x"
  define h' where "h' = min (uint (m_h c)) (y + h) - max 0 y"
  have u: "uint (m_w c) < 2 ^ 31" "uint (m_h c) < 2 ^ 31" using ok by (simp_all add: vconn_ok_def)
  have cl: "clamp_low x w = Inr (max 0 x, w + min 0 x)" "clamp_low y h = Inr (max 0 y, h + min 0 y)"
    "clamp_high (max 0 x) (w + min 0 x) (sint (m_w c)) = Inr w'"
    "clamp_high (max 0 y) (h + min 0 y) (sint (m_h c)) = Inr h'"
    using s u by (simp_all add: clamp_low_small clamp_high_small w'_def h'_def sint_u32_small)
  show ?thesis
  proof (cases "w' \<le> 0 \<or> h' \<le> 0")
    case True
    have "br.painted (shm_geom c) (\<lambda>px py. x \<le> px \<and> px < x + w \<and> y \<le> py \<and> py < y + h)
       (\<lambda>px py. conv_pixel c (byte_get (shadow_geom c) (m_shadow c) px py)) (m_shm c) (m_shm c)"
      by (rule br.painted_cong [OF br.painted_none])
        (use True ok in \<open>auto simp: vconn_ok_def br.inside_def shm_geom_def w'_def h'_def\<close>)
    then show ?thesis using True
      by (intro exI [of _ "m_shm c"]) (simp add: blit_rect_to_shm_def cl blitted_def)
  next
    case False
    then have b: "0 \<le> max 0 x" "0 \<le> max 0 y" "max 0 x + w' \<le> uint (m_w c)"
      "max 0 y + h' \<le> uint (m_h c)" "0 < w'" "0 < h'" by (auto simp: w'_def h'_def)
    from blit_loop_painted [OF ok refl b] obtain d where
      d: "blit_loop (bytes_per_pixel (m_format c)) (conv_of c) (m_shadow c) (uint (m_w c) * 2)
            (uint (m_stride c)) (max 0 x) (max 0 y) w' h' (m_shm c) = Inr d"
      "br.painted (shm_geom c) (\<lambda>px py. max 0 x \<le> px \<and> px < max 0 x + w' \<and> max 0 y \<le> py \<and> py < max 0 y + h')
        (\<lambda>px py. conv_pixel c (byte_get (shadow_geom c) (m_shadow c) px py)) (m_shm c) d" by blast
    have "blitted x y w h c d" unfolding blitted_def
      by (rule br.painted_cong [OF d(2)]) (auto simp: br.inside_def shm_geom_def w'_def h'_def)
    moreover have "blit_rect_to_shm x y w h c = Inr (c\<lparr>m_shm := d\<rparr>)"
      using False d(1) ok unfolding blit_rect_to_shm_def cl
      by (auto simp: cl conv_of_def bytes_per_pixel_def vconn_ok_def)
    ultimately show ?thesis by blast
  qed
qed

section \<open>Frame and cursor messages\<close>

definition classify_frame_mode :: "int \<Rightarrow> int \<Rightarrow> vconn \<Rightarrow> frame_mode res" where
  "classify_frame_mode w h c =
     bindE (ckint (w * h)) (\<lambda>area.
     bindE (ckint (sint (m_w c) * sint (m_h c))) (\<lambda>total.
       if total \<le> 0 then Inr Animation
       else bindE (ckint (area * 100)) (\<lambda>a.
         if a < total then Inr Animation
         else bindE (ckint (total * 40)) (\<lambda>t.
           if a < t then Inr Mono else Inr Content))))"

definition frame_msg :: "u32 \<Rightarrow> int \<Rightarrow> int \<Rightarrow> int \<Rightarrow> int \<Rightarrow> frame_mode \<Rightarrow> frame" where
  "frame_msg seq x y w h m =
     \<lparr>frame_header = mk_header FrameTag, frame_seq = seq, frame_x = word_of_int x,
      frame_y = word_of_int y, frame_w = word_of_int w, frame_h = word_of_int h,
      frame_mode = frame_mode_code m\<rparr>"

definition send_partial_update :: "int \<Rightarrow> int \<Rightarrow> int \<Rightarrow> int \<Rightarrow> vconn \<Rightarrow> vconn res" where
  "send_partial_update x y w h c =
     bindE (blit_rect_to_shm x y w h c) (\<lambda>c1.
     let c2 = c1\<lparr>m_seq := m_seq c1 + 1\<rparr> in
     bindE (classify_frame_mode w h c2) (\<lambda>m.
     send_msg (enc_frame (frame_msg (m_seq c2) x y w h m)) c2))"

definition send_complete_update :: "vconn \<Rightarrow> vconn res" where
  "send_complete_update c = send_partial_update 0 0 (sint (m_w c)) (sint (m_h c)) c"

definition cursor_msg :: "int \<Rightarrow> int \<Rightarrow> int \<Rightarrow> int \<Rightarrow> bool \<Rightarrow> cursor" where
  "cursor_msg x y w h visible =
     \<lparr>cursor_header = mk_header CursorC2S, cursor_x = x, cursor_y = y, cursor_w = word_of_int w,
      cursor_h = word_of_int h, cursor_visible = (if visible then 1 else 0)\<rparr>"

text \<open>
  One \<open>send\<close> with \<open>MSG_DONTWAIT\<close> whose result is ignored: a full socket buffer (no result left
  in the list) is an error like any other, and a short count loses the rest of the message.
\<close>

definition try_send :: "bytes \<Rightarrow> vconn \<Rightarrow> vconn" where
  "try_send b c =
     (case m_tx c of
        [] \<Rightarrow> c
      | Sent r # tx \<Rightarrow> c\<lparr>m_tx := tx, m_out := m_out c @ take r b\<rparr>
      | Tx_error e # tx \<Rightarrow> c\<lparr>m_tx := tx\<rparr>)"

definition cursor_is :: "int \<Rightarrow> int \<Rightarrow> int \<Rightarrow> int \<Rightarrow> bool \<Rightarrow> vconn \<Rightarrow> bool" where
  "cursor_is x y w h visible c \<longleftrightarrow>
     x = m_cursor_x c \<and> y = m_cursor_y c \<and> word_of_int w = m_cursor_w c \<and>
     word_of_int h = m_cursor_h c \<and> visible = m_cursor_visible c"

definition send_cursor_pos :: "int \<Rightarrow> int \<Rightarrow> int \<Rightarrow> int \<Rightarrow> bool \<Rightarrow> vconn \<Rightarrow> vconn" where
  "send_cursor_pos x y w h visible c =
     (if cursor_is x y w h visible c then c
      else try_send (enc_cursor (cursor_msg x y w h visible))
        (c\<lparr>m_cursor_x := x, m_cursor_y := y, m_cursor_w := word_of_int w,
           m_cursor_h := word_of_int h, m_cursor_visible := visible\<rparr>))"

text \<open>
  Up to 21 million pixels nothing overflows and the mode follows the share of the panel that the
  rectangle covers.
\<close>

lemma classify_frame_mode_value:
  assumes "0 \<le> w" "0 \<le> h" "w * h * 100 \<le> INT_MAX"
    and "uint (m_w c) < 2 ^ 31" "uint (m_h c) < 2 ^ 31" "uint (m_w c) * uint (m_h c) * 40 \<le> INT_MAX"
  shows "classify_frame_mode w h c = Inr
     (let area = w * h; total = uint (m_w c) * uint (m_h c) in
      if total = 0 \<or> area * 100 < total then Animation
      else if area * 100 < total * 40 then Mono else Content)"
proof -
  define a where "a = w * h"
  define t where "t = uint (m_w c) * uint (m_h c)"
  have "0 \<le> a" "0 \<le> t" using assms by (simp_all add: a_def t_def)
  moreover have "a * 100 \<le> INT_MAX" "t * 40 \<le> INT_MAX" using assms by (simp_all add: a_def t_def)
  moreover have "sint (m_w c) * sint (m_h c) = t" using assms by (simp add: sint_u32_small t_def)
  ultimately show ?thesis unfolding a_def [symmetric] t_def [symmetric]
    by (simp add: classify_frame_mode_def a_def [symmetric] Let_def ckint_def INT_MIN_def INT_MAX_def)
qed

section \<open>The stream the client writes\<close>

text \<open>The operations of the class, as the code's callers issue them one after the other.\<close>

datatype vop = Update int int int int | Complete | Cursor int int int int bool

fun vop_step :: "vop \<Rightarrow> vconn \<Rightarrow> vconn res" where
  "vop_step (Update x y w h) c = send_partial_update x y w h c"
| "vop_step Complete c = send_complete_update c"
| "vop_step (Cursor x y w h v) c = Inr (send_cursor_pos x y w h v c)"

fun vop_run :: "vop list \<Rightarrow> vconn \<Rightarrow> vconn res" where
  "vop_run [] c = Inr c"
| "vop_run (p # ps) c = bindE (vop_step p c) (vop_run ps)"

text \<open>The kernel takes a cursor message whole or not at all.\<close>

definition whole_sends :: "tx_ret list \<Rightarrow> bool" where
  "whole_sends tx \<longleftrightarrow> (\<forall>r. Sent r \<in> set tx \<longrightarrow> 28 \<le> r)"

fun is_update :: "vop \<Rightarrow> bool" where
  "is_update (Cursor x y w h v) = False"
| "is_update _ = True"

lemma send_all_tx_suffix: "send_all tx buf out = Inr (tx', out') \<Longrightarrow> set tx' \<subseteq> set tx"
  by (induction tx buf out rule: send_all.induct) (auto split: if_splits)

lemma send_msg_Inr:
  "send_msg b c = Inr c' \<Longrightarrow> \<exists>tx. c' = c\<lparr>m_tx := tx, m_out := m_out c @ b\<rparr> \<and> set tx \<subseteq> set (m_tx c)"
  by (auto simp: send_msg_def res_simps dest: send_all_out send_all_tx_suffix)

text \<open>A blit changes the shared memory only.\<close>

lemma blit_rect_frame: "blit_rect_to_shm x y w h c = Inr c' \<Longrightarrow> \<exists>d. c' = c\<lparr>m_shm := d\<rparr>"
proof -
  assume a: "blit_rect_to_shm x y w h c = Inr c'"
  have "c = c\<lparr>m_shm := m_shm c\<rparr>" by simp
  with a show ?thesis
    unfolding blit_rect_to_shm_def Let_def
    by (auto simp: res_simps split: prod.splits if_splits) (metis \<open>c = c\<lparr>m_shm := m_shm c\<rparr>\<close>)+
qed

lemma send_partial_update_Inr:
  assumes "send_partial_update x y w h c = Inr c'"
  shows "\<exists>d m tx. c' = c\<lparr>m_shm := d, m_seq := m_seq c + 1, m_tx := tx,
           m_out := m_out c @ enc_frame (frame_msg (m_seq c + 1) x y w h m)\<rparr> \<and> set tx \<subseteq> set (m_tx c)"
proof -
  from assms obtain c1 m where c1: "blit_rect_to_shm x y w h c = Inr c1"
    and s: "send_msg (enc_frame (frame_msg (m_seq c1 + 1) x y w h m)) (c1\<lparr>m_seq := m_seq c1 + 1\<rparr>) = Inr c'"
    by (auto simp: send_partial_update_def Let_def res_simps)
  from blit_rect_frame [OF c1] obtain d where d: "c1 = c\<lparr>m_shm := d\<rparr>" by blast
  from send_msg_Inr [OF s] d show ?thesis by auto
qed

fun vop_ok :: "vop \<Rightarrow> bool" where
  "vop_ok (Update x y w h) \<longleftrightarrow>
     small x \<and> small y \<and> small w \<and> small h \<and> 0 \<le> w \<and> 0 \<le> h \<and> w * h * 100 \<le> INT_MAX"
| "vop_ok Complete \<longleftrightarrow> True"
| "vop_ok (Cursor x y w h v) \<longleftrightarrow> small x \<and> small y \<and> small w \<and> small h"

lemma send_cursor_pos_cases:
  assumes "whole_sends (m_tx c)" "small x" "small y"
  shows "\<exists>ms. m_out (send_cursor_pos x y w h v c) = m_out c @ enc_all ms \<and> frames_of ms = [] \<and>
     m_seq (send_cursor_pos x y w h v c) = m_seq c \<and> list_all c2s_wf ms \<and> list_all keeps_open ms \<and>
     set (m_tx (send_cursor_pos x y w h v c)) \<subseteq> set (m_tx c)"
proof -
  have wf: "c2s_wf (C2S_Cursor (cursor_msg x y w h v))"
    using assms(2,3) by (simp add: cursor_msg_def cursor_wf_def small_def INT_MIN_def INT_MAX_def)
  consider "cursor_is x y w h v c" | "\<not> cursor_is x y w h v c" "m_tx c = [] \<or> (\<exists>e tx. m_tx c = Tx_error e # tx)"
    | r tx where "\<not> cursor_is x y w h v c" "m_tx c = Sent r # tx"
    by (metis neq_Nil_conv tx_ret.exhaust)
  then show ?thesis
  proof cases
    case 1
    then show ?thesis by (intro exI [of _ "[]"]) (simp add: send_cursor_pos_def)
  next
    case 2
    then show ?thesis
      by (intro exI [of _ "[]"]) (auto simp: send_cursor_pos_def try_send_def split: list.splits)
  next
    case 3
    then show ?thesis using assms(1) wf
      by (intro exI [of _ "[C2S_Cursor (cursor_msg x y w h v)]"])
        (auto simp: send_cursor_pos_def try_send_def whole_sends_def length_enc_cursor)
  qed
qed

lemma vop_step_stream:
  assumes "vop_step p c = Inr c'" "whole_sends (m_tx c)" "vop_ok p"
  shows "\<exists>ms. m_out c' = m_out c @ enc_all ms \<and> list_all c2s_wf ms \<and> list_all keeps_open ms \<and> whole_sends (m_tx c') \<and>
     map frame_seq (frames_of ms) = (if is_update p then [m_seq c + 1] else []) \<and>
     m_seq c' = m_seq c + (if is_update p then 1 else 0)"
proof -
  have upd: ?thesis if u: "send_partial_update x y w h c = Inr c'" "is_update p" for x y w h
  proof -
    from send_partial_update_Inr [OF u(1)] obtain d m tx where
      c': "c' = c\<lparr>m_shm := d, m_seq := m_seq c + 1, m_tx := tx,
             m_out := m_out c @ enc_frame (frame_msg (m_seq c + 1) x y w h m)\<rparr>" "set tx \<subseteq> set (m_tx c)"
      by blast
    then show ?thesis using u(2) assms(2)
      by (intro exI [of _ "[C2S_Frame (frame_msg (m_seq c + 1) x y w h m)]"])
        (auto simp: frame_msg_def whole_sends_def)
  qed
  show ?thesis
  proof (cases p)
    case (Cursor x y w h v)
    with assms have "small x" "small y" and c': "c' = send_cursor_pos x y w h v c" by auto
    from send_cursor_pos_cases [OF assms(2) this(1,2), of w h v] show ?thesis
      using assms(2) unfolding c' Cursor whole_sends_def by auto
  qed (use upd assms in \<open>auto simp: send_complete_update_def\<close>)
qed

text \<open>
  What a session writes is a sequence of whole messages; its frames carry consecutive sequence
  numbers, one for every update.
\<close>

lemma vop_run_stream:
  assumes "vop_run ps c = Inr c'" "whole_sends (m_tx c)" "list_all vop_ok ps"
  shows "\<exists>ms. m_out c' = m_out c @ enc_all ms \<and> list_all c2s_wf ms \<and> list_all keeps_open ms \<and>
     map frame_seq (frames_of ms) =
       map (\<lambda>i. m_seq c + word_of_nat (Suc i)) [0..<length (filter is_update ps)]"
  using assms
proof (induction ps arbitrary: c)
  case Nil
  then show ?case by (intro exI [of _ "[]"]) simp
next
  case (Cons p ps)
  from Cons.prems obtain c1 where c1: "vop_step p c = Inr c1" "vop_run ps c1 = Inr c'"
    by (auto simp: res_simps)
  from vop_step_stream [OF c1(1)] Cons.prems obtain ms1 where
    m1: "m_out c1 = m_out c @ enc_all ms1" "list_all c2s_wf ms1" "list_all keeps_open ms1" "whole_sends (m_tx c1)"
      "map frame_seq (frames_of ms1) = (if is_update p then [m_seq c + 1] else [])"
      "m_seq c1 = m_seq c + (if is_update p then 1 else 0)" by auto
  from Cons.IH [OF c1(2) m1(4)] Cons.prems obtain ms where
    m: "m_out c' = m_out c1 @ enc_all ms" "list_all c2s_wf ms" "list_all keeps_open ms"
      "map frame_seq (frames_of ms) =
       map (\<lambda>i. m_seq c1 + word_of_nat (Suc i)) [0..<length (filter is_update ps)]" by auto
  show ?case
    by (rule exI [of _ "ms1 @ ms"])
      (use m m1 in \<open>auto simp: map_upt_Suc algebra_simps simp del: upt_Suc\<close>)
qed

lemma send_cursor_pos_again:
  "send_cursor_pos x y w h v (send_cursor_pos x y w h v c) = send_cursor_pos x y w h v c"
  by (auto simp: send_cursor_pos_def cursor_is_def try_send_def split: list.splits tx_ret.splits)

text \<open>
  No operation on a consistent connection reaches undefined behaviour, and the connection
  stays consistent: an operation fails only when the kernel does.
\<close>

definition panel_ok :: "vconn \<Rightarrow> bool" where
  "panel_ok c \<longleftrightarrow> vconn_ok c \<and> uint (m_w c) < 2 ^ 30 \<and> uint (m_h c) < 2 ^ 30 \<and>
     uint (m_w c) * uint (m_h c) * 100 \<le> INT_MAX"

definition kernel_failure :: "exn \<Rightarrow> bool" where
  "kernel_failure e \<longleftrightarrow> e = Blocked \<or> (\<exists>n. e = System_error n ''vncast send'')"

lemma panel_ok_cong:
  "panel_ok c \<Longrightarrow> m_w c' = m_w c \<Longrightarrow> m_h c' = m_h c \<Longrightarrow> m_stride c' = m_stride c \<Longrightarrow>
   m_format c' = m_format c \<Longrightarrow> m_shadow c' = m_shadow c \<Longrightarrow>
   byte_wf (shm_geom c') (m_shm c') \<Longrightarrow> panel_ok c'"
  by (simp add: panel_ok_def vconn_ok_def shm_geom_def shadow_geom_def)

lemma send_partial_update_safe:
  assumes ok: "panel_ok c" and s: "small x" "small y" "small w" "small h" "0 \<le> w" "0 \<le> h"
    "w * h * 100 \<le> INT_MAX"
  shows "case send_partial_update x y w h c of Inl e \<Rightarrow> kernel_failure e | Inr c' \<Rightarrow> panel_ok c'"
proof -
  have v: "vconn_ok c" using ok by (simp add: panel_ok_def)
  from blit_rect_painted [OF v s(1-4)] obtain d where
    d: "blit_rect_to_shm x y w h c = Inr (c\<lparr>m_shm := d\<rparr>)" "blitted x y w h c d" by blast
  let ?c = "c\<lparr>m_shm := d, m_seq := m_seq c + 1\<rparr>"
  have p: "panel_ok ?c" using ok d(2)
    by (rule_tac panel_ok_cong [OF ok]) (simp_all add: blitted_def br.painted_def shm_geom_def)
  have t: "uint (m_w c) < 2 ^ 31" "uint (m_h c) < 2 ^ 31"
    "uint (m_w c) * uint (m_h c) * 40 \<le> INT_MAX"
  proof -
    define a where "a = uint (m_w c) * uint (m_h c)"
    have "0 \<le> a" "a * 100 \<le> INT_MAX" using ok by (simp_all add: panel_ok_def a_def)
    then have "a * 40 \<le> INT_MAX" by simp
    then show "uint (m_w c) * uint (m_h c) * 40 \<le> INT_MAX" by (simp add: a_def)
  qed (use ok in \<open>auto simp: panel_ok_def vconn_ok_def\<close>)
  obtain m where m: "classify_frame_mode w h ?c = Inr m"
    using classify_frame_mode_value [of w h ?c] s t by simp
  show ?thesis
  proof (cases "send_msg (enc_frame (frame_msg (m_seq c + 1) x y w h m)) ?c")
    case (Inl e)
    then have "kernel_failure e"
      by (auto simp: send_msg_def kernel_failure_def dest!: send_all_error elim!: bindE.elims)
    with Inl show ?thesis by (simp add: send_partial_update_def d m Let_def)
  next
    case (Inr c')
    from send_msg_Inr [OF Inr] obtain tx where
      c': "c' = ?c\<lparr>m_tx := tx, m_out := m_out ?c @ enc_frame (frame_msg (m_seq c + 1) x y w h m)\<rparr>"
      by blast
    have "byte_wf (shm_geom ?c) (m_shm ?c)" using p by (simp add: panel_ok_def vconn_ok_def)
    then have "panel_ok c'" unfolding c' by (intro panel_ok_cong [OF p]) (simp_all add: shm_geom_def)
    with Inr show ?thesis by (simp add: send_partial_update_def d m Let_def)
  qed
qed

lemma send_partial_update_blitted:
  assumes ok: "vconn_ok c" and s: "small x" "small y" "small w" "small h"
    and u: "send_partial_update x y w h c = Inr c'"
  shows "blitted x y w h c (m_shm c')"
proof -
  from blit_rect_painted [OF ok s] obtain d where
    d: "blit_rect_to_shm x y w h c = Inr (c\<lparr>m_shm := d\<rparr>)" "blitted x y w h c d" by blast
  from u obtain b c2 where "send_msg b c2 = Inr c'" "m_shm c2 = d"
    by (auto simp: send_partial_update_def d(1) Let_def res_simps)
  with send_msg_Inr have "m_shm c' = d" by fastforce
  with d(2) show ?thesis by simp
qed

lemma vop_step_safe:
  assumes "panel_ok c" "vop_ok p"
  shows "case vop_step p c of Inl e \<Rightarrow> kernel_failure e | Inr c' \<Rightarrow> panel_ok c'"
proof (cases p)
  case (Update x y w h)
  then show ?thesis using send_partial_update_safe [OF assms(1)] assms(2) by simp
next
  case Complete
  have "sint (m_w c) = uint (m_w c)" "sint (m_h c) = uint (m_h c)"
    using assms(1) by (simp_all add: panel_ok_def sint_u32_small)
  then show ?thesis
    using send_partial_update_safe [OF assms(1), of 0 0 "uint (m_w c)" "uint (m_h c)"] assms Complete
    by (simp add: send_complete_update_def panel_ok_def small_def less_le_trans [of "- 1073741824" 0])
next
  case (Cursor x y w h v)
  have "panel_ok (send_cursor_pos x y w h v c)"
    by (rule panel_ok_cong [OF assms(1)])
      (use assms(1) in \<open>auto simp: send_cursor_pos_def try_send_def panel_ok_def vconn_ok_def shm_geom_def
        split: list.splits tx_ret.splits\<close>)
  with Cursor show ?thesis by simp
qed

lemma vop_run_safe:
  "panel_ok c \<Longrightarrow> list_all vop_ok ps \<Longrightarrow>
     case vop_run ps c of Inl e \<Rightarrow> kernel_failure e | Inr c' \<Rightarrow> panel_ok c'"
proof (induction ps arbitrary: c)
  case (Cons p ps)
  from vop_step_safe [of c p] Cons show ?case by (cases "vop_step p c") auto
qed simp


section \<open>The handshake\<close>

lemma env_fps_bound: "env_fps env \<le> 120"
proof (cases "env ''VNCAST_FPS''")
  case (Some s)
  show ?thesis
  proof (cases "0 < strtol s \<and> strtol s \<le> 120")
    case True
    then have "uint (word_of_int (strtol s) :: u32) = strtol s"
      by (simp add: unsigned_of_int take_bit_int_eq_self)
    then show ?thesis using True Some by (simp add: env_fps_def word_le_def)
  qed (use Some in \<open>auto simp: env_fps_def Let_def\<close>)
qed (simp add: env_fps_def)

lemma env_mode_frame:
  "m_tx (env_grayscale env (env_waveform env c)) = m_tx c"
  "m_rx (env_grayscale env (env_waveform env c)) = m_rx c"
  "m_out (env_grayscale env (env_waveform env c)) = m_out c"
  by (simp_all add: env_grayscale_def env_waveform_def Let_def split: option.splits)

lemma open_shm_Inr:
  "open_shm os nm n c = Inr c' \<Longrightarrow> \<exists>content. os_shm os (''/dev/shm'' @ nm) = Inr content \<and>
     c' = c\<lparr>m_shm := take n content, m_shm_bytes := n\<rparr>"
  by (auto simp: open_shm_def Let_def split: sum.splits option.splits if_splits)

definition ack_accepts :: "hello_ack \<Rightarrow> bool" where
  "ack_accepts a \<longleftrightarrow> ack_header a = mk_header HelloAckS2C \<and> accepted a \<noteq> 0"

text \<open>
  A handshake that completes has sent exactly the hello, has consumed exactly one accepting
  acknowledgement, and has taken over its geometry.
\<close>

lemma handshake_Inr:
  assumes "handshake os env c = Inr c'"
  shows "\<exists>a content. ack_wf a \<and> ack_accepts a \<and> rx_stream (m_rx c) = enc_ack a @ rx_stream (m_rx c') \<and>
     m_out c' = m_out c @ enc_hello (hello_msg (env_fps env)) \<and>
     m_w c' = ack_w a \<and> m_h c' = ack_h a \<and> m_stride c' = ack_stride a \<and> m_format c' = ack_format a \<and>
     m_seq c' = m_seq c \<and> m_shadow c' = replicate (unat (ack_w a) * unat (ack_h a) * 2) 0 \<and>
     os_shm os (''/dev/shm'' @ c_string (take (min (unat (shm_name_len a)) 64) (shm_name a))) = Inr content \<and>
     m_shm c' = take (unat (ack_stride a * ack_h a)) content"
proof -
  let ?c1 = "env_grayscale env (env_waveform env c)"
  from assms obtain c2 rx d where
    s: "send_msg (enc_hello (hello_msg (env_fps env))) ?c1 = Inr c2"
    and r: "recv_all (m_rx c2) 100 [] = Inr (rx, d)"
    unfolding handshake_def Let_def by (auto simp: res_simps)
  from send_msg_Inr [OF s] obtain tx where
    c2: "c2 = ?c1\<lparr>m_tx := tx, m_out := m_out ?c1 @ enc_hello (hello_msg (env_fps env))\<rparr>" by blast
  note st = recv_all_stream [OF r]
  then have "length d = 100" by simp
  from ack_codec.dec_total [OF this] obtain a where a: "dec_ack d = Some a" "ack_wf a" "enc_ack a = d"
    by blast
  define nm where "nm = take (min (unat (shm_name_len a)) 64) (shm_name a)"
  define c3 where "c3 = c2\<lparr>m_rx := rx, m_w := ack_w a, m_h := ack_h a, m_stride := ack_stride a,
      m_bpp := ack_bpp a, m_format := ack_format a, m_shm_name := nm\<rparr>"
  from assms obtain c4 where
    acc: "magic (ack_header a) = MAGIC" "htag (ack_header a) = tag_code HelloAckS2C" "accepted a \<noteq> 0"
    and o: "open_shm os (c_string nm) (unat (ack_stride a * ack_h a)) c3 = Inr c4"
    and c': "c' = c4\<lparr>m_shadow_bytes := unat (m_w c4) * unat (m_h c4) * 2,
      m_shadow := replicate (unat (m_w c4) * unat (m_h c4) * 2) 0\<rparr>"
    unfolding handshake_def Let_def
    by (auto simp: s r a(1) res_simps c3_def nm_def split: if_splits)
  from open_shm_Inr [OF o] obtain content where
    sh: "os_shm os (''/dev/shm'' @ c_string nm) = Inr content"
    and c4: "c4 = c3\<lparr>m_shm := take (unat (ack_stride a * ack_h a)) content,
      m_shm_bytes := unat (ack_stride a * ack_h a)\<rparr>" by blast
  have "rx_stream (m_rx c) = enc_ack a @ rx_stream rx"
    using st a(3) by (simp add: c2 env_mode_frame)
  moreover have "ack_header a = mk_header HelloAckS2C"
    using acc by (simp add: mk_header_def)
  ultimately show ?thesis
    using a(2) acc sh
    by (intro exI [of _ a] exI [of _ content])
      (simp add: ack_accepts_def c' c4 c3_def c2 env_mode_frame nm_def
        env_waveform_def env_grayscale_def Let_def split: option.splits)
qed

lemma handshake_tx:
  assumes "handshake os env c = Inr c'"
  shows "set (m_tx c') \<subseteq> set (m_tx c)"
proof -
  from assms obtain c2 rx d where
    s: "send_msg (enc_hello (hello_msg (env_fps env))) (env_grayscale env (env_waveform env c)) = Inr c2"
    and r: "recv_all (m_rx c2) 100 [] = Inr (rx, d)"
    unfolding handshake_def Let_def by (auto simp: res_simps)
  have "m_tx c' = m_tx c2" using assms
    by (auto simp: handshake_def Let_def s r res_simps dest!: open_shm_Inr split: option.splits if_splits)
  with send_msg_Inr [OF s] show ?thesis by (auto simp: env_mode_frame)
qed

text \<open>If the server describes a buffer that exists, the connection is consistent afterwards.\<close>

lemma handshake_consistent:
  assumes h: "handshake os env c = Inr c'"
    and srv: "\<And>a. ack_wf a \<Longrightarrow> rx_stream (m_rx c) = enc_ack a @ rx_stream (m_rx c') \<Longrightarrow>
      ack_format a \<in> {0, 1, 2} \<and> uint (ack_w a) < 2 ^ 31 \<and> uint (ack_h a) < 2 ^ 31 \<and>
      uint (ack_w a) * int (bytes_per_pixel (ack_format a)) \<le> uint (ack_stride a) \<and>
      uint (ack_stride a) * uint (ack_h a) < 2 ^ 32 \<and>
      (\<forall>content. os_shm os (''/dev/shm'' @ c_string (take (min (unat (shm_name_len a)) 64) (shm_name a))) = Inr content
         \<longrightarrow> uint (ack_stride a) * uint (ack_h a) \<le> int (length content))"
  shows "vconn_ok c'"
proof -
  from handshake_Inr [OF h] obtain a content where a: "ack_wf a"
    "rx_stream (m_rx c) = enc_ack a @ rx_stream (m_rx c')"
    "m_w c' = ack_w a" "m_h c' = ack_h a" "m_stride c' = ack_stride a" "m_format c' = ack_format a"
    "m_shadow c' = replicate (unat (ack_w a) * unat (ack_h a) * 2) 0"
    "os_shm os (''/dev/shm'' @ c_string (take (min (unat (shm_name_len a)) 64) (shm_name a))) = Inr content"
    "m_shm c' = take (unat (ack_stride a * ack_h a)) content" by blast
  from srv [OF a(1,2)] a(8) have g: "ack_format a \<in> {0, 1, 2}" "uint (ack_w a) < 2 ^ 31"
    "uint (ack_h a) < 2 ^ 31" "uint (ack_w a) * int (bytes_per_pixel (ack_format a)) \<le> uint (ack_stride a)"
    "uint (ack_stride a) * uint (ack_h a) < 2 ^ 32"
    "uint (ack_stride a) * uint (ack_h a) \<le> int (length content)" by auto
  have "uint (ack_stride a * ack_h a) = uint (ack_stride a) * uint (ack_h a)"
    using g(5) by (simp add: uint_word_ariths)
  then have "int (unat (ack_stride a * ack_h a)) = uint (ack_stride a) * uint (ack_h a)"
    by (simp add: unat_eq_nat_uint)
  then have "uint (ack_h a) * uint (ack_stride a) \<le> int (length (m_shm c'))"
    using g(6) a(9) by (simp add: mult.commute of_nat_min)
  moreover have "0 < bytes_per_pixel (ack_format a)" by (simp add: bytes_per_pixel_def)
  ultimately have "byte_wf (shm_geom c') (m_shm c')"
    using g(4) unfolding byte_wf_def shm_geom_def geom.select_convs a(3-6)
    by (intro conjI) (assumption | rule uint_ge_0)+
  moreover have "byte_wf (shadow_geom c') (m_shadow c')"
  proof -
    have "int (length (m_shadow c')) = uint (ack_h a) * (uint (ack_w a) * 2)"
      unfolding a(7) length_replicate by simp
    then show ?thesis by (simp only: byte_wf_def shadow_geom_def geom.select_convs a(3,4)) simp
  qed
  ultimately show ?thesis using g(1-3) by (simp add: vconn_ok_def a(3,4,6))
qed

end
