(* ===== verification/RmiocScreen.thy ===== *)
theory RmiocScreen
  imports VncastClient
begin

text \<open>
  The framebuffer device of vnsee (\<open>src/src/rmioc/screen.hpp\<close>, \<open>src/src/rmioc/screen.cpp\<close>,
  \<open>src/src/rmioc/device.cpp\<close>): the choice between the vncast client and AppLoad's qtfb client,
  and the operations that forward to the chosen one. AppLoad's client is a library outside the
  repository; it is represented by its buffer, its size and the list of calls made to it, and
  what it answers is a parameter (\<open>open_qtfb\<close>, \<open>current_mode\<close>).
\<close>

section \<open>Formats and modes\<close>

datatype fb_format = FBFMT_RM2FB | FBFMT_RMPP_RGB565 | FBFMT_RMPPM_RGB565

datatype refresh_mode =
    REFRESH_MODE_UFAST | REFRESH_MODE_FAST | REFRESH_MODE_ANIMATE | REFRESH_MODE_CONTENT
  | REFRESH_MODE_UI

record component_format =
  cf_offset :: nat
  cf_length :: nat

definition cf_max :: "component_format \<Rightarrow> u32" where
  "cf_max f = push_bit (cf_length f) 1 - 1"

definition red_format :: component_format where "red_format = \<lparr>cf_offset = 11, cf_length = 5\<rparr>"
definition green_format :: component_format where "green_format = \<lparr>cf_offset = 5, cf_length = 6\<rparr>"
definition blue_format :: component_format where "blue_format = \<lparr>cf_offset = 0, cf_length = 5\<rparr>"

definition bits_per_pixel :: nat where "bits_per_pixel = 16"

definition detect_fb_format :: "(string \<rightharpoonup> string) \<Rightarrow> fb_format" where
  "detect_fb_format fs =
     (let device_id = (case fs ''/sys/devices/soc0/machine'' of
                         Some t \<Rightarrow> takeWhile (\<lambda>c. c \<noteq> CHR 0x0A) t | None \<Rightarrow> []) in
      if device_id = ''reMarkable Ferrari'' then FBFMT_RMPP_RGB565
      else if device_id = ''reMarkable Chiappa'' then FBFMT_RMPPM_RGB565
      else FBFMT_RM2FB)"

text \<open>\<open>sscanf(env, "%dx%d", ...)\<close>: two numbers separated by the letter x. The values are
  read as \<open>int\<close>; numbers that do not fit are outside the model (\<open>sscanf\<close> leaves them undefined).\<close>

definition scan_WxH :: "string \<Rightarrow> (int \<times> int) option" where
  "scan_WxH s =
     (case scan_int s of
        Some (w, c # r) \<Rightarrow>
          if c = CHR ''x'' then (case scan_int r of Some (h, _) \<Rightarrow> Some (w, h) | None \<Rightarrow> None) else None
      | _ \<Rightarrow> None)"

definition qtfb_resolution_override :: "environment \<Rightarrow> (int \<times> int) option" where
  "qtfb_resolution_override env =
     (case env ''QTFB_RESOLUTION'' of
        None \<Rightarrow> None
      | Some s \<Rightarrow>
          (case scan_WxH s of
             None \<Rightarrow> None
           | Some (w, h) \<Rightarrow> if w \<le> 0 \<or> h \<le> 0 \<or> w > 65535 \<or> h > 65535 then None else Some (w, h)))"

definition prefer_vncast :: "environment \<Rightarrow> bool" where
  "prefer_vncast env = (case env ''VNCAST_QTFB_SOCKET'' of Some s \<Rightarrow> s \<noteq> [] | None \<Rightarrow> False)"

section \<open>The device\<close>

datatype al_call = SetRefreshMode refresh_mode | SendPartialUpdate int int int int | SendCompleteUpdate

record appload =
  al_shm :: bytes
  al_w :: int
  al_h :: int
  al_calls :: "al_call list"

datatype device = Vncast vconn | Appload appload

text \<open>
  The constructor. \<open>open_qtfb\<close> is AppLoad's client: the errno of opening the shared memory, or
  the connected client.
\<close>

definition device_open ::
  "os \<Rightarrow> environment \<Rightarrow> (string \<rightharpoonup> string) \<Rightarrow> tx_ret list \<Rightarrow> rx_ret list \<Rightarrow>
   (fb_format \<Rightarrow> (int \<times> int) option \<Rightarrow> int + appload) \<Rightarrow> device res" where
  "device_open os env fs tx rx open_qtfb =
     (if prefer_vncast env then bindE (client_connection os env tx rx None) (\<lambda>c. Inr (Vncast c))
      else (case open_qtfb (detect_fb_format fs) (qtfb_resolution_override env) of
              Inl e \<Rightarrow> Inl (System_error e ''(rmioc::screen) Open shared memory framebuffer'')
            | Inr a \<Rightarrow> Inr (Appload a)))"

fun is_vncast :: "device \<Rightarrow> bool" where
  "is_vncast (Vncast c) = True"
| "is_vncast (Appload a) = False"

fun get_data :: "device \<Rightarrow> bytes" where
  "get_data (Vncast c) = m_shadow c"
| "get_data (Appload a) = al_shm a"

text \<open>What writing through the pointer of \<open>get_data\<close> does.\<close>

fun put_data :: "bytes \<Rightarrow> device \<Rightarrow> device" where
  "put_data b (Vncast c) = Vncast (c\<lparr>m_shadow := b\<rparr>)"
| "put_data b (Appload a) = Appload (a\<lparr>al_shm := b\<rparr>)"

fun get_xres :: "device \<Rightarrow> int" where
  "get_xres (Vncast c) = sint (m_w c)"
| "get_xres (Appload a) = al_w a"

fun get_yres :: "device \<Rightarrow> int" where
  "get_yres (Vncast c) = sint (m_h c)"
| "get_yres (Appload a) = al_h a"

text \<open>\<open>current_mode\<close> answers AppLoad's \<open>getRefreshMode\<close> after the calls made so far.\<close>

definition al_set_mode :: "(al_call list \<Rightarrow> refresh_mode) \<Rightarrow> refresh_mode \<Rightarrow> appload \<Rightarrow> appload" where
  "al_set_mode current_mode mode a =
     (if current_mode (al_calls a) \<noteq> mode then a\<lparr>al_calls := al_calls a @ [SetRefreshMode mode]\<rparr> else a)"

fun device_update ::
  "(al_call list \<Rightarrow> refresh_mode) \<Rightarrow> int \<Rightarrow> int \<Rightarrow> int \<Rightarrow> int \<Rightarrow> refresh_mode \<Rightarrow> device \<Rightarrow> device res" where
  "device_update cm x y w h mode (Vncast c) =
     bindE (send_partial_update x y w h c) (\<lambda>c'. Inr (Vncast c'))"
| "device_update cm x y w h mode (Appload a) =
     (let a1 = al_set_mode cm mode a in
      Inr (Appload (a1\<lparr>al_calls := al_calls a1 @ [SendPartialUpdate x y w h]\<rparr>)))"

fun device_update_all :: "(al_call list \<Rightarrow> refresh_mode) \<Rightarrow> refresh_mode \<Rightarrow> device \<Rightarrow> device res" where
  "device_update_all cm mode (Vncast c) = bindE (send_complete_update c) (\<lambda>c'. Inr (Vncast c'))"
| "device_update_all cm mode (Appload a) =
     (let a1 = al_set_mode cm mode a in
      Inr (Appload (a1\<lparr>al_calls := al_calls a1 @ [SendCompleteUpdate]\<rparr>)))"

definition kCursorSize :: int where "kCursorSize = 64"

fun update_cursor :: "int \<Rightarrow> int \<Rightarrow> bool \<Rightarrow> device \<Rightarrow> device" where
  "update_cursor x y visible (Vncast c) =
     Vncast (send_cursor_pos x y kCursorSize kCursorSize visible c)"
| "update_cursor x y visible (Appload a) = Appload a"

fun get_connection :: "device \<Rightarrow> appload res" where
  "get_connection (Vncast c) =
     Inl (Runtime_error ''rmioc::screen::get_connection: not available under vncast backend'')"
| "get_connection (Appload a) = Inr a"

section \<open>What the rest of vnsee relies on\<close>

text \<open>
  The interface of a panel: a 16-bit pixel buffer of \<open>xres * yres\<close> pixels that callers write
  through \<open>data\<close>, and \<open>update\<close> and \<open>cursor\<close>, which hand a region to the display without
  changing the buffer or the size and never reach undefined behaviour.
\<close>

locale panel =
  fixes ok :: "'d \<Rightarrow> bool"
    and data :: "'d \<Rightarrow> bytes"
    and put :: "bytes \<Rightarrow> 'd \<Rightarrow> 'd"
    and xres :: "'d \<Rightarrow> int"
    and yres :: "'d \<Rightarrow> int"
    and upd :: "int \<Rightarrow> int \<Rightarrow> int \<Rightarrow> int \<Rightarrow> 'm \<Rightarrow> 'd \<Rightarrow> 'd res"
    and curs :: "int \<Rightarrow> int \<Rightarrow> 'd \<Rightarrow> 'd"
  assumes size: "ok d \<Longrightarrow> 0 \<le> xres d \<and> xres d < 2 ^ 30 \<and> 0 \<le> yres d \<and> yres d < 2 ^ 30 \<and>
      yres d * (xres d * 2) \<le> int (length (data d))"
    and put_laws: "data (put b d) = b" "xres (put b d) = xres d" "yres (put b d) = yres d"
    and put_ok: "ok d \<Longrightarrow> length b = length (data d) \<Longrightarrow> ok (put b d)"
    and upd_laws: "ok d \<Longrightarrow> small x \<Longrightarrow> small y \<Longrightarrow> small w \<Longrightarrow> small h \<Longrightarrow> 0 \<le> w \<Longrightarrow> 0 \<le> h \<Longrightarrow>
      w * h * 100 \<le> INT_MAX \<Longrightarrow>
      (case upd x y w h m d of
         Inl e \<Rightarrow> kernel_failure e
       | Inr d' \<Rightarrow> ok d' \<and> data d' = data d \<and> xres d' = xres d \<and> yres d' = yres d)"
    and curs_laws: "ok d \<Longrightarrow> ok (curs x y d) \<and> data (curs x y d) = data d \<and>
      xres (curs x y d) = xres d \<and> yres (curs x y d) = yres d"
begin

text \<open>The buffer as a raster of two-byte pixels.\<close>

definition pgeom :: "'d \<Rightarrow> geom" where
  "pgeom d = \<lparr>g_bpp = 2, g_stride = xres d * 2, g_w = xres d, g_h = yres d\<rparr>"

lemma pgeom_wf: "ok d \<Longrightarrow> byte_wf (pgeom d) (data d)"
  using size [of d] by (simp add: byte_wf_def pgeom_def)

lemma pgeom_put [simp]: "pgeom (put b d) = pgeom d"
  by (simp add: pgeom_def put_laws)

text \<open>Updates and cursor moves never change a pixel.\<close>

lemma upd_pixels:
  "ok d \<Longrightarrow> small x \<Longrightarrow> small y \<Longrightarrow> small w \<Longrightarrow> small h \<Longrightarrow> 0 \<le> w \<Longrightarrow> 0 \<le> h \<Longrightarrow>
     w * h * 100 \<le> INT_MAX \<Longrightarrow> upd x y w h m d = Inr d' \<Longrightarrow>
     byte_get (pgeom d') (data d') = byte_get (pgeom d) (data d)"
  using upd_laws [of d x y w h m] by (simp add: pgeom_def)

lemma upd_defined:
  "ok d \<Longrightarrow> small x \<Longrightarrow> small y \<Longrightarrow> small w \<Longrightarrow> small h \<Longrightarrow> 0 \<le> w \<Longrightarrow> 0 \<le> h \<Longrightarrow>
     w * h * 100 \<le> INT_MAX \<Longrightarrow> upd x y w h m d \<noteq> Inl (Undefined u)"
  using upd_laws [of d x y w h m] by (auto simp: kernel_failure_def split: sum.splits)

end

fun device_ok :: "device \<Rightarrow> bool" where
  "device_ok (Vncast c) \<longleftrightarrow> panel_ok c"
| "device_ok (Appload a) \<longleftrightarrow> 0 \<le> al_w a \<and> al_w a < 2 ^ 16 \<and> 0 \<le> al_h a \<and> al_h a < 2 ^ 16 \<and>
     al_h a * (al_w a * 2) \<le> int (length (al_shm a))"

lemma panel_ok_size:
  assumes "panel_ok c"
  shows "sint (m_w c) = uint (m_w c)" "sint (m_h c) = uint (m_h c)" "uint (m_w c) < 2 ^ 30"
    "uint (m_h c) < 2 ^ 30" "uint (m_h c) * (uint (m_w c) * 2) \<le> int (length (m_shadow c))"
  using assms by (simp_all add: panel_ok_def vconn_ok_def byte_wf_def shadow_geom_def sint_u32_small)

lemma send_partial_update_keeps:
  assumes "send_partial_update x y w h c = Inr c'"
  shows "m_shadow c' = m_shadow c \<and> m_w c' = m_w c \<and> m_h c' = m_h c"
  using send_partial_update_Inr [OF assms] by auto

lemma send_cursor_pos_keeps:
  "m_shadow (send_cursor_pos x y w h v c) = m_shadow c" "m_w (send_cursor_pos x y w h v c) = m_w c"
  "m_h (send_cursor_pos x y w h v c) = m_h c"
  by (simp_all add: send_cursor_pos_def try_send_def split: list.splits tx_ret.splits)

lemma send_cursor_pos_ok:
  assumes a: "panel_ok c"
  shows "panel_ok (send_cursor_pos x y w h v c)"
proof (rule panel_ok_cong [OF a])
  have "m_shm (send_cursor_pos x y w h v c) = m_shm c" "m_stride (send_cursor_pos x y w h v c) = m_stride c"
    "m_format (send_cursor_pos x y w h v c) = m_format c"
    by (simp_all add: send_cursor_pos_def try_send_def split: list.splits tx_ret.splits)
  then show "byte_wf (shm_geom (send_cursor_pos x y w h v c)) (m_shm (send_cursor_pos x y w h v c))"
    using a by (simp add: panel_ok_def vconn_ok_def shm_geom_def send_cursor_pos_keeps)
qed (auto simp: send_cursor_pos_def try_send_def split: list.splits tx_ret.splits)

lemma panel_ok_shadow:
  "panel_ok c \<Longrightarrow> length b = length (m_shadow c) \<Longrightarrow> panel_ok (c\<lparr>m_shadow := b\<rparr>)"
  by (simp add: panel_ok_def vconn_ok_def shm_geom_def shadow_geom_def byte_wf_def)

lemma device_update_ok:
  assumes "device_ok d" "small x" "small y" "small w" "small h" "0 \<le> w" "0 \<le> h" "w * h * 100 \<le> INT_MAX"
  shows "case device_update cm x y w h m d of
      Inl e \<Rightarrow> kernel_failure e
    | Inr d' \<Rightarrow> device_ok d' \<and> get_data d' = get_data d \<and> get_xres d' = get_xres d \<and> get_yres d' = get_yres d"
proof (cases d)
  case (Vncast c)
  then have c: "panel_ok c" using assms(1) by simp
  show ?thesis
  proof (cases "send_partial_update x y w h c")
    case (Inl e)
    then show ?thesis using send_partial_update_safe [OF c assms(2-)] Vncast by simp
  next
    case (Inr c')
    then show ?thesis using send_partial_update_safe [OF c assms(2-)] send_partial_update_keeps [OF Inr] Vncast
      by simp
  qed
next
  case (Appload a)
  then show ?thesis using assms(1) by (auto simp: al_set_mode_def Let_def)
qed

interpretation fb: panel device_ok get_data put_data get_xres get_yres "device_update cm"
  "\<lambda>x y. update_cursor x y True"
proof unfold_locales
  fix d
  assume a: "device_ok d"
  show "0 \<le> get_xres d \<and> get_xres d < 2 ^ 30 \<and> 0 \<le> get_yres d \<and> get_yres d < 2 ^ 30 \<and>
      get_yres d * (get_xres d * 2) \<le> int (length (get_data d))"
    using a panel_ok_size by (cases d) auto
next
  fix b d
  show "get_data (put_data b d) = b" "get_xres (put_data b d) = get_xres d" "get_yres (put_data b d) = get_yres d"
    by (cases d; simp)+
next
  fix d b
  show "device_ok d \<Longrightarrow> length b = length (get_data d) \<Longrightarrow> device_ok (put_data b d)"
    by (cases d) (auto intro: panel_ok_shadow)
next
  fix d x y w h m
  assume "device_ok d" "small x" "small y" "small w" "small h" "0 \<le> w" "0 \<le> h" "w * h * 100 \<le> INT_MAX"
  then show "case device_update cm x y w h m d of Inl e \<Rightarrow> kernel_failure e
     | Inr d' \<Rightarrow> device_ok d' \<and> get_data d' = get_data d \<and> get_xres d' = get_xres d \<and> get_yres d' = get_yres d"
    by (rule device_update_ok)
next
  fix d x y
  assume "device_ok d"
  then show "device_ok (update_cursor x y True d) \<and> get_data (update_cursor x y True d) = get_data d \<and>
     get_xres (update_cursor x y True d) = get_xres d \<and> get_yres (update_cursor x y True d) = get_yres d"
    by (cases d) (auto simp: send_cursor_pos_ok send_cursor_pos_keeps)
qed

text \<open>The component formats are those of RGB565: disjoint, and together all 16 bits.\<close>

lemma rgb565_formats:
  "cf_max red_format = 31" "cf_max green_format = 63" "cf_max blue_format = 31"
  "cf_offset blue_format + cf_length blue_format = cf_offset green_format"
  "cf_offset green_format + cf_length green_format = cf_offset red_format"
  "cf_offset red_format + cf_length red_format = bits_per_pixel"
  by (simp_all add: cf_max_def red_format_def green_format_def blue_format_def bits_per_pixel_def)

end
