(* ===== verification/Orientation.thy ===== *)
theory Orientation
  imports CText
begin

text \<open>
  Display orientations (\<open>src/src/orientation.hpp\<close>) and the accelerometer-driven orientation
  sensor (\<open>src/src/orientation_sensor.hpp\<close>, \<open>src/src/orientation_sensor.cpp\<close>). The sensor is a
  machine whose events are accelerometer samples; its notifications are shown to be the
  classified samples without the undecided ones and without repetitions.
\<close>

section \<open>Orientation names\<close>

datatype orientation = Portrait | LandscapeCW | InvertedPortrait | LandscapeCCW | Auto

definition orientation_from_string :: "string \<Rightarrow> orientation" where
  "orientation_from_string s =
     (if s = ''auto'' then Auto
      else if s = ''portrait'' then Portrait
      else if s = ''landscape'' then LandscapeCW
      else if s = ''landscape-cw'' then LandscapeCW
      else if s = ''landscape-ccw'' then LandscapeCCW
      else if s = ''inverted-landscape'' then LandscapeCCW
      else if s = ''inverted-portrait'' then InvertedPortrait
      else Auto)"

fun orientation_to_string :: "orientation \<Rightarrow> string" where
  "orientation_to_string Portrait = ''portrait''"
| "orientation_to_string LandscapeCW = ''landscape-cw''"
| "orientation_to_string LandscapeCCW = ''landscape-ccw''"
| "orientation_to_string InvertedPortrait = ''inverted-portrait''"
| "orientation_to_string Auto = ''auto''"

lemma orientation_from_to: "orientation_from_string (orientation_to_string d) = d"
  by (cases d) (simp_all add: orientation_from_string_def)

section \<open>Device orientation\<close>

datatype device_orientation =
  Unknown | PortraitUp | PortraitDown | LandscapeLeft | LandscapeRight

fun device_orientation_to_string :: "device_orientation \<Rightarrow> string" where
  "device_orientation_to_string PortraitUp = ''portrait-up''"
| "device_orientation_to_string PortraitDown = ''portrait-down''"
| "device_orientation_to_string LandscapeLeft = ''landscape-left''"
| "device_orientation_to_string LandscapeRight = ''landscape-right''"
| "device_orientation_to_string Unknown = ''unknown''"

text \<open>
  One accelerometer axis, read from its sysfs file: \<open>fs\<close> gives the text of the file, \<open>None\<close>
  when \<open>fopen\<close> fails. The main program has the same reader as a lambda.
\<close>

definition accel_path :: "char \<Rightarrow> string" where
  "accel_path axis = ''/sys/bus/iio/devices/iio:device0/in_accel_'' @ [axis] @ ''_raw''"

definition read_accel_axis :: "(string \<rightharpoonup> string) \<Rightarrow> char \<Rightarrow> int" where
  "read_accel_axis fs axis =
     (case fs (accel_path axis) of
        None \<Rightarrow> 0
      | Some txt \<Rightarrow> (case scan_int txt of None \<Rightarrow> 0 | Some (v, _) \<Rightarrow> v))"

definition kDominanceThreshold :: int where
  "kDominanceThreshold = 6000"

definition classify :: "int \<Rightarrow> int \<Rightarrow> int \<Rightarrow> device_orientation" where
  "classify x y z =
     (let ax = \<bar>x\<bar>; ay = \<bar>y\<bar>; az = \<bar>z\<bar> in
      if az > ax \<and> az > ay then Unknown
      else if ay > ax then
        (if ay < kDominanceThreshold then Unknown
         else if y > 0 then PortraitUp else PortraitDown)
      else
        (if ax < kDominanceThreshold then Unknown
         else if x > 0 then LandscapeLeft else LandscapeRight))"

definition parse_env :: "environment \<Rightarrow> string \<Rightarrow> orientation \<Rightarrow> orientation" where
  "parse_env env var fallback =
     (case env var of Some s \<Rightarrow> orientation_from_string s | None \<Rightarrow> fallback)"

fun map_device_to_blit :: "environment \<Rightarrow> device_orientation \<Rightarrow> orientation" where
  "map_device_to_blit env PortraitUp = parse_env env ''ORIENT_PORTRAIT_UP'' LandscapeCW"
| "map_device_to_blit env PortraitDown = parse_env env ''ORIENT_PORTRAIT_DOWN'' LandscapeCCW"
| "map_device_to_blit env LandscapeLeft = parse_env env ''ORIENT_LANDSCAPE_LEFT'' LandscapeCW"
| "map_device_to_blit env LandscapeRight = parse_env env ''ORIENT_LANDSCAPE_RIGHT'' LandscapeCCW"
| "map_device_to_blit env Unknown = Auto"

lemma classify_threshold:
  "classify x y z \<noteq> Unknown \<Longrightarrow> kDominanceThreshold \<le> max \<bar>x\<bar> \<bar>y\<bar> \<and> \<bar>z\<bar> \<le> max \<bar>x\<bar> \<bar>y\<bar>"
  by (auto simp: classify_def Let_def split: if_splits)

lemma classify_opposite:
  "classify x y z \<noteq> Unknown \<Longrightarrow> classify (- x) (- y) (- z) =
     (case classify x y z of PortraitUp \<Rightarrow> PortraitDown | PortraitDown \<Rightarrow> PortraitUp
      | LandscapeLeft \<Rightarrow> LandscapeRight | LandscapeRight \<Rightarrow> LandscapeLeft)"
  by (auto simp: classify_def Let_def kDominanceThreshold_def split: if_splits)

section \<open>The sensor thread\<close>

text \<open>
  The state the thread shares: the last decided orientation, the stop flag, whether a callback
  is installed, and the notifications it has sent, oldest first. One event is one pass of the
  loop of \<open>run\<close> over a sample of the three axes.
\<close>

record sensor =
  last :: device_orientation
  stop :: bool
  has_callback :: bool
  notified :: "device_orientation list"

definition sensor_init :: "bool \<Rightarrow> sensor" where
  "sensor_init cb = \<lparr>last = Unknown, stop = False, has_callback = cb, notified = []\<rparr>"

definition sensor_poll :: "sensor \<Rightarrow> int \<times> int \<times> int \<Rightarrow> sensor" where
  "sensor_poll s = (\<lambda>(x, y, z).
     if stop s then s
     else
       let now = classify x y z in
       if now \<noteq> Unknown then
         let prev = last s; s1 = s\<lparr>last := now\<rparr> in
         if now \<noteq> prev \<and> has_callback s then s1\<lparr>notified := notified s @ [now]\<rparr> else s1
       else s)"

definition sensor_run :: "sensor \<Rightarrow> (int \<times> int \<times> int) list \<Rightarrow> sensor" where
  "sensor_run s samples = foldl sensor_poll s samples"

definition sensor_stop :: "sensor \<Rightarrow> sensor" where
  "sensor_stop s = s\<lparr>stop := True\<rparr>"

definition decided :: "(int \<times> int \<times> int) list \<Rightarrow> device_orientation list" where
  "decided samples = filter (\<lambda>d. d \<noteq> Unknown) (map (\<lambda>(x, y, z). classify x y z) samples)"

text \<open>The last notification is the last decided orientation, and nothing is notified twice in a row.\<close>

definition sensor_inv :: "sensor \<Rightarrow> bool" where
  "sensor_inv s \<longleftrightarrow> (has_callback s \<longrightarrow>
     (if notified s = [] then last s = Unknown
      else last s = List.last (notified s) \<and> last s \<noteq> Unknown))"

interpretation sensor_sys: transition_system "sensor_init cb" "\<lambda>_ _. True" sensor_poll sensor_inv
  by unfold_locales
    (auto simp: sensor_inv_def sensor_init_def sensor_poll_def Let_def split: prod.splits if_splits)

lemma sensor_run_inv: "sensor_inv (sensor_run (sensor_init cb) samples)"
  using sensor_sys.run_inv by (simp add: sensor_run_def)

lemma remdups_adj_snoc:
  "remdups_adj (xs @ [x]) =
     (if xs \<noteq> [] \<and> List.last xs = x then remdups_adj xs else remdups_adj xs @ [x])"
  by (induction xs rule: remdups_adj.induct) auto

lemma last_remdups_adj_eq: "xs \<noteq> [] \<Longrightarrow> List.last (remdups_adj xs) = List.last xs"
  by (induction xs rule: remdups_adj.induct) auto

lemma sensor_run_notified:
  "stop (sensor_run (sensor_init True) samples) = False \<and>
   has_callback (sensor_run (sensor_init True) samples) \<and>
   notified (sensor_run (sensor_init True) samples) = remdups_adj (decided samples) \<and>
   last (sensor_run (sensor_init True) samples) =
     (if decided samples = [] then Unknown else List.last (decided samples))"
proof (induction samples rule: rev_induct)
  case Nil
  then show ?case by (simp add: sensor_run_def sensor_init_def decided_def)
next
  case (snoc p samples)
  obtain x y z where p: "p = (x, y, z)" by (cases p) auto
  let ?s = "sensor_run (sensor_init True) samples"
  have run: "sensor_run (sensor_init True) (samples @ [p]) = sensor_poll ?s p"
    by (simp add: sensor_run_def)
  have nz: "\<forall>d \<in> set (decided samples). d \<noteq> Unknown" by (auto simp: decided_def)
  then have lu: "decided samples \<noteq> [] \<Longrightarrow> List.last (decided samples) \<noteq> Unknown"
    using last_in_set by blast
  have dec: "decided (samples @ [p]) =
      (if classify x y z = Unknown then decided samples else decided samples @ [classify x y z])"
    by (simp add: decided_def p)
  show ?case unfolding run dec using snoc.IH lu
    by (auto simp: sensor_poll_def p Let_def remdups_adj_snoc)
qed

end
