(* ===== verification/AppScreen.thy ===== *)
theory AppScreen
  imports RmiocScreen Orientation
begin

text \<open>
  vnsee's screen (\<open>src/src/app/screen.hpp\<close>, \<open>src/src/app/screen.cpp\<close>): its configuration, the
  buffer the VNC library paints into, the rotated copy into the panel's buffer, the inverse
  transformation of touch points, the accumulation of dirty rectangles and the timing of
  repaints. Times are nanoseconds of the steady clock. The VNC library (libvncclient) is outside
  the repository: its client structure is the record \<open>rfb_client\<close>, its callbacks are the events
  of \<open>screen_event\<close>, and what it paints is arbitrary.
\<close>

section \<open>State\<close>

datatype repaint_modes = standard | fast

record rfb_client =
  rfb_bitsPerPixel :: nat
  rfb_depth :: nat
  rfb_redShift :: nat
  rfb_redMax :: u32
  rfb_greenShift :: nat
  rfb_greenMax :: u32
  rfb_blueShift :: nat
  rfb_blueMax :: u32
  encodingsString :: string
  compressLevel :: int
  qualityLevel :: int
  enableJPEG :: bool
  useRemoteCursor :: bool
  rfb_width :: int
  rfb_height :: int

record update_info =
  ui_x :: int
  ui_y :: int
  ui_w :: int
  ui_h :: int
  has_update :: bool

record screen =
  sc_device :: device
  vnc_client :: rfb_client
  repaint_mode :: repaint_modes
  standard_repaint_delay :: int
  fast_repaint_delay :: int
  standard_waveform_mode :: refresh_mode
  fast_waveform_mode :: refresh_mode
  requested :: orientation
  effective :: orientation
  src_buffer :: bytes
  src_width :: int
  src_height :: int
  bytesPerPixel :: nat
  update_info :: update_info
  last_repaint :: int

section \<open>Configuration\<close>

definition waveform_env :: "environment \<Rightarrow> int \<times> refresh_mode" where
  "waveform_env env =
     (case env ''VNSEE_WAVEFORM_MODE'' of
        None \<Rightarrow> (500, REFRESH_MODE_UI)
      | Some s \<Rightarrow>
          if s = ''FASTEST'' then (50, REFRESH_MODE_ANIMATE)
          else if s = ''FAST'' then (200, REFRESH_MODE_FAST)
          else if s = ''STANDARD'' then (500, REFRESH_MODE_UI)
          else if s = ''SLOW'' then (1000, REFRESH_MODE_CONTENT)
          else (500, REFRESH_MODE_UI))"

definition advertise_mono :: "environment \<Rightarrow> bool" where
  "advertise_mono env =
     (case env ''VNCAST_PREFER_MONO1'' of Some s \<Rightarrow> cstr_at s 0 = CHR ''1'' | None \<Rightarrow> False)"

definition encoding_env :: "environment \<Rightarrow> rfb_client \<Rightarrow> rfb_client" where
  "encoding_env env c =
     (case env ''VNSEE_ENCODING'' of
        Some e \<Rightarrow>
          if e = ''RAW'' then c\<lparr>encodingsString := ''raw''\<rparr>
          else if e = ''COPYRECT'' then c\<lparr>encodingsString := ''copyrect''\<rparr>
          else if e = ''TIGHT'' then c\<lparr>encodingsString := ''tight'', compressLevel := 9,
            enableJPEG := True, qualityLevel := 0\<rparr>
          else if e = ''HEXTILE'' then c\<lparr>encodingsString := ''hextile''\<rparr>
          else if e = ''ZLIB'' then c\<lparr>encodingsString := ''zlib'', compressLevel := 9\<rparr>
          else if e = ''ZLIBHEX'' then c\<lparr>encodingsString := ''zlibhex'', compressLevel := 9\<rparr>
          else if e = ''TRLE'' then c\<lparr>encodingsString := ''trle''\<rparr>
          else if e = ''ZRLE'' then c\<lparr>encodingsString := ''zrle''\<rparr>
          else if e = ''ZYWRLE'' then c\<lparr>encodingsString := ''zywrle'', qualityLevel := 0\<rparr>
          else if e = ''ULTRA'' then c\<lparr>encodingsString := ''ultra''\<rparr>
          else if e = ''ULTRAZIP'' then c\<lparr>encodingsString := ''ultrazip''\<rparr>
          else if e = ''CORRE'' then c\<lparr>encodingsString := ''corre''\<rparr>
          else if e = ''RRE'' then c\<lparr>encodingsString := ''rre''\<rparr>
          else c
      | None \<Rightarrow>
          c\<lparr>encodingsString :=
              (if advertise_mono env then ''rcastmono1z rcastmono1 copyrect tight zrle hextile raw''
               else ''copyrect tight zrle hextile raw'')\<rparr>)"

definition compress_env :: "environment \<Rightarrow> int" where
  "compress_env env =
     (case env ''VNCAST_COMPRESS_LEVEL'' of
        None \<Rightarrow> 0
      | Some s \<Rightarrow> let v = strtol s in if v \<ge> 0 \<and> v \<le> 9 then v else 0)"

definition pixel_format :: "rfb_client \<Rightarrow> rfb_client" where
  "pixel_format c = c\<lparr>rfb_bitsPerPixel := bits_per_pixel, rfb_depth := bits_per_pixel,
     rfb_redShift := cf_offset red_format, rfb_redMax := cf_max red_format,
     rfb_greenShift := cf_offset green_format, rfb_greenMax := cf_max green_format,
     rfb_blueShift := cf_offset blue_format, rfb_blueMax := cf_max blue_format\<rparr>"

definition screen_new :: "environment \<Rightarrow> device \<Rightarrow> rfb_client \<Rightarrow> orientation \<Rightarrow> screen" where
  "screen_new env dev vnc orient =
     (let (delay, wf) = waveform_env env;
          c1 = encoding_env env (pixel_format vnc);
          c2 = c1\<lparr>useRemoteCursor := True, compressLevel := compress_env env, qualityLevel := -1,
                  enableJPEG := False\<rparr> in
      \<lparr>sc_device = dev, vnc_client = c2,
       repaint_mode = (if is_vncast dev then fast else standard),
       standard_repaint_delay = delay, fast_repaint_delay = 16, standard_waveform_mode = wf,
       fast_waveform_mode = REFRESH_MODE_ANIMATE, requested = orient,
       effective = (if orient = Auto then Portrait else orient),
       src_buffer = [], src_width = 0, src_height = 0,
       bytesPerPixel = (bits_per_pixel + 7) div 8,
       update_info = \<lparr>ui_x = 0, ui_y = 0, ui_w = 0, ui_h = 0, has_update = False\<rparr>,
       last_repaint = 0\<rparr>)"

definition set_repaint_mode :: "repaint_modes \<Rightarrow> screen \<Rightarrow> screen" where
  "set_repaint_mode mode s = s\<lparr>repaint_mode := mode\<rparr>"

text \<open>The library calls \<open>create_framebuf\<close> when it knows the size of the desktop.\<close>

definition create_framebuf :: "screen \<Rightarrow> screen res" where
  "create_framebuf s =
     (let xres = get_xres (sc_device s); yres = get_yres (sc_device s);
          sw = rfb_width (vnc_client s); sh = rfb_height (vnc_client s) in
      if sw \<le> 0 \<or> sh \<le> 0
      then Inl (Runtime_error (''Invalid server resolution ('' @ show_int sw @ ''x'' @ show_int sh @ '')''))
      else
        Inr (s\<lparr>src_width := sw, src_height := sh,
               effective := (if requested s = Auto
                 then (if (yres > xres) \<noteq> (sh > sw) then LandscapeCCW else Portrait)
                 else effective s),
               src_buffer := replicate (nat sw * nat sh * bytesPerPixel s) 0\<rparr>))"

section \<open>The rotated copy\<close>

text \<open>One pixel of the source at byte offset \<open>so\<close>, clipped to the panel.\<close>

definition put_px :: "nat \<Rightarrow> int \<Rightarrow> int \<Rightarrow> bytes \<Rightarrow> int \<Rightarrow> int \<Rightarrow> int \<Rightarrow> bytes \<Rightarrow> bytes res" where
  "put_px bpp panel_w panel_h src so dst_col dst_row dst =
     (if dst_col < 0 \<or> panel_w \<le> dst_col then Inr dst
      else if dst_row < 0 \<or> panel_h \<le> dst_row then Inr dst
      else memcpy dst ((dst_row * panel_w + dst_col) * int bpp) src so bpp)"

definition final_clamp :: "int \<Rightarrow> int \<Rightarrow> int \<times> int \<times> int \<times> int \<Rightarrow> int \<times> int \<times> int \<times> int" where
  "final_clamp panel_w panel_h = (\<lambda>(dx, dy, dw, dh).
     let (dx, dw) = (if dx < 0 then (0, dw + dx) else (dx, dw));
         (dy, dh) = (if dy < 0 then (0, dh + dy) else (dy, dh));
         dw = (if dx + dw > panel_w then panel_w - dx else dw);
         dh = (if dy + dh > panel_h then panel_h - dy else dh) in
     (dx, dy, max 0 dw, max 0 dh))"

text \<open>
  The switch over the orientation, after the clamps: the filled panel buffer and the rectangle
  that was touched. After the clamps \<open>0 \<le> sx\<close>, \<open>sx + sw \<le> src_w\<close> (and likewise for rows), so
  the remaining \<open>int\<close> arithmetic stays between \<open>- src\<close> and \<open>panel\<close> and cannot overflow.
\<close>

definition blit_orient ::
  "orientation \<Rightarrow> nat \<Rightarrow> int \<Rightarrow> int \<Rightarrow> int \<Rightarrow> int \<Rightarrow> bytes \<Rightarrow> int \<Rightarrow> int \<Rightarrow> int \<Rightarrow> int \<Rightarrow> bytes \<Rightarrow>
   (bytes \<times> int \<times> int \<times> int \<times> int) res" where
  "blit_orient orient bpp src_w src_h panel_w panel_h src sx sy sw sh dst =
     (let clamped = (\<lambda>d r. Inr (d, final_clamp panel_w panel_h r));
          B = int bpp;
          each = (\<lambda>f. for_upto (nat sh) (\<lambda>y. for_upto (nat sw) (\<lambda>x. f (sx + int x) (sy + int y))) dst) in
      case orient of
        InvertedPortrait \<Rightarrow>
          bindE (each (\<lambda>src_col src_row.
              put_px bpp panel_w panel_h src ((src_row * src_w + src_col) * B)
                (src_w - 1 - src_col) (src_h - 1 - src_row)))
            (\<lambda>d. clamped d (src_w - sx - sw, src_h - sy - sh, sw, sh))
      | LandscapeCW \<Rightarrow>
          bindE (each (\<lambda>src_col src_row.
              put_px bpp panel_w panel_h src (src_row * src_w * B + src_col * B)
                (src_h - 1 - src_row) src_col))
            (\<lambda>d. clamped d (src_h - sy - sh, sx, sh, sw))
      | LandscapeCCW \<Rightarrow>
          bindE (each (\<lambda>src_col src_row.
              put_px bpp panel_w panel_h src (src_row * src_w * B + src_col * B)
                src_row (src_w - 1 - src_col)))
            (\<lambda>d. clamped d (sy, src_w - sx - sw, sh, sw))
      | _ \<Rightarrow> \<comment> \<open>\<open>Portrait\<close>, \<open>Auto\<close>\<close>
          (let copy_w = min sw (panel_w - sx); copy_h = min sh (panel_h - sy) in
           if copy_w \<le> 0 \<or> copy_h \<le> 0 then Inr (dst, 0, 0, 0, 0)
           else
             bindE (for_upto (nat copy_h) (\<lambda>y d.
                 memcpy d (((sy + int y) * panel_w + sx) * B) src (((sy + int y) * src_w + sx) * B)
                   (nat copy_w * bpp)) dst)
               (\<lambda>d. clamped d (sx, sy, copy_w, copy_h))))"

definition blit_rotated ::
  "int \<Rightarrow> int \<Rightarrow> int \<Rightarrow> int \<Rightarrow> screen \<Rightarrow> (screen \<times> int \<times> int \<times> int \<times> int) res" where
  "blit_rotated sx0 sy0 sw0 sh0 s =
     bindE (clamp_low sx0 sw0) (\<lambda>(sx, sw1).
     bindE (clamp_low sy0 sh0) (\<lambda>(sy, sh1).
     bindE (clamp_high sx sw1 (src_width s)) (\<lambda>sw.
     bindE (clamp_high sy sh1 (src_height s)) (\<lambda>sh.
       if sw \<le> 0 \<or> sh \<le> 0 then Inr (s, 0, 0, 0, 0)
       else
         bindE (blit_orient (effective s) (bytesPerPixel s) (src_width s) (src_height s)
             (get_xres (sc_device s)) (get_yres (sc_device s)) (src_buffer s) sx sy sw sh
             (get_data (sc_device s)))
           (\<lambda>(d, r). Inr (s\<lparr>sc_device := put_data d (sc_device s)\<rparr>, r))))))"

text \<open>The inverse transformation, for touch points.\<close>

definition transform_input :: "screen \<Rightarrow> int \<times> int \<Rightarrow> int \<times> int" where
  "transform_input s = (\<lambda>(x, y).
     if src_width s \<le> 0 \<or> src_height s \<le> 0 then (x, y)
     else case effective s of
            InvertedPortrait \<Rightarrow> (src_width s - 1 - x, src_height s - 1 - y)
          | LandscapeCW \<Rightarrow> (y, src_height s - 1 - x)
          | LandscapeCCW \<Rightarrow> (src_width s - 1 - y, x)
          | _ \<Rightarrow> (x, y))"

section \<open>Repaints and updates\<close>

definition repaint :: "(al_call list \<Rightarrow> refresh_mode) \<Rightarrow> int \<Rightarrow> screen \<Rightarrow> screen res" where
  "repaint cm now s =
     (let u = update_info s;
          s1 = (if repaint_mode s = standard then s\<lparr>update_info := u\<lparr>has_update := False\<rparr>\<rparr> else s);
          s2 = s1\<lparr>last_repaint := now\<rparr> in
      bindE (blit_rotated (ui_x u) (ui_y u) (ui_w u) (ui_h u) s2) (\<lambda>(s3, dx, dy, dw, dh).
      if dw \<le> 0 \<or> dh \<le> 0 then Inr s3
      else bindE (device_update cm dx dy dw dh
               (if repaint_mode s = standard then standard_waveform_mode s else fast_waveform_mode s)
               (sc_device s3)) (\<lambda>d. Inr (s3\<lparr>sc_device := d\<rparr>))))"

record event_loop_status =
  quit :: bool
  timeout :: int

definition ns_per_ms :: int where "ns_per_ms = 1000000"

definition event_loop :: "(al_call list \<Rightarrow> refresh_mode) \<Rightarrow> int \<Rightarrow> screen \<Rightarrow> (screen \<times> event_loop_status) res" where
  "event_loop cm now s =
     (if has_update (update_info s) then
        let next_update_time = last_repaint s + ns_per_ms *
              (if repaint_mode s = standard then standard_repaint_delay s else fast_repaint_delay s);
            wait_time = cdiv (next_update_time - now) ns_per_ms in
        if wait_time \<le> 0 then bindE (repaint cm now s) (\<lambda>s'. Inr (s', \<lparr>quit = False, timeout = -1\<rparr>))
        else Inr (s, \<lparr>quit = False, timeout = wait_time\<rparr>)
      else Inr (s, \<lparr>quit = False, timeout = -1\<rparr>))"

definition handle_cursor_pos :: "int \<Rightarrow> int \<Rightarrow> screen \<Rightarrow> screen" where
  "handle_cursor_pos x y s = s\<lparr>sc_device := update_cursor x y True (sc_device s)\<rparr>"

text \<open>
  The library reports a painted rectangle. (The function also keeps statistics for its log in
  static variables, which nothing else reads.)
\<close>

definition commit_updates ::
  "(al_call list \<Rightarrow> refresh_mode) \<Rightarrow> int \<Rightarrow> int \<Rightarrow> int \<Rightarrow> int \<Rightarrow> screen \<Rightarrow> screen res" where
  "commit_updates cm x y w h s =
     (let u = update_info s; fresh = \<lparr>ui_x = x, ui_y = y, ui_w = w, ui_h = h, has_update = True\<rparr> in
      if \<not> has_update u then Inr (s\<lparr>update_info := fresh\<rparr>)
      else
        bindE (ckint (ui_w u * ui_h u)) (\<lambda>existing_area.
        bindE (ckint (w * h)) (\<lambda>new_area.
        bindE (ckint (x + w)) (\<lambda>xw.
        bindE (ckint (ui_x u + ui_w u)) (\<lambda>uxw.
        bindE (ckint (y + h)) (\<lambda>yh.
        bindE (ckint (ui_y u + ui_h u)) (\<lambda>uyh.
        let left_x = min x (ui_x u); top_y = min y (ui_y u);
            right_x = max xw uxw; bottom_y = max yh uyh in
        bindE (ckint (right_x - left_x)) (\<lambda>merged_w.
        bindE (ckint (bottom_y - top_y)) (\<lambda>merged_h.
          if merged_w * merged_h > (existing_area + new_area) * 2 then
            bindE (device_update cm (ui_x u) (ui_y u) (ui_w u) (ui_h u)
                (if repaint_mode s = standard then standard_waveform_mode s else fast_waveform_mode s)
                (sc_device s)) (\<lambda>d. Inr (s\<lparr>sc_device := d, update_info := fresh\<rparr>))
          else Inr (s\<lparr>update_info := u\<lparr>ui_x := left_x, ui_y := top_y, ui_w := merged_w,
                                     ui_h := merged_h\<rparr>\<rparr>))))))))))"

definition set_effective_orientation :: "orientation \<Rightarrow> screen \<Rightarrow> screen" where
  "set_effective_orientation orient s =
     (if orient = Auto then s
      else
        let prev = effective s; s1 = s\<lparr>effective := orient\<rparr> in
        if prev = orient then s1
        else if src_width s > 0 \<and> src_height s > 0
        then s1\<lparr>update_info := \<lparr>ui_x = 0, ui_y = 0, ui_w = src_width s, ui_h = src_height s,
                               has_update = True\<rparr>\<rparr>
        else s1)"

text \<open>
  A repaint in its two halves: the flag and the time, then the copy and the announcement, which read
  the rectangle and the mode again. Other threads can run between them.
\<close>

definition repaint_begin :: "int \<Rightarrow> screen \<Rightarrow> screen" where
  "repaint_begin now s =
     (if repaint_mode s = standard then s\<lparr>update_info := (update_info s)\<lparr>has_update := False\<rparr>\<rparr> else s)
       \<lparr>last_repaint := now\<rparr>"

definition repaint_copy :: "(al_call list \<Rightarrow> refresh_mode) \<Rightarrow> screen \<Rightarrow> screen res" where
  "repaint_copy cm s =
     (let u = update_info s in
      bindE (blit_rotated (ui_x u) (ui_y u) (ui_w u) (ui_h u) s) (\<lambda>(s1, dx, dy, dw, dh).
      if dw \<le> 0 \<or> dh \<le> 0 then Inr s1
      else bindE (device_update cm dx dy dw dh
               (if repaint_mode s1 = standard then standard_waveform_mode s1 else fast_waveform_mode s1)
               (sc_device s1)) (\<lambda>d. Inr (s1\<lparr>sc_device := d\<rparr>))))"

section \<open>What the rotated copy does\<close>

text \<open>A packed pixel buffer, and the rotations as maps between source and panel positions.\<close>

definition pix_geom :: "nat \<Rightarrow> int \<Rightarrow> int \<Rightarrow> geom" where
  "pix_geom bpp w h = \<lparr>g_bpp = bpp, g_stride = w * int bpp, g_w = w, g_h = h\<rparr>"

definition panel_of :: "orientation \<Rightarrow> int \<Rightarrow> int \<Rightarrow> int \<times> int \<Rightarrow> int \<times> int" where
  "panel_of orient w h = (\<lambda>(x, y).
     case orient of
       InvertedPortrait \<Rightarrow> (w - 1 - x, h - 1 - y)
     | LandscapeCW \<Rightarrow> (h - 1 - y, x)
     | LandscapeCCW \<Rightarrow> (y, w - 1 - x)
     | _ \<Rightarrow> (x, y))"

definition source_of :: "orientation \<Rightarrow> int \<Rightarrow> int \<Rightarrow> int \<times> int \<Rightarrow> int \<times> int" where
  "source_of orient w h = (\<lambda>(c, r).
     case orient of
       InvertedPortrait \<Rightarrow> (w - 1 - c, h - 1 - r)
     | LandscapeCW \<Rightarrow> (r, h - 1 - c)
     | LandscapeCCW \<Rightarrow> (w - 1 - r, c)
     | _ \<Rightarrow> (c, r))"

lemma source_of_panel_of [simp]: "source_of o' w h (panel_of o' w h p) = p"
  by (cases p; cases o') (simp_all add: source_of_def panel_of_def)

lemma panel_of_source_of [simp]: "panel_of o' w h (source_of o' w h p) = p"
  by (cases p; cases o') (simp_all add: source_of_def panel_of_def)

definition in_rect :: "int \<Rightarrow> int \<Rightarrow> int \<Rightarrow> int \<Rightarrow> int \<times> int \<Rightarrow> bool" where
  "in_rect x y w h = (\<lambda>(px, py). x \<le> px \<and> px < x + w \<and> y \<le> py \<and> py < y + h)"

lemma put_px_clipped:
  assumes "byte_wf (pix_geom bpp w h) src" "0 \<le> x" "x < w" "0 \<le> y" "y < h" "so = (y * w + x) * int bpp"
  shows "put_px bpp pw ph src so c r =
     br.put_clipped (pix_geom bpp pw ph) c r (byte_get (pix_geom bpp w h) src x y)"
proof
  fix dst
  have so: "so = byte_off (pix_geom bpp w h) x y"
    by (simp add: assms(6) byte_off_def pix_geom_def algebra_simps)
  have "0 \<le> byte_off (pix_geom bpp w h) x y" "byte_off (pix_geom bpp w h) x y + int bpp \<le> int (length src)"
    using byte_off_bounds [OF assms(1), of x y] assms(2-5) by (simp_all add: pix_geom_def)
  then have "load_bytes src so bpp = Inr (byte_get (pix_geom bpp w h) src x y)"
    by (simp add: so load_bytes_def byte_get_def) (simp add: pix_geom_def)
  then show "put_px bpp pw ph src so c r dst =
     br.put_clipped (pix_geom bpp pw ph) c r (byte_get (pix_geom bpp w h) src x y) dst"
    by (auto simp: put_px_def memcpy_def br.put_clipped_def br.inside_def byte_put_def byte_off_def
        pix_geom_def algebra_simps)
qed

lemma byte_get_valid:
  assumes "byte_wf g b" "0 \<le> x" "x < g_w g" "0 \<le> y" "y < g_h g" "g_bpp g' = g_bpp g"
  shows "byte_valid g' (byte_get g b x y)"
  using byte_off_bounds [OF assms(1-5)] assms(6) by (auto simp: byte_valid_def byte_get_def)

lemma each_painted:
  assumes src: "byte_wf (pix_geom bpp w h) src" and dst: "byte_wf (pix_geom bpp pw ph) dst"
    and b: "0 \<le> sx" "0 \<le> sy" "sx + sw \<le> w" "sy + sh \<le> h"
    and inv: "\<And>x y c r. (col x y = c \<and> row x y = r) \<longleftrightarrow> (ix c r = x \<and> iy c r = y)"
    and f: "\<And>x y. f x y = put_px bpp pw ph src ((y * w + x) * int bpp) (col x y) (row x y)"
  shows "\<exists>d. for_upto (nat sh) (\<lambda>y. for_upto (nat sw) (\<lambda>x. f (sx + int x) (sy + int y))) dst = Inr d \<and>
     br.painted (pix_geom bpp pw ph) (\<lambda>c r. in_rect sx sy sw sh (ix c r, iy c r))
       (\<lambda>c r. byte_get (pix_geom bpp w h) src (ix c r) (iy c r)) dst d"
proof -
  let ?g = "pix_geom bpp pw ph" and ?px = "\<lambda>i j. byte_get (pix_geom bpp w h) src (i + sx) (j + sy)"
  have loops: "for_upto (nat sh) (\<lambda>y. for_upto (nat sw) (\<lambda>x. f (sx + int x) (sy + int y))) dst =
    for_upto (nat sh) (\<lambda>y. for_upto (nat sw) (\<lambda>x.
      br.put_clipped ?g (col (int x + sx) (int y + sy)) (row (int x + sx) (int y + sy)) (?px (int x) (int y)))) dst"
  proof (rule for_upto_cong, rule ext, rule for_upto_cong)
    fix y x d assume "y < nat sh" "x < nat sw"
    then have "0 \<le> sx + int x" "sx + int x < w" "0 \<le> sy + int y" "sy + int y < h" using b by linarith+
    from put_px_clipped [OF src this refl] show "f (sx + int x) (sy + int y) =
      br.put_clipped ?g (col (int x + sx) (int y + sy)) (row (int x + sx) (int y + sy)) (?px (int x) (int y))"
      by (simp add: f add.commute)
  qed
  have v: "byte_valid ?g (?px i j)" if "0 \<le> i" "i < int (nat sw)" "0 \<le> j" "j < int (nat sh)" for i j
    by (rule byte_get_valid [OF src]) (use that b in \<open>auto simp: pix_geom_def split: if_splits\<close>)
  have inv': "(col (i + sx) (j + sy) = c \<and> row (i + sx) (j + sy) = r) \<longleftrightarrow> (ix c r - sx = i \<and> iy c r - sy = j)"
    for i j c r using inv [of "i + sx" "j + sy" c r] by auto
  from br.blit [where g = ?g and b = dst and w = "nat sw" and h = "nat sh" and px = ?px
      and col = "\<lambda>i j. col (i + sx) (j + sy)" and row = "\<lambda>i j. row (i + sx) (j + sy)"
      and ix = "\<lambda>c r. ix c r - sx" and iy = "\<lambda>c r. iy c r - sy", OF dst inv' v]
  obtain d where d: "for_upto (nat sh) (\<lambda>y. for_upto (nat sw) (\<lambda>x.
      br.put_clipped ?g (col (int x + sx) (int y + sy)) (row (int x + sx) (int y + sy)) (?px (int x) (int y)))) dst = Inr d"
    "br.painted ?g (\<lambda>c r. 0 \<le> iy c r - sy \<and> iy c r - sy < int (nat sh) \<and> 0 \<le> ix c r - sx \<and> ix c r - sx < int (nat sw))
       (\<lambda>c r. byte_get (pix_geom bpp w h) src (ix c r - sx + sx) (iy c r - sy + sy)) dst d" by blast
  have "br.painted ?g (\<lambda>c r. in_rect sx sy sw sh (ix c r, iy c r))
       (\<lambda>c r. byte_get (pix_geom bpp w h) src (ix c r) (iy c r)) dst d"
    by (rule br.painted_cong [OF d(2) [unfolded diff_add_cancel]]) (auto simp: in_rect_def)
  with d(1) show ?thesis unfolding loops by blast
qed

text \<open>The identity orientation copies row by row; a row is a loop of pixels.\<close>

lemma row_in_buffer:
  assumes "byte_wf (pix_geom bpp W H) buf" "0 \<le> y" "y < H" "0 \<le> sx" "0 < cw" "sx + cw \<le> W"
  shows "0 \<le> (y * W + sx) * int bpp" "(y * W + sx) * int bpp + int (nat cw * bpp) \<le> int (length buf)"
proof -
  have "0 \<le> byte_off (pix_geom bpp W H) sx y"
    using byte_off_bounds [OF assms(1), of sx y] assms by (simp add: pix_geom_def)
  then show "0 \<le> (y * W + sx) * int bpp" by (simp add: byte_off_def pix_geom_def algebra_simps)
  have "byte_off (pix_geom bpp W H) (sx + cw - 1) y + int bpp \<le> int (length buf)"
    using byte_off_bounds(2) [OF assms(1), of "sx + cw - 1" y] assms by (simp add: pix_geom_def)
  then show "(y * W + sx) * int bpp + int (nat cw * bpp) \<le> int (length buf)"
    using assms by (simp add: byte_off_def pix_geom_def algebra_simps)
qed

lemma row_as_pixels:
  assumes src: "byte_wf (pix_geom bpp w h) src" and d: "byte_wf (pix_geom bpp pw ph) d"
    and y: "0 \<le> y" "y < h" "y < ph" and b: "0 \<le> sx" "0 < cw" "sx + cw \<le> w" "sx + cw \<le> pw"
  shows "memcpy d ((y * pw + sx) * int bpp) src ((y * w + sx) * int bpp) (nat cw * bpp) =
    for_upto (nat cw) (\<lambda>x. br.put_clipped (pix_geom bpp pw ph) (int x + sx) y (byte_get (pix_geom bpp w h) src (int x + sx) y)) d"
  unfolding memcpy_as_loop [OF row_in_buffer [OF d y(1,3) b(1,2,4)] row_in_buffer [OF src y(1,2) b(1-3)]]
proof (rule for_upto_cong)
  fix x assume x: "x < nat cw"
  then have bx: "0 \<le> sx + int x" "sx + int x < w" "sx + int x < pw" using b by linarith+
  show "(\<lambda>b. memcpy b ((y * pw + sx) * int bpp + int x * int bpp) src ((y * w + sx) * int bpp + int x * int bpp) bpp) =
    br.put_clipped (pix_geom bpp pw ph) (int x + sx) y (byte_get (pix_geom bpp w h) src (int x + sx) y)"
    using put_px_clipped [OF src bx(1,2) y(1,2) refl, of pw ph "sx + int x" y] bx y
    by (auto simp: put_px_def fun_eq_iff algebra_simps)
qed

lemma rows_painted:
  assumes src: "byte_wf (pix_geom bpp w h) src" and dst: "byte_wf (pix_geom bpp pw ph) dst"
    and b: "0 \<le> sx" "0 \<le> sy" "sx + cw \<le> w" "sy + ch \<le> h" "sx + cw \<le> pw" "sy + ch \<le> ph" "0 < cw" "0 < ch"
  shows "\<exists>d. for_upto (nat ch) (\<lambda>y d.
        memcpy d (((sy + int y) * pw + sx) * int bpp) src (((sy + int y) * w + sx) * int bpp) (nat cw * bpp)) dst = Inr d \<and>
     br.painted (pix_geom bpp pw ph) (\<lambda>c r. in_rect sx sy cw ch (c, r))
       (\<lambda>c r. byte_get (pix_geom bpp w h) src c r) dst d"
proof -
  let ?g = "pix_geom bpp pw ph" and ?px = "\<lambda>i j. byte_get (pix_geom bpp w h) src (i + sx) (j + sy)"
  let ?P = "\<lambda>j d. br.painted ?g (\<lambda>c r. 0 \<le> r - sy \<and> r - sy < int j \<and> 0 \<le> c - sx \<and> c - sx < cw)
       (\<lambda>c r. ?px (c - sx) (r - sy)) dst d"
  have "\<exists>d. for_upto (nat ch) (\<lambda>y d.
        memcpy d (((sy + int y) * pw + sx) * int bpp) src (((sy + int y) * w + sx) * int bpp) (nat cw * bpp)) dst = Inr d \<and>
     ?P (nat ch) d"
  proof (rule for_upto_invariant [where P = ?P])
    show "?P 0 dst" by (rule br.painted_cong [OF br.painted_none [OF dst]]) auto
  next
    fix j d assume j: "j < nat ch" and P: "?P j d"
    let ?y = "sy + int j"
    have y: "0 \<le> ?y" "?y < h" "?y < ph" using j b by linarith+
    have wfd: "byte_wf ?g d" using P by (simp add: br.painted_def)
    have row: "memcpy d ((?y * pw + sx) * int bpp) src ((?y * w + sx) * int bpp) (nat cw * bpp) =
      for_upto (nat cw) (\<lambda>x. br.put_clipped ?g (int x + sx) (int j + sy) (?px (int x) (int j))) d"
      using row_as_pixels [OF src wfd y b(1,7,3,5)] by (simp add: add.commute)
    have inv: "(i + sx = c \<and> int j + sy = r) = (c - sx = i \<and> r - sy = int j)" for i c r by auto
    have v: "byte_valid ?g (?px i (int j))" if "0 \<le> i" "i < int (nat cw)" for i
      by (rule byte_get_valid [OF src]) (use that b y in \<open>auto simp: pix_geom_def\<close>)
    from br.blit_row [where g = ?g and px = ?px and col = "\<lambda>i j. i + sx" and row = "\<lambda>i j. j + sy"
        and ix = "\<lambda>c r. c - sx" and iy = "\<lambda>c r. r - sy" and y = "int j" and w = "nat cw", OF P inv v]
    obtain d' where d': "for_upto (nat cw) (\<lambda>x. br.put_clipped ?g (int x + sx) (int j + sy) (?px (int x) (int j))) d = Inr d'"
      "br.painted ?g (\<lambda>c r. (0 \<le> r - sy \<and> r - sy < int j \<and> 0 \<le> c - sx \<and> c - sx < cw) \<or>
         (r - sy = int j \<and> 0 \<le> c - sx \<and> c - sx < int (nat cw))) (\<lambda>c r. ?px (c - sx) (r - sy)) dst d'" by blast
    have "?P (Suc j) d'" by (rule br.painted_cong [OF d'(2)]) (use b in auto)
    then show "\<exists>s'. memcpy d ((?y * pw + sx) * int bpp) src ((?y * w + sx) * int bpp) (nat cw * bpp) = Inr s' \<and> ?P (Suc j) s'"
      unfolding row using d'(1) by blast
  qed
  then obtain d where d: "for_upto (nat ch) (\<lambda>y d.
        memcpy d (((sy + int y) * pw + sx) * int bpp) src (((sy + int y) * w + sx) * int bpp) (nat cw * bpp)) dst = Inr d"
    "?P (nat ch) d" by blast
  have "br.painted ?g (\<lambda>c r. in_rect sx sy cw ch (c, r)) (\<lambda>c r. byte_get (pix_geom bpp w h) src c r) dst d"
    by (rule br.painted_cong [OF d(2) [unfolded diff_add_cancel]]) (use b in \<open>auto simp: in_rect_def\<close>)
  with d(1) show ?thesis by blast
qed

text \<open>The copy never changes the size of the panel buffer.\<close>

lemma for_upto_length:
  assumes "for_upto n f b = Inr b'" "\<And>i b b'. f i b = Inr b' \<Longrightarrow> length b' = length b"
  shows "length b' = length b"
  using assms(1)
proof (induction n arbitrary: b')
  case (Suc n)
  then show ?case using assms(2) by (auto simp: res_simps)
qed simp

lemma put_px_length: "put_px bpp pw ph src so c r dst = Inr d \<Longrightarrow> length d = length dst"
  by (auto simp: put_px_def memcpy_def res_simps dest: store_bytes_length split: if_splits)

lemma each_length:
  assumes "for_upto m (\<lambda>y. for_upto n (\<lambda>x. f (sx + int x) (sy + int y))) dst = Inr d"
    and "\<And>x y. f x y = put_px bpp pw ph src (so x y) (col x y) (row x y)"
  shows "length d = length dst"
  using assms(1)
proof (rule for_upto_length)
  show "length b' = length b" if "for_upto n (\<lambda>x. f (sx + int x) (sy + int i)) b = Inr b'" for i b b'
    using that by (rule for_upto_length) (auto simp: assms(2) intro: put_px_length)
qed

text \<open>The rectangle returned holds exactly the panel cells whose source lies in the rectangle.\<close>

definition touched :: "orientation \<Rightarrow> int \<Rightarrow> int \<Rightarrow> int \<Rightarrow> int \<Rightarrow> int \<times> int \<times> int \<times> int \<Rightarrow> int \<Rightarrow> int \<Rightarrow> int \<Rightarrow> int \<Rightarrow> bool" where
  "touched orient w h pw ph = (\<lambda>(dx, dy, dw, dh) sx sy sw sh.
     0 \<le> dx \<and> 0 \<le> dy \<and> 0 \<le> dw \<and> 0 \<le> dh \<and> dw \<le> max sw sh \<and> dh \<le> max sw sh \<and> (0 < dw \<longrightarrow> dx + dw \<le> pw) \<and> (0 < dh \<longrightarrow> dy + dh \<le> ph) \<and>
     (\<forall>c r. 0 \<le> c \<and> c < pw \<and> 0 \<le> r \<and> r < ph \<longrightarrow>
        in_rect dx dy dw dh (c, r) = in_rect sx sy sw sh (source_of orient w h (c, r))))"

lemma touched_clamp:
  assumes "0 \<le> dx0" "0 \<le> dy0" "0 < dw0" "0 < dh0" "dw0 \<le> max sw sh" "dh0 \<le> max sw sh"
    and "\<And>c r. in_rect dx0 dy0 dw0 dh0 (c, r) = in_rect sx sy sw sh (source_of orient w h (c, r))"
  shows "touched orient w h pw ph (final_clamp pw ph (dx0, dy0, dw0, dh0)) sx sy sw sh"
proof -
  have e: "final_clamp pw ph (dx0, dy0, dw0, dh0) = (dx0, dy0, max 0 (min dw0 (pw - dx0)), max 0 (min dh0 (ph - dy0)))"
    using assms(1-4) by (auto simp: final_clamp_def Let_def min_def max_def)
  have "in_rect dx0 dy0 (max 0 (min dw0 (pw - dx0))) (max 0 (min dh0 (ph - dy0))) (c, r) = in_rect dx0 dy0 dw0 dh0 (c, r)"
    if "c < pw" "r < ph" for c r
    using that by (auto simp: in_rect_def)
  then show ?thesis unfolding e touched_def using assms by (auto simp: max_def min_def)
qed

text \<open>What a copy of the rectangle \<open>sx, sy, sw, sh\<close> into \<open>dst\<close> leaves, and the rectangle it returns.\<close>

definition copied_rect ::
  "orientation \<Rightarrow> nat \<Rightarrow> int \<Rightarrow> int \<Rightarrow> int \<Rightarrow> int \<Rightarrow> bytes \<Rightarrow> int \<Rightarrow> int \<Rightarrow> int \<Rightarrow> int \<Rightarrow> bytes \<Rightarrow>
   bytes \<times> int \<times> int \<times> int \<times> int \<Rightarrow> bool" where
  "copied_rect orient bpp w h pw ph src sx sy sw sh dst = (\<lambda>(d, R). length d = length dst \<and>
     touched orient w h pw ph R sx sy sw sh \<and>
     br.painted (pix_geom bpp pw ph) (\<lambda>c r. in_rect sx sy sw sh (source_of orient w h (c, r)))
       (\<lambda>c r. case source_of orient w h (c, r) of (x, y) \<Rightarrow> byte_get (pix_geom bpp w h) src x y) dst d)"

lemma rotated_copied:
  assumes src: "byte_wf (pix_geom bpp w h) src" and dst: "byte_wf (pix_geom bpp pw ph) dst"
    and b: "0 \<le> sx" "0 \<le> sy" "sx + sw \<le> w" "sy + sh \<le> h"
    and f: "\<And>x y. f x y = put_px bpp pw ph src ((y * w + x) * int bpp)
        (fst (panel_of orient w h (x, y))) (snd (panel_of orient w h (x, y)))"
    and R: "0 \<le> dx" "0 \<le> dy" "0 < dw" "0 < dh" "dw \<le> max sw sh" "dh \<le> max sw sh"
      "\<And>c r. in_rect dx dy dw dh (c, r) = in_rect sx sy sw sh (source_of orient w h (c, r))"
  shows "\<exists>t. bindE (for_upto (nat sh) (\<lambda>y. for_upto (nat sw) (\<lambda>x. f (sx + int x) (sy + int y))) dst)
       (\<lambda>d. Inr (d, final_clamp pw ph (dx, dy, dw, dh))) = Inr t \<and>
     copied_rect orient bpp w h pw ph src sx sy sw sh dst t"
proof -
  have inv: "(fst (panel_of orient w h (x, y)) = c \<and> snd (panel_of orient w h (x, y)) = r) \<longleftrightarrow>
      (fst (source_of orient w h (c, r)) = x \<and> snd (source_of orient w h (c, r)) = y)" for x y c r
    by (cases orient) (auto simp: panel_of_def source_of_def)
  from each_painted [OF src dst b, where f = f and col = "\<lambda>x y. fst (panel_of orient w h (x, y))"
      and row = "\<lambda>x y. snd (panel_of orient w h (x, y))" and ix = "\<lambda>c r. fst (source_of orient w h (c, r))"
      and iy = "\<lambda>c r. snd (source_of orient w h (c, r))", OF inv f]
  obtain d where d: "for_upto (nat sh) (\<lambda>y. for_upto (nat sw) (\<lambda>x. f (sx + int x) (sy + int y))) dst = Inr d"
    "br.painted (pix_geom bpp pw ph) (\<lambda>c r. in_rect sx sy sw sh (fst (source_of orient w h (c, r)), snd (source_of orient w h (c, r))))
     (\<lambda>c r. byte_get (pix_geom bpp w h) src (fst (source_of orient w h (c, r))) (snd (source_of orient w h (c, r)))) dst d"
    by blast
  with each_length [OF d(1) f] touched_clamp [OF R] show ?thesis
    by (auto simp: copied_rect_def case_prod_unfold)
qed

lemma upright_copied:
  assumes src: "byte_wf (pix_geom bpp w h) src" and dst: "byte_wf (pix_geom bpp pw ph) dst"
    and b: "0 \<le> sx" "0 \<le> sy" "sx + sw \<le> w" "sy + sh \<le> h" "0 < sw" "0 < sh"
  shows "\<exists>t. blit_orient Portrait bpp w h pw ph src sx sy sw sh dst = Inr t \<and>
     copied_rect Portrait bpp w h pw ph src sx sy sw sh dst t"
proof (cases "min sw (pw - sx) \<le> 0 \<or> min sh (ph - sy) \<le> 0")
  case True
  have "br.painted (pix_geom bpp pw ph) (\<lambda>c r. in_rect sx sy sw sh (c, r))
     (\<lambda>c r. byte_get (pix_geom bpp w h) src c r) dst dst"
    by (rule br.painted_cong [OF br.painted_none [OF dst]])
      (use True b in \<open>auto simp: in_rect_def br.inside_def pix_geom_def\<close>)
  moreover have "touched Portrait w h pw ph (0, 0, 0, 0) sx sy sw sh"
    using True b by (auto simp: touched_def source_of_def in_rect_def)
  ultimately show ?thesis
    using True by (simp add: blit_orient_def copied_rect_def Let_def source_of_def)
next
  case False
  define cw where "cw = min sw (pw - sx)"
  define ch where "ch = min sh (ph - sy)"
  have c: "0 < cw" "0 < ch" "sx + cw \<le> w" "sy + ch \<le> h" "sx + cw \<le> pw" "sy + ch \<le> ph"
    using False b by (auto simp: cw_def ch_def)
  from rows_painted [OF src dst b(1,2) c(3-6) c(1,2)] obtain d where
    d: "for_upto (nat ch) (\<lambda>y d. memcpy d (((sy + int y) * pw + sx) * int bpp) src
          (((sy + int y) * w + sx) * int bpp) (nat cw * bpp)) dst = Inr d"
      "br.painted (pix_geom bpp pw ph) (\<lambda>c r. in_rect sx sy cw ch (c, r))
        (\<lambda>c r. byte_get (pix_geom bpp w h) src c r) dst d" by blast
  have len: "length d = length dst"
    by (rule for_upto_length [OF d(1)]) (auto simp: memcpy_def res_simps dest: store_bytes_length)
  have p: "br.painted (pix_geom bpp pw ph) (\<lambda>c r. in_rect sx sy sw sh (c, r))
      (\<lambda>c r. byte_get (pix_geom bpp w h) src c r) dst d"
    by (rule br.painted_cong [OF d(2)]) (auto simp: in_rect_def br.inside_def pix_geom_def cw_def ch_def)
  have "final_clamp pw ph (sx, sy, cw, ch) = (sx, sy, cw, ch)"
    using c b by (auto simp: final_clamp_def Let_def)
  moreover have "touched Portrait w h pw ph (sx, sy, cw, ch) sx sy sw sh"
    using c b by (auto simp: touched_def source_of_def in_rect_def cw_def ch_def)
  ultimately show ?thesis
    using d(1) len p c
    by (simp add: blit_orient_def copied_rect_def Let_def source_of_def cw_def [symmetric] ch_def [symmetric]
        linorder_not_le [symmetric])
qed

lemma blit_orient_painted:
  assumes src: "byte_wf (pix_geom bpp w h) src" and dst: "byte_wf (pix_geom bpp pw ph) dst"
    and b: "0 \<le> sx" "0 \<le> sy" "sx + sw \<le> w" "sy + sh \<le> h" "0 < sw" "0 < sh"
  shows "\<exists>t. blit_orient orient bpp w h pw ph src sx sy sw sh dst = Inr t \<and>
     copied_rect orient bpp w h pw ph src sx sy sw sh dst t"
proof -
  note rot = rotated_copied [OF src dst b(1-4)]
  have off: "y * w * int bpp + x * int bpp = (y * w + x) * int bpp" for x y by (simp add: algebra_simps)
  show ?thesis
  proof (cases orient)
    case InvertedPortrait
    show ?thesis unfolding InvertedPortrait blit_orient_def Let_def orientation.case
      by (rule rot) (use b in \<open>auto simp: panel_of_def source_of_def in_rect_def\<close>)
  next
    case LandscapeCW
    show ?thesis unfolding LandscapeCW blit_orient_def Let_def orientation.case
      by (rule rot) (use b in \<open>auto simp: panel_of_def source_of_def in_rect_def off\<close>)
  next
    case LandscapeCCW
    show ?thesis unfolding LandscapeCCW blit_orient_def Let_def orientation.case
      by (rule rot) (use b in \<open>auto simp: panel_of_def source_of_def in_rect_def off\<close>)
  next
    case Portrait
    then show ?thesis using upright_copied [OF assms] by simp
  next
    case Auto
    then show ?thesis using upright_copied [OF assms]
      by (auto simp: blit_orient_def copied_rect_def touched_def source_of_def)
  qed
qed

section \<open>The screen's invariant\<close>

text \<open>
  Sizes up to 4096 by 4096: with them no area computed in \<open>int\<close> overflows, here or in the frame
  classification of the client. The pending rectangle may be stale after a resize, so it is
  bounded by the same limit and not by the current source.
\<close>

definition rect_ok :: "int \<Rightarrow> int \<Rightarrow> int \<Rightarrow> int \<Rightarrow> bool" where
  "rect_ok x y w h \<longleftrightarrow> 0 \<le> x \<and> 0 \<le> y \<and> 0 \<le> w \<and> 0 \<le> h \<and> x + w \<le> 4096 \<and> y + h \<le> 4096"

definition screen_ok :: "screen \<Rightarrow> bool" where
  "screen_ok s \<longleftrightarrow> device_ok (sc_device s) \<and> bytesPerPixel s = 2 \<and> effective s \<noteq> Auto \<and>
     0 \<le> src_width s \<and> src_width s \<le> 4096 \<and> 0 \<le> src_height s \<and> src_height s \<le> 4096 \<and>
     int (length (src_buffer s)) = src_width s * src_height s * 2 \<and>
     rect_ok (ui_x (update_info s)) (ui_y (update_info s)) (ui_w (update_info s)) (ui_h (update_info s))"

definition src_geom :: "screen \<Rightarrow> geom" where
  "src_geom s = pix_geom 2 (src_width s) (src_height s)"

definition panel_geom :: "screen \<Rightarrow> geom" where
  "panel_geom s = pix_geom 2 (get_xres (sc_device s)) (get_yres (sc_device s))"

definition src_px :: "screen \<Rightarrow> int \<times> int \<Rightarrow> bytes" where
  "src_px s = (\<lambda>(x, y). byte_get (src_geom s) (src_buffer s) x y)"

definition panel_px :: "screen \<Rightarrow> int \<Rightarrow> int \<Rightarrow> bytes" where
  "panel_px s c r = byte_get (panel_geom s) (get_data (sc_device s)) c r"

definition on_panel :: "screen \<Rightarrow> int \<Rightarrow> int \<Rightarrow> bool" where
  "on_panel s c r \<longleftrightarrow> 0 \<le> c \<and> c < get_xres (sc_device s) \<and> 0 \<le> r \<and> r < get_yres (sc_device s)"

definition in_source :: "screen \<Rightarrow> int \<times> int \<Rightarrow> bool" where
  "in_source s = in_rect 0 0 (src_width s) (src_height s)"

definition shown_at :: "screen \<Rightarrow> int \<Rightarrow> int \<Rightarrow> int \<times> int" where
  "shown_at s c r = source_of (effective s) (src_width s) (src_height s) (c, r)"

lemma src_wf: "screen_ok s \<Longrightarrow> byte_wf (src_geom s) (src_buffer s)"
  by (simp add: screen_ok_def src_geom_def byte_wf_def pix_geom_def mult.left_commute)

lemma panel_wf: "screen_ok s \<Longrightarrow> byte_wf (panel_geom s) (get_data (sc_device s))"
  using fb.size [of "sc_device s"]
  by (simp add: screen_ok_def panel_geom_def byte_wf_def pix_geom_def)

lemma rect_small: "rect_ok x y w h \<Longrightarrow> small x \<and> small y \<and> small w \<and> small h"
  by (auto simp: rect_ok_def small_def)

lemma area_4096: "0 \<le> w \<Longrightarrow> w \<le> 4096 \<Longrightarrow> 0 \<le> h \<Longrightarrow> h \<le> 4096 \<Longrightarrow> 0 \<le> w * h \<and> w * h * 100 \<le> INT_MAX"
proof -
  assume a: "0 \<le> w" "w \<le> 4096" "0 \<le> h" "h \<le> (4096 :: int)"
  then have "w * h \<le> 4096 * 4096" by (intro mult_mono) auto
  with a show ?thesis by (simp add: INT_MAX_def)
qed

text \<open>
  The copy of any rectangle succeeds, stays inside both buffers, puts on every panel cell the
  source pixel it shows if that pixel lies in the rectangle, and leaves all others.
\<close>

lemma blit_rotated_spec:
  assumes ok: "screen_ok s" and r: "rect_ok x y w h"
  shows "\<exists>d R. blit_rotated x y w h s = Inr (s\<lparr>sc_device := put_data d (sc_device s)\<rparr>, R) \<and>
     length d = length (get_data (sc_device s)) \<and>
     touched (effective s) (src_width s) (src_height s) (get_xres (sc_device s)) (get_yres (sc_device s)) R
       x y (max 0 (min w (src_width s - x))) (max 0 (min h (src_height s - y))) \<and>
     br.painted (panel_geom s) (\<lambda>c r. in_rect x y w h (shown_at s c r) \<and> in_source s (shown_at s c r))
       (\<lambda>c r. src_px s (shown_at s c r)) (get_data (sc_device s)) d"
proof -
  let ?w = "min w (src_width s - x)" and ?h = "min h (src_height s - y)"
  let ?dst = "get_data (sc_device s)"
  note sm = rect_small [OF r]
  have xy: "0 \<le> x" "0 \<le> y" using r by (simp_all add: rect_ok_def)
  have cl: "clamp_low x w = Inr (x, w)" "clamp_low y h = Inr (y, h)"
    "clamp_high x w (src_width s) = Inr ?w" "clamp_high y h (src_height s) = Inr ?h"
    using clamp_low_small [of x w] clamp_low_small [of y h] clamp_high_small [of x w "src_width s"]
      clamp_high_small [of y h "src_height s"] sm xy ok
    by (auto simp: screen_ok_def min_def max_def)
  have same: "s\<lparr>sc_device := put_data ?dst (sc_device s)\<rparr> = s"
  proof -
    have "put_data ?dst (sc_device s) = sc_device s" by (cases "sc_device s") simp_all
    then show ?thesis by simp
  qed
  show ?thesis
  proof (cases "?w \<le> 0 \<or> ?h \<le> 0")
    case True
    have "blit_rotated x y w h s = Inr (s, 0, 0, 0, 0)"
      using True by (auto simp: blit_rotated_def cl)
    moreover have "br.painted (panel_geom s) (\<lambda>c r. in_rect x y w h (shown_at s c r) \<and> in_source s (shown_at s c r))
       (\<lambda>c r. src_px s (shown_at s c r)) ?dst ?dst"
      by (rule br.painted_cong [OF br.painted_none [OF panel_wf [OF ok]]])
        (use True in \<open>auto simp: in_rect_def in_source_def\<close>)
    ultimately show ?thesis
      using True xy same
      by (intro exI [of _ ?dst] exI [of _ "(0, 0, 0, 0)"])
        (auto simp: touched_def in_rect_def split: prod.splits)
  next
    case False
    then have b: "x + ?w \<le> src_width s" "y + ?h \<le> src_height s" "0 < ?w" "0 < ?h" by auto
    have bpp: "bytesPerPixel s = 2" using ok by (simp add: screen_ok_def)
    from blit_orient_painted [OF src_wf [OF ok, unfolded src_geom_def] panel_wf [OF ok, unfolded panel_geom_def]
        xy b, of "effective s"]
    obtain d R where d: "blit_orient (effective s) 2 (src_width s) (src_height s) (get_xres (sc_device s))
        (get_yres (sc_device s)) (src_buffer s) x y ?w ?h ?dst = Inr (d, R)" "length d = length ?dst"
      "touched (effective s) (src_width s) (src_height s) (get_xres (sc_device s)) (get_yres (sc_device s)) R x y ?w ?h"
      "br.painted (pix_geom 2 (get_xres (sc_device s)) (get_yres (sc_device s)))
        (\<lambda>c r. in_rect x y ?w ?h (source_of (effective s) (src_width s) (src_height s) (c, r)))
        (\<lambda>c r. case source_of (effective s) (src_width s) (src_height s) (c, r) of (a, b) \<Rightarrow>
           byte_get (pix_geom 2 (src_width s) (src_height s)) (src_buffer s) a b) ?dst d"
      by (auto simp: copied_rect_def)
    have "br.painted (panel_geom s) (\<lambda>c r. in_rect x y w h (shown_at s c r) \<and> in_source s (shown_at s c r))
       (\<lambda>c r. src_px s (shown_at s c r)) ?dst d"
      unfolding panel_geom_def src_px_def src_geom_def shown_at_def
      by (rule br.painted_cong [OF d(4)])
        (use xy in \<open>auto simp: in_rect_def in_source_def split: prod.splits\<close>)
    moreover have "blit_rotated x y w h s = Inr (s\<lparr>sc_device := put_data d (sc_device s)\<rparr>, R)"
      using False d(1) by (simp add: blit_rotated_def cl bpp)
    ultimately show ?thesis using d(2,3) b(3,4) by (auto simp: max_def)
  qed
qed

text \<open>Two states with the same source, orientation and panel size.\<close>

definition same_view :: "screen \<Rightarrow> screen \<Rightarrow> bool" where
  "same_view s s' \<longleftrightarrow> src_buffer s' = src_buffer s \<and> src_width s' = src_width s \<and>
     src_height s' = src_height s \<and> effective s' = effective s \<and> bytesPerPixel s' = bytesPerPixel s \<and>
     get_xres (sc_device s') = get_xres (sc_device s) \<and> get_yres (sc_device s') = get_yres (sc_device s)"

lemma same_view_px:
  assumes "same_view s s'"
  shows "src_px s' = src_px s" "shown_at s' = shown_at s" "on_panel s' = on_panel s" "in_source s' = in_source s"
    "panel_geom s' = panel_geom s"
  using assms by (auto simp: same_view_def src_px_def src_geom_def shown_at_def on_panel_def in_source_def
      panel_geom_def fun_eq_iff)

definition in_pending :: "screen \<Rightarrow> int \<times> int \<Rightarrow> bool" where
  "in_pending s = (let u = update_info s in in_rect (ui_x u) (ui_y u) (ui_w u) (ui_h u))"

text \<open>
  A repaint: it fails only when the kernel does; otherwise every panel cell that shows a pixel
  of the pending rectangle shows its current colour, and every other cell is unchanged.
\<close>

definition repainted :: "screen \<Rightarrow> screen \<Rightarrow> bool" where
  "repainted s s' \<longleftrightarrow> (\<forall>c r. on_panel s c r \<longrightarrow> panel_px s' c r =
     (if in_pending s (shown_at s c r) \<and> in_source s (shown_at s c r)
      then src_px s (shown_at s c r) else panel_px s c r))"

lemma device_update_props:
  assumes "device_ok d" "small x" "small y" "small w" "small h" "0 \<le> w" "0 \<le> h" "w * h * 100 \<le> INT_MAX"
  shows "(\<exists>e. device_update cm x y w h m d = Inl e \<and> kernel_failure e) \<or>
    (\<exists>d'. device_update cm x y w h m d = Inr d' \<and> device_ok d' \<and> get_data d' = get_data d \<and>
       get_xres d' = get_xres d \<and> get_yres d' = get_yres d)"
  using fb.upd_laws [OF assms, where cm = cm and m = m]
  by (cases "device_update cm x y w h m d") auto

lemma blit_rotated_keeps:
  "blit_rotated x y w h s = Inr (s', R) \<Longrightarrow> s' = s\<lparr>sc_device := sc_device s'\<rparr>"
  by (auto simp: blit_rotated_def res_simps split: if_splits prod.splits)

lemma repaint_split: "repaint cm now s = repaint_copy cm (repaint_begin now s)"
proof -
  let ?b = "repaint_begin now s" and ?u = "update_info s"
  show ?thesis
  proof (cases "blit_rotated (ui_x ?u) (ui_y ?u) (ui_w ?u) (ui_h ?u) ?b")
    case (Inl e)
    then show ?thesis by (auto simp: repaint_def repaint_copy_def repaint_begin_def Let_def)
  next
    case (Inr r)
    then obtain t dx dy dw dh where r: "r = (t, dx, dy, dw, dh)" by (cases r) auto
    have "t = ?b\<lparr>sc_device := sc_device t\<rparr>" using blit_rotated_keeps Inr r by blast
    then have "repaint_mode t = repaint_mode s \<and> standard_waveform_mode t = standard_waveform_mode s \<and>
      fast_waveform_mode t = fast_waveform_mode s"
      by (cases t, cases s) (simp add: repaint_begin_def)
    with Inr r show ?thesis by (auto simp: repaint_def repaint_copy_def repaint_begin_def Let_def)
  qed
qed

lemma repaint_begin_view [simp]:
  "screen_ok (repaint_begin now s) = screen_ok s" "same_view s (repaint_begin now s)"
  "in_pending (repaint_begin now s) = in_pending s" "panel_px (repaint_begin now s) = panel_px s"
  "sc_device (repaint_begin now s) = sc_device s" "last_repaint (repaint_begin now s) = now"
  "update_info (repaint_begin now s) =
     (if repaint_mode s = standard then (update_info s)\<lparr>has_update := False\<rparr> else update_info s)"
  by (auto simp: repaint_begin_def screen_ok_def same_view_def in_pending_def panel_px_def panel_geom_def
      fun_eq_iff Let_def)

lemma same_view_trans: "same_view s t \<Longrightarrow> same_view t u \<Longrightarrow> same_view s u"
  by (simp add: same_view_def)

lemma repainted_begin: "repainted (repaint_begin now s) s' = repainted s s'"
  by (simp add: repainted_def same_view_px [OF repaint_begin_view(2) [of s now]])

text \<open>
  The copy of the pending rectangle: the panel's buffer shows it, and the rectangle returned is the
  set of panel cells it covers, inside the panel and small enough for the client.
\<close>

lemma pending_copied:
  assumes ok: "screen_ok s" and u: "u = update_info s"
  obtains d dx dy dw dh
  where "blit_rotated (ui_x u) (ui_y u) (ui_w u) (ui_h u) s =
      Inr (s\<lparr>sc_device := put_data d (sc_device s)\<rparr>, dx, dy, dw, dh)"
    and "length d = length (get_data (sc_device s))"
    and "repainted s (s\<lparr>sc_device := put_data d (sc_device s)\<rparr>)"
    and "\<And>c r. on_panel s c r \<Longrightarrow>
      in_rect dx dy dw dh (c, r) \<longleftrightarrow> in_pending s (shown_at s c r) \<and> in_source s (shown_at s c r)"
    and "0 < dw \<Longrightarrow> 0 < dh \<Longrightarrow> 0 \<le> dx \<and> 0 \<le> dy \<and> dw \<le> 4096 \<and> dh \<le> 4096 \<and>
      dx + dw \<le> get_xres (sc_device s) \<and> dy + dh \<le> get_yres (sc_device s)"
proof -
  have r: "rect_ok (ui_x u) (ui_y u) (ui_w u) (ui_h u)" using ok by (simp add: screen_ok_def u)
  let ?w = "max 0 (min (ui_w u) (src_width s - ui_x u))" and ?h = "max 0 (min (ui_h u) (src_height s - ui_y u))"
  from blit_rotated_spec [OF ok r] obtain d dx dy dw dh where
    d: "blit_rotated (ui_x u) (ui_y u) (ui_w u) (ui_h u) s =
        Inr (s\<lparr>sc_device := put_data d (sc_device s)\<rparr>, dx, dy, dw, dh)"
      "length d = length (get_data (sc_device s))"
      "touched (effective s) (src_width s) (src_height s) (get_xres (sc_device s)) (get_yres (sc_device s))
         (dx, dy, dw, dh) (ui_x u) (ui_y u) ?w ?h"
      "br.painted (panel_geom s) (\<lambda>c r. in_pending s (shown_at s c r) \<and> in_source s (shown_at s c r))
         (\<lambda>c r. src_px s (shown_at s c r)) (get_data (sc_device s)) d"
    by (auto simp: in_pending_def u Let_def)
  have rep: "repainted s (s\<lparr>sc_device := put_data d (sc_device s)\<rparr>)"
    using d(4) fb.put_laws [of d "sc_device s"] d(2) unfolding repainted_def
    by (auto simp: br.painted_def br.inside_def panel_px_def on_panel_def panel_geom_def pix_geom_def)
  have ins: "in_rect dx dy dw dh (c, r) \<longleftrightarrow> in_pending s (shown_at s c r) \<and> in_source s (shown_at s c r)"
    if "on_panel s c r" for c r
  proof -
    have "in_rect dx dy dw dh (c, r) = in_rect (ui_x u) (ui_y u) ?w ?h (shown_at s c r)"
      using d(3) that by (simp add: touched_def shown_at_def on_panel_def)
    also have "\<dots> \<longleftrightarrow> in_pending s (shown_at s c r) \<and> in_source s (shown_at s c r)"
      using r by (auto simp: in_pending_def u [symmetric] Let_def in_source_def in_rect_def rect_ok_def split: prod.splits)
    finally show ?thesis .
  qed
  have "?w \<le> 4096" "?h \<le> 4096" using r by (auto simp: rect_ok_def)
  then have m: "max ?w ?h \<le> 4096" by (rule max.boundedI)
  have t: "0 < dw \<Longrightarrow> dx + dw \<le> get_xres (sc_device s)" "0 < dh \<Longrightarrow> dy + dh \<le> get_yres (sc_device s)"
    "0 \<le> dx" "0 \<le> dy" "dw \<le> max ?w ?h" "dh \<le> max ?w ?h"
    using d(3) unfolding touched_def prod.case by blast+
  have bounds: "0 \<le> dx \<and> 0 \<le> dy \<and> dw \<le> 4096 \<and> dh \<le> 4096 \<and>
      dx + dw \<le> get_xres (sc_device s) \<and> dy + dh \<le> get_yres (sc_device s)" if "0 < dw" "0 < dh"
    using that t(1-4) order_trans [OF t(5) m] order_trans [OF t(6) m] by blast
  show thesis by (rule that [OF d(1,2) rep ins bounds])
qed

lemma repaint_copy_spec:
  assumes ok: "screen_ok s"
  shows "case repaint_copy cm s of
      Inl e \<Rightarrow> kernel_failure e
    | Inr s' \<Rightarrow> screen_ok s' \<and> same_view s s' \<and> repainted s s' \<and> s' = s\<lparr>sc_device := sc_device s'\<rparr>"
proof -
  obtain d dx dy dw dh where
    d: "blit_rotated (ui_x (update_info s)) (ui_y (update_info s)) (ui_w (update_info s)) (ui_h (update_info s)) s =
        Inr (s\<lparr>sc_device := put_data d (sc_device s)\<rparr>, dx, dy, dw, dh)"
      "length d = length (get_data (sc_device s))" "repainted s (s\<lparr>sc_device := put_data d (sc_device s)\<rparr>)"
    and b: "0 < dw \<Longrightarrow> 0 < dh \<Longrightarrow> 0 \<le> dx \<and> 0 \<le> dy \<and> dw \<le> 4096 \<and> dh \<le> 4096 \<and>
      dx + dw \<le> get_xres (sc_device s) \<and> dy + dh \<le> get_yres (sc_device s)"
    using pending_copied [OF ok refl] by metis
  let ?D = "put_data d (sc_device s)"
  have dev: "device_ok ?D" using fb.put_ok [of "sc_device s" d] d(2) ok by (simp add: screen_ok_def)
  have fin: "screen_ok (s\<lparr>sc_device := e\<rparr>) \<and> same_view s (s\<lparr>sc_device := e\<rparr>) \<and> repainted s (s\<lparr>sc_device := e\<rparr>)"
    if "device_ok e" "get_data e = get_data ?D" "get_xres e = get_xres ?D" "get_yres e = get_yres ?D" for e
    using ok that d(3)
    by (simp add: screen_ok_def same_view_def repainted_def panel_px_def panel_geom_def fb.put_laws)
  show ?thesis
  proof (cases "dw \<le> 0 \<or> dh \<le> 0")
    case True
    then show ?thesis using fin [of ?D] dev d(1) by (simp add: repaint_copy_def Let_def)
  next
    case False
    have "get_xres (sc_device s) < 2 ^ 30" "get_yres (sc_device s) < 2 ^ 30"
      using fb.size [of "sc_device s"] ok by (simp_all add: screen_ok_def)
    with b False have sm: "small dx" "small dy" "small dw" "small dh" "0 \<le> dw" "0 \<le> dh" "dw * dh * 100 \<le> INT_MAX"
      using area_4096 [of dw dh] by (auto simp: small_def)
    from device_update_props [OF dev sm, of cm
        "if repaint_mode s = standard then standard_waveform_mode s else fast_waveform_mode s"]
    show ?thesis using False d(1) fin by (auto simp: repaint_copy_def Let_def)
  qed
qed

lemma repaint_spec:
  assumes ok: "screen_ok s"
  shows "case repaint cm now s of
      Inl e \<Rightarrow> kernel_failure e
    | Inr s' \<Rightarrow> screen_ok s' \<and> same_view s s' \<and> repainted s s' \<and> last_repaint s' = now \<and>
        update_info s' = (if repaint_mode s = standard then (update_info s)\<lparr>has_update := False\<rparr> else update_info s)"
proof -
  let ?b = "repaint_begin now s"
  show ?thesis
  proof (cases "repaint_copy cm ?b")
    case (Inl e)
    then show ?thesis using repaint_copy_spec [of ?b cm] ok by (simp add: repaint_split)
  next
    case (Inr s')
    then have "screen_ok s'" "same_view ?b s'" "repainted ?b s'" and e: "s' = ?b\<lparr>sc_device := sc_device s'\<rparr>"
      using repaint_copy_spec [of ?b cm] ok by auto
    then have "screen_ok s' \<and> same_view s s' \<and> repainted s s'"
      using same_view_trans [OF repaint_begin_view(2)] by (simp add: repainted_begin)
    moreover have "last_repaint s' = last_repaint ?b" "update_info s' = update_info ?b"
      by (subst e, simp)+
    ultimately show ?thesis using Inr by (simp add: repaint_split)
  qed
qed

section \<open>Accumulating updates\<close>

definition bad_merge :: "update_info \<Rightarrow> int \<Rightarrow> int \<Rightarrow> int \<Rightarrow> int \<Rightarrow> bool" where
  "bad_merge u x y w h \<longleftrightarrow> has_update u \<and>
     (max (x + w) (ui_x u + ui_w u) - min x (ui_x u)) * (max (y + h) (ui_y u + ui_h u) - min y (ui_y u))
       > (ui_w u * ui_h u + w * h) * 2"

definition merged :: "update_info \<Rightarrow> int \<Rightarrow> int \<Rightarrow> int \<Rightarrow> int \<Rightarrow> update_info" where
  "merged u x y w h =
     (if has_update u then
        u\<lparr>ui_x := min x (ui_x u), ui_y := min y (ui_y u),
          ui_w := max (x + w) (ui_x u + ui_w u) - min x (ui_x u),
          ui_h := max (y + h) (ui_y u + ui_h u) - min y (ui_y u)\<rparr>
      else \<lparr>ui_x = x, ui_y = y, ui_w = w, ui_h = h, has_update = True\<rparr>)"

lemma ckint_area:
  assumes "0 \<le> w" "w \<le> 4096" "0 \<le> h" "h \<le> 4096"
  shows "ckint (w * h) = Inr (w * h)"
proof -
  define a where "a = w * h"
  have "0 \<le> a" "a * 100 \<le> INT_MAX" using area_4096 [OF assms] by (simp_all add: a_def)
  then show ?thesis unfolding a_def [symmetric] by (simp add: INT_MIN_def INT_MAX_def)
qed

lemma ckint_4096: "- 4096 \<le> n \<Longrightarrow> n \<le> 8192 \<Longrightarrow> ckint n = Inr n"
  by (simp add: INT_MIN_def INT_MAX_def)

lemma ckint_rects:
  assumes ru: "rect_ok (ui_x u) (ui_y u) (ui_w u) (ui_h u)" and r: "rect_ok x y w h"
  shows "ckint (ui_w u * ui_h u) = Inr (ui_w u * ui_h u)" "ckint (w * h) = Inr (w * h)"
    "ckint (x + w) = Inr (x + w)" "ckint (ui_x u + ui_w u) = Inr (ui_x u + ui_w u)"
    "ckint (y + h) = Inr (y + h)" "ckint (ui_y u + ui_h u) = Inr (ui_y u + ui_h u)"
    "ckint (max (x + w) (ui_x u + ui_w u) - min x (ui_x u)) = Inr (max (x + w) (ui_x u + ui_w u) - min x (ui_x u))"
    "ckint (max (y + h) (ui_y u + ui_h u) - min y (ui_y u)) = Inr (max (y + h) (ui_y u + ui_h u) - min y (ui_y u))"
proof -
  have b: "0 \<le> x" "0 \<le> y" "0 \<le> w" "0 \<le> h" "x + w \<le> 4096" "y + h \<le> 4096" "0 \<le> ui_x u" "0 \<le> ui_y u"
    "0 \<le> ui_w u" "0 \<le> ui_h u" "ui_x u + ui_w u \<le> 4096" "ui_y u + ui_h u \<le> 4096"
    using r ru by (simp_all add: rect_ok_def)
  show "ckint (ui_w u * ui_h u) = Inr (ui_w u * ui_h u)" "ckint (w * h) = Inr (w * h)"
    using b by (auto intro!: ckint_area)
qed (use r ru in \<open>auto simp: rect_ok_def intro!: ckint_4096\<close>)

lemma commit_updates_value:
  assumes ok: "screen_ok s" and r: "rect_ok x y w h"
  shows "commit_updates cm x y w h s =
     (let u = update_info s in
      if bad_merge u x y w h then
        bindE (device_update cm (ui_x u) (ui_y u) (ui_w u) (ui_h u)
          (if repaint_mode s = standard then standard_waveform_mode s else fast_waveform_mode s) (sc_device s))
          (\<lambda>d. Inr (s\<lparr>sc_device := d,
             update_info := \<lparr>ui_x = x, ui_y = y, ui_w = w, ui_h = h, has_update = True\<rparr>\<rparr>))
      else Inr (s\<lparr>update_info := merged u x y w h\<rparr>))"
proof -
  define u where "u = update_info s"
  have ru: "rect_ok (ui_x u) (ui_y u) (ui_w u) (ui_h u)" using ok by (simp add: screen_ok_def u_def)
  show ?thesis
    unfolding commit_updates_def Let_def u_def [symmetric] bad_merge_def merged_def
    by (simp add: ckint_rects [OF ru r])
qed

lemma merged_rect_ok:
  "rect_ok (ui_x u) (ui_y u) (ui_w u) (ui_h u) \<Longrightarrow> rect_ok x y w h \<Longrightarrow>
     rect_ok (ui_x (merged u x y w h)) (ui_y (merged u x y w h)) (ui_w (merged u x y w h)) (ui_h (merged u x y w h))"
  by (auto simp: merged_def rect_ok_def)

lemma merged_covers:
  assumes "rect_ok (ui_x u) (ui_y u) (ui_w u) (ui_h u)" "rect_ok x y w h"
    and "in_rect x y w h p \<or> (has_update u \<and> in_rect (ui_x u) (ui_y u) (ui_w u) (ui_h u) p)"
  shows "has_update (merged u x y w h) \<and>
     in_rect (ui_x (merged u x y w h)) (ui_y (merged u x y w h)) (ui_w (merged u x y w h)) (ui_h (merged u x y w h)) p"
  using assms by (auto simp: merged_def in_rect_def rect_ok_def split: prod.splits)

text \<open>Announcing the pending rectangle: the kernel refuses it or the backend's buffer is as it was.\<close>

lemma pending_announced:
  assumes ok: "screen_ok s" and u: "u = update_info s"
  shows "case device_update cm (ui_x u) (ui_y u) (ui_w u) (ui_h u) m (sc_device s) of
      Inl e \<Rightarrow> kernel_failure e
    | Inr d \<Rightarrow> device_ok d \<and> get_data d = get_data (sc_device s) \<and> get_xres d = get_xres (sc_device s) \<and>
        get_yres d = get_yres (sc_device s)"
proof -
  have ru: "rect_ok (ui_x u) (ui_y u) (ui_w u) (ui_h u)" and dv: "device_ok (sc_device s)"
    using ok by (simp_all add: screen_ok_def u)
  have sm: "small (ui_x u)" "small (ui_y u)" "small (ui_w u)" "small (ui_h u)" "0 \<le> ui_w u" "0 \<le> ui_h u"
    "ui_w u * ui_h u * 100 \<le> INT_MAX"
    using rect_small [OF ru] area_4096 [of "ui_w u" "ui_h u"] ru by (auto simp: rect_ok_def)
  from device_update_props [OF dv sm, of cm m] show ?thesis by auto
qed

lemma commit_updates_spec:
  assumes ok: "screen_ok s" and r: "rect_ok x y w h"
  shows "case commit_updates cm x y w h s of
      Inl e \<Rightarrow> kernel_failure e
    | Inr s' \<Rightarrow> screen_ok s' \<and> same_view s s' \<and> get_data (sc_device s') = get_data (sc_device s) \<and>
        has_update (update_info s') \<and> (\<forall>p. in_rect x y w h p \<longrightarrow> in_pending s' p) \<and>
        (\<not> bad_merge (update_info s) x y w h \<longrightarrow>
           (\<forall>p. has_update (update_info s) \<and> in_pending s p \<longrightarrow> in_pending s' p))"
proof -
  define u where "u = update_info s"
  have ru: "rect_ok (ui_x u) (ui_y u) (ui_w u) (ui_h u)" using ok by (simp add: screen_ok_def u_def)
  show ?thesis
  proof (cases "bad_merge u x y w h")
    case True
    have e: "commit_updates cm x y w h s =
        bindE (device_update cm (ui_x u) (ui_y u) (ui_w u) (ui_h u)
          (if repaint_mode s = standard then standard_waveform_mode s else fast_waveform_mode s) (sc_device s))
          (\<lambda>d. Inr (s\<lparr>sc_device := d,
             update_info := \<lparr>ui_x = x, ui_y = y, ui_w = w, ui_h = h, has_update = True\<rparr>\<rparr>))"
      unfolding commit_updates_value [OF ok r] Let_def u_def [symmetric] using True by simp
    show ?thesis unfolding e u_def [symmetric]
      using True ok r pending_announced [OF ok u_def, of cm
        "if repaint_mode s = standard then standard_waveform_mode s else fast_waveform_mode s"]
      by (auto simp: screen_ok_def same_view_def in_pending_def elim!: bindE.elims split: sum.splits)
  next
    case False
    have e: "commit_updates cm x y w h s = Inr (s\<lparr>update_info := merged u x y w h\<rparr>)"
      unfolding commit_updates_value [OF ok r] Let_def u_def [symmetric] using False by simp
    have "has_update (merged u x y w h)" by (simp add: merged_def)
    then show ?thesis unfolding e u_def [symmetric]
      using ok merged_rect_ok [OF ru r] merged_covers [OF ru r]
      by (simp add: screen_ok_def same_view_def in_pending_def u_def [symmetric]) (simp add: Let_def)
  qed
qed

section \<open>The screen as a machine\<close>

text \<open>
  What happens to a screen, in the order the main loop sees it: the library announces a size, has
  painted a rectangle (its pixels are in the buffer when the callback runs), reports the pointer;
  the event loop ticks; the sensor turns the display; the touch handler changes the mode and
  repaints when the finger is lifted. Each runs to its end here; how the threads interleave inside
  them is the subject of \<open>ScreenThreads\<close>.
\<close>

datatype screen_event =
    Ev_framebuffer int int
  | Ev_painted bytes int int int int
  | Ev_tick int
  | Ev_pointer int int
  | Ev_orientation orientation
  | Ev_mode repaint_modes
  | Ev_release int

fun screen_step :: "(al_call list \<Rightarrow> refresh_mode) \<Rightarrow> screen_event \<Rightarrow> screen \<Rightarrow> screen res" where
  "screen_step cm (Ev_framebuffer w h) s =
     create_framebuf (s\<lparr>vnc_client := (vnc_client s)\<lparr>rfb_width := w, rfb_height := h\<rparr>\<rparr>)"
| "screen_step cm (Ev_painted b x y w h) s = commit_updates cm x y w h (s\<lparr>src_buffer := b\<rparr>)"
| "screen_step cm (Ev_tick now) s = bindE (event_loop cm now s) (\<lambda>(s', _). Inr s')"
| "screen_step cm (Ev_pointer x y) s = Inr (handle_cursor_pos x y s)"
| "screen_step cm (Ev_orientation orient) s = Inr (set_effective_orientation orient s)"
| "screen_step cm (Ev_mode m) s = Inr (set_repaint_mode m s)"
| "screen_step cm (Ev_release now) s = repaint cm now s"

text \<open>What the library promises: sizes it can allocate, and painting inside the rectangle it reports.\<close>

fun event_ok :: "screen \<Rightarrow> screen_event \<Rightarrow> bool" where
  "event_ok s (Ev_framebuffer w h) \<longleftrightarrow> w \<le> 4096 \<and> h \<le> 4096"
| "event_ok s (Ev_painted b x y w h) \<longleftrightarrow> rect_ok x y w h \<and> length b = length (src_buffer s) \<and>
     (\<forall>p. in_source s p \<and> \<not> in_rect x y w h p \<longrightarrow> src_px (s\<lparr>src_buffer := b\<rparr>) p = src_px s p)"
| "event_ok s _ \<longleftrightarrow> True"

text \<open>The states that events accepted by \<open>P\<close> reach.\<close>

abbreviation reaches ::
  "(al_call list \<Rightarrow> refresh_mode) \<Rightarrow> (screen \<Rightarrow> screen_event \<Rightarrow> bool) \<Rightarrow> screen \<Rightarrow> screen \<Rightarrow> bool" where
  "reaches cm \<equiv> reach (\<lambda>e s r. screen_step cm e s = r)"

lemma reaches_step: "reaches cm P s0 s \<Longrightarrow> P s e \<Longrightarrow> screen_step cm e s = Inr s' \<Longrightarrow> reaches cm P s0 s'"
  by (rule reach_next)

lemma create_framebuf_ok:
  assumes ok: "screen_ok s" and b: "rfb_width (vnc_client s) \<le> 4096" "rfb_height (vnc_client s) \<le> 4096"
  shows "case create_framebuf s of
      Inl e \<Rightarrow> (rfb_width (vnc_client s) \<le> 0 \<or> rfb_height (vnc_client s) \<le> 0) \<and> (\<exists>m. e = Runtime_error m)
    | Inr s' \<Rightarrow> screen_ok s' \<and> 0 < src_width s' \<and> 0 < src_height s' \<and>
        (requested s = Auto \<longrightarrow> effective s' \<in> {Portrait, LandscapeCCW})"
proof (cases "rfb_width (vnc_client s) \<le> 0 \<or> rfb_height (vnc_client s) \<le> 0")
  case True
  then show ?thesis by (auto simp: create_framebuf_def Let_def)
next
  case False
  then have "int (nat (rfb_width (vnc_client s)) * nat (rfb_height (vnc_client s)) * 2) =
      rfb_width (vnc_client s) * rfb_height (vnc_client s) * 2" by simp
  then show ?thesis using False ok b
    by (auto simp: create_framebuf_def Let_def screen_ok_def)
qed

lemma set_effective_orientation_ok:
  "screen_ok s \<Longrightarrow> screen_ok (set_effective_orientation orient s)"
  by (auto simp: set_effective_orientation_def Let_def screen_ok_def rect_ok_def)

lemma handle_cursor_pos_ok:
  "screen_ok s \<Longrightarrow> screen_ok (handle_cursor_pos x y s) \<and> same_view s (handle_cursor_pos x y s) \<and>
     panel_px (handle_cursor_pos x y s) = panel_px s"
  using fb.curs_laws [of "sc_device s" x y]
  by (auto simp: handle_cursor_pos_def screen_ok_def same_view_def panel_px_def panel_geom_def fun_eq_iff)

lemma event_loop_cases:
  "event_loop cm now s = Inr (s', st) \<Longrightarrow> (s' = s \<or> (has_update (update_info s) \<and> repaint cm now s = Inr s'))"
  by (auto simp: event_loop_def Let_def res_simps split: if_splits)

text \<open>
  An event never reaches undefined behaviour: it fails when the kernel does, or when the server
  announces an empty desktop; otherwise the invariant holds again.
\<close>

definition screen_failure :: "screen_event \<Rightarrow> exn \<Rightarrow> bool" where
  "screen_failure e x \<longleftrightarrow> kernel_failure x \<or>
     (\<exists>w h m. e = Ev_framebuffer w h \<and> (w \<le> 0 \<or> h \<le> 0) \<and> x = Runtime_error m)"

lemma screen_step_ok:
  assumes ok: "screen_ok s" and e: "event_ok s e"
  shows "case screen_step cm e s of Inl x \<Rightarrow> screen_failure e x | Inr s' \<Rightarrow> screen_ok s'"
proof (cases e)
  case (Ev_framebuffer w h)
  have "screen_ok (s\<lparr>vnc_client := (vnc_client s)\<lparr>rfb_width := w, rfb_height := h\<rparr>\<rparr>)"
    using ok by (simp add: screen_ok_def)
  from create_framebuf_ok [OF this] show ?thesis using e Ev_framebuffer
    by (auto simp: screen_failure_def split: sum.splits)
next
  case (Ev_painted b x y w h)
  have "screen_ok (s\<lparr>src_buffer := b\<rparr>)" using ok e Ev_painted by (simp add: screen_ok_def)
  from commit_updates_spec [OF this, of x y w h cm] show ?thesis using e Ev_painted
    by (auto simp: screen_failure_def split: sum.splits)
next
  case (Ev_tick now)
  show ?thesis
  proof (cases "screen_step cm e s")
    case (Inl x)
    then have "repaint cm now s = Inl x" using Ev_tick
      by (auto simp: event_loop_def Let_def split: if_splits elim!: bindE.elims)
    then show ?thesis using repaint_spec [OF ok, where cm = cm and now = now] Inl
      by (simp add: screen_failure_def)
  next
    case (Inr s')
    then obtain st where "event_loop cm now s = Inr (s', st)" using Ev_tick by (auto simp: res_simps)
    from event_loop_cases [OF this] repaint_spec [OF ok, where cm = cm and now = now] ok Inr show ?thesis by auto
  qed
next
  case (Ev_release now)
  then show ?thesis using repaint_spec [OF ok, where cm = cm and now = now]
    by (auto simp: screen_failure_def split: sum.splits)
qed (use ok handle_cursor_pos_ok set_effective_orientation_ok in
    \<open>auto simp: set_repaint_mode_def screen_ok_def\<close>)

interpretation screen_sys: fallible_system "\<lambda>e s r. screen_step cm e s = r" screen_ok event_ok screen_failure
  for cm
proof
  fix e s r
  assume "screen_step cm e s = r" "screen_ok s" "event_ok s e"
  then show "case r of Inl x \<Rightarrow> screen_failure e x | Inr s' \<Rightarrow> screen_ok s'"
    using screen_step_ok [of s e cm] by simp
qed

section \<open>No update is lost\<close>

text \<open>
  The panel agrees with the source wherever no repaint is pending. This holds as long as
  rectangles are merged; the branch that flushes instead breaks it.
\<close>

definition synced :: "screen \<Rightarrow> bool" where
  "synced s \<longleftrightarrow> (\<forall>c r. on_panel s c r \<and> in_source s (shown_at s c r) \<longrightarrow>
     (has_update (update_info s) \<and> in_pending s (shown_at s c r)) \<or>
     panel_px s c r = src_px s (shown_at s c r))"

fun smooth_event :: "screen \<Rightarrow> screen_event \<Rightarrow> bool" where
  "smooth_event s (Ev_framebuffer w h) \<longleftrightarrow> False"
| "smooth_event s (Ev_painted b x y w h) \<longleftrightarrow>
     event_ok s (Ev_painted b x y w h) \<and> \<not> bad_merge (update_info s) x y w h"
| "smooth_event s e \<longleftrightarrow> True"

lemma smooth_event_ok: "smooth_event s e \<Longrightarrow> event_ok s e"
  by (cases e) auto

lemma same_view_panel_px:
  "same_view s s' \<Longrightarrow> get_data (sc_device s') = get_data (sc_device s) \<Longrightarrow> panel_px s' = panel_px s"
  by (simp add: panel_px_def same_view_px fun_eq_iff)

lemma synced_repainted:
  assumes "screen_ok s" "synced s" "repaint cm now s = Inr s'"
  shows "synced s'"
proof -
  have p: "same_view s s'" "repainted s s'"
    using repaint_spec [OF assms(1), where cm = cm and now = now] assms(3) by auto
  show ?thesis using assms(2) p(2) same_view_px [OF p(1)] unfolding synced_def repainted_def by metis
qed

text \<open>What a paint changes in the source is pending afterwards, with all that was.\<close>

lemma synced_painted:
  assumes ok: "screen_ok s" and sy: "synced s" and e: "smooth_event s (Ev_painted b x y w h)"
    and st: "screen_step cm (Ev_painted b x y w h) s = Inr s'"
  shows "synced s'"
proof -
  let ?t = "s\<lparr>src_buffer := b\<rparr>"
  have okt: "screen_ok ?t" using ok e by (simp add: screen_ok_def)
  have r: "rect_ok x y w h" and nb: "\<not> bad_merge (update_info s) x y w h"
    and out: "\<And>p. in_source s p \<Longrightarrow> \<not> in_rect x y w h p \<Longrightarrow> src_px ?t p = src_px s p"
    using e by auto
  have c: "same_view ?t s'" "get_data (sc_device s') = get_data (sc_device s)" "has_update (update_info s')"
    "\<And>p. in_rect x y w h p \<Longrightarrow> in_pending s' p"
    "\<And>p. has_update (update_info s) \<Longrightarrow> in_pending s p \<Longrightarrow> in_pending s' p"
    using commit_updates_spec [OF okt r, of cm] st nb by (auto simp: in_pending_def)
  have v: "shown_at ?t = shown_at s" "on_panel ?t = on_panel s" "in_source ?t = in_source s" "panel_px ?t = panel_px s"
    by (auto simp: shown_at_def on_panel_def in_source_def panel_px_def panel_geom_def fun_eq_iff)
  have "panel_px s' = panel_px s" using same_view_panel_px [OF c(1)] c(2) v(4) by simp
  then show ?thesis
    using sy out c(3-5) same_view_px [OF c(1)] v unfolding synced_def by metis
qed

lemma synced_step:
  assumes ok: "screen_ok s" and sy: "synced s" and e: "smooth_event s e" and st: "screen_step cm e s = Inr s'"
  shows "synced s'"
proof (cases e)
  case (Ev_painted b x y w h)
  then show ?thesis using synced_painted [OF ok sy] e st by blast
next
  case (Ev_tick now)
  then obtain st' where "event_loop cm now s = Inr (s', st')" using st by (auto simp: res_simps)
  from event_loop_cases [OF this] show ?thesis using sy synced_repainted [OF ok sy] by auto
next
  case (Ev_release now)
  then show ?thesis using st synced_repainted [OF ok sy] by simp
next
  case (Ev_pointer x y)
  then have s': "s' = handle_cursor_pos x y s" using st by simp
  have "update_info s' = update_info s" by (simp add: s' handle_cursor_pos_def)
  then have "in_pending s' = in_pending s" "has_update (update_info s') = has_update (update_info s)"
    by (simp_all add: in_pending_def)
  then show ?thesis using sy handle_cursor_pos_ok [OF ok, of x y] same_view_px [of s s'] s'
    unfolding synced_def by metis
next
  case (Ev_orientation orient)
  then have s': "s' = set_effective_orientation orient s" using st by simp
  show ?thesis
  proof (cases "orient = Auto \<or> effective s = orient")
    case True
    then have "s' = s" by (auto simp: s' set_effective_orientation_def)
    with sy show ?thesis by simp
  next
    case False
    then show ?thesis
      by (auto simp: s' set_effective_orientation_def synced_def in_pending_def in_source_def Let_def
          in_rect_def split: prod.splits)
  qed
next
  case (Ev_mode m)
  then have "s' = s\<lparr>repaint_mode := m\<rparr>" using st by (simp add: set_repaint_mode_def)
  then show ?thesis using sy
    by (simp add: synced_def on_panel_def in_source_def shown_at_def in_pending_def panel_px_def
        panel_geom_def src_px_def src_geom_def)
qed (use e in simp)

interpretation smooth_sys: fallible_system "\<lambda>e s r. screen_step cm e s = r" "\<lambda>s. screen_ok s \<and> synced s"
  smooth_event screen_failure for cm
proof
  fix e s r
  assume st: "screen_step cm e s = r" and i: "screen_ok s \<and> synced s" and e: "smooth_event s e"
  show "case r of Inl x \<Rightarrow> screen_failure e x | Inr s' \<Rightarrow> screen_ok s' \<and> synced s'"
    using screen_step_ok [of s e cm] synced_step [of s e cm] smooth_event_ok [OF e] st i e by (auto split: sum.splits)
qed

text \<open>The next repaint then shows the source on the whole panel.\<close>

lemma synced_repaint:
  assumes "screen_ok s" "synced s" "repaint cm now s = Inr s'" "on_panel s c r" "in_source s (shown_at s c r)"
  shows "panel_px s' c r = src_px s' (shown_at s' c r)"
proof -
  have p: "same_view s s'" "repainted s s'" using repaint_spec [OF assms(1), where cm = cm and now = now] assms(3) by auto
  show ?thesis using assms(2,4,5) p(2) same_view_px [OF p(1)] unfolding synced_def repainted_def by metis
qed

text \<open>
  The flush: the panel's buffer is not touched, the old rectangle is forgotten, so what the
  library had painted there never reaches the panel.
\<close>

lemma bad_merge_forgets:
  assumes ok: "screen_ok s" and r: "rect_ok x y w h" and bad: "bad_merge (update_info s) x y w h"
    and c: "commit_updates cm x y w h s = Inr s'"
  shows "panel_px s' = panel_px s \<and> (\<forall>p. in_pending s' p = in_rect x y w h p)"
proof -
  have p: "same_view s s'" "get_data (sc_device s') = get_data (sc_device s)"
    using commit_updates_spec [OF ok r, of cm] c by simp_all
  moreover have "update_info s' = \<lparr>ui_x = x, ui_y = y, ui_w = w, ui_h = h, has_update = True\<rparr>"
    using c bad unfolding commit_updates_value [OF ok r] by (auto simp: Let_def res_simps)
  ultimately show ?thesis using same_view_panel_px by (simp add: in_pending_def)
qed

text \<open>
  A concrete loss: sixteen pixels in a row, the first is painted white and pending, then the last
  one is painted. The event is legal, the state before is in sync, the state after is not.
\<close>

definition desync_before :: screen where
  "desync_before =
     \<lparr>sc_device = Appload \<lparr>al_shm = replicate 32 0, al_w = 16, al_h = 1, al_calls = []\<rparr>,
      vnc_client = \<lparr>rfb_bitsPerPixel = 16, rfb_depth = 16, rfb_redShift = 11, rfb_redMax = 31,
        rfb_greenShift = 5, rfb_greenMax = 63, rfb_blueShift = 0, rfb_blueMax = 31,
        encodingsString = ''raw'', compressLevel = 0, qualityLevel = -1, enableJPEG = False,
        useRemoteCursor = True, rfb_width = 16, rfb_height = 1\<rparr>,
      repaint_mode = standard, standard_repaint_delay = 500, fast_repaint_delay = 16,
      standard_waveform_mode = REFRESH_MODE_UI, fast_waveform_mode = REFRESH_MODE_ANIMATE,
      requested = Portrait, effective = Portrait,
      src_buffer = 0xFF # 0xFF # replicate 30 0, src_width = 16, src_height = 1, bytesPerPixel = 2,
      update_info = \<lparr>ui_x = 0, ui_y = 0, ui_w = 1, ui_h = 1, has_update = True\<rparr>,
      last_repaint = 0\<rparr>"

definition desync_event :: screen_event where
  "desync_event = Ev_painted ((0xFF # 0xFF # replicate 28 0) @ [0xFF, 0xFF]) 15 0 1 1"

definition desync_after :: screen where
  "desync_after =
     desync_before\<lparr>src_buffer := (0xFF # 0xFF # replicate 28 0) @ [0xFF, 0xFF],
       sc_device := Appload \<lparr>al_shm = replicate 32 0, al_w = 16, al_h = 1,
         al_calls = [SetRefreshMode REFRESH_MODE_UI, SendPartialUpdate 0 0 1 1]\<rparr>,
       update_info := \<lparr>ui_x = 15, ui_y = 0, ui_w = 1, ui_h = 1, has_update = True\<rparr>\<rparr>"

lemma int_16_cases: "0 \<le> (x :: int) \<Longrightarrow> x < 16 \<Longrightarrow> x \<in> {0,1,2,3,4,5,6,7,8,9,10,11,12,13,14,15}"
  unfolding insert_iff empty_iff by presburger

lemma int_zero_cases: "0 \<le> (y :: int) \<Longrightarrow> y < 1 \<Longrightarrow> y = 0"
  by simp

lemma desync_step: "screen_step (\<lambda>_. REFRESH_MODE_FAST) desync_event desync_before = Inr desync_after"
  by (simp add: desync_event_def desync_before_def desync_after_def commit_updates_def Let_def
      INT_MIN_def INT_MAX_def al_set_mode_def)

lemma desync_ok: "screen_ok desync_before" "event_ok desync_before desync_event"
proof -
  show "screen_ok desync_before" by (simp add: screen_ok_def desync_before_def rect_ok_def)
  have "src_px (desync_before\<lparr>src_buffer := (0xFF # 0xFF # replicate 28 0) @ [0xFF, 0xFF]\<rparr>) (x, y) =
      src_px desync_before (x, y)" if "0 \<le> x" "x < 15" "0 \<le> y" "y < 1" for x y
    using int_16_cases [of x] that int_zero_cases [OF that(3,4)]
    by (auto simp: src_px_def src_geom_def pix_geom_def byte_get_def byte_off_def desync_before_def eval_nat_numeral)
  moreover have "src_width desync_before = 16" "src_height desync_before = 1"
    "length (src_buffer desync_before) = 32" by (simp_all add: desync_before_def)
  ultimately show "event_ok desync_before desync_event"
    by (auto simp: desync_event_def rect_ok_def in_source_def in_rect_def)
qed

lemma desync_synced: "synced desync_before" "\<not> synced desync_after"
proof -
  have "panel_px desync_before x y = src_px desync_before (x, y)" if "0 < x" "x < 16" "0 \<le> y" "y < 1" for x y
    using int_16_cases [of x] that int_zero_cases [OF that(3,4)]
    by (auto simp: panel_px_def panel_geom_def src_px_def src_geom_def pix_geom_def byte_get_def
        byte_off_def desync_before_def eval_nat_numeral)
  moreover have "get_xres (sc_device desync_before) = 16" "get_yres (sc_device desync_before) = 1"
    "src_width desync_before = 16" "src_height desync_before = 1" "effective desync_before = Portrait"
    "update_info desync_before = \<lparr>ui_x = 0, ui_y = 0, ui_w = 1, ui_h = 1, has_update = True\<rparr>"
    by (simp_all add: desync_before_def)
  ultimately show "synced desync_before"
    by (force simp: synced_def on_panel_def in_source_def in_rect_def shown_at_def source_of_def in_pending_def)
  have "panel_px desync_after 0 0 = [0, 0]" "src_px desync_after (0, 0) = [0xFF, 0xFF]"
    by (simp_all add: panel_px_def panel_geom_def src_px_def src_geom_def pix_geom_def byte_get_def
        byte_off_def desync_after_def desync_before_def eval_nat_numeral)
  moreover have "on_panel desync_after 0 0" "shown_at desync_after 0 0 = (0, 0)" "in_source desync_after (0, 0)"
    "\<not> in_pending desync_after (0, 0)"
    by (simp_all add: on_panel_def in_source_def in_rect_def shown_at_def source_of_def in_pending_def
        desync_after_def desync_before_def)
  moreover have "([0, 0] :: bytes) \<noteq> [0xFF, 0xFF]" by simp
  ultimately show "\<not> synced desync_after"
    unfolding synced_def by metis
qed

section \<open>Timing and configuration\<close>

text \<open>
  The loop repaints when less than a millisecond is left, and otherwise asks to sleep for the
  whole milliseconds left: never longer than the mode's delay, and never past the due time.
\<close>

definition repaint_delay :: "screen \<Rightarrow> int" where
  "repaint_delay s = (if repaint_mode s = standard then standard_repaint_delay s else fast_repaint_delay s)"

definition due :: "screen \<Rightarrow> int" where
  "due s = last_repaint s + ns_per_ms * repaint_delay s"

lemma event_loop_timing:
  assumes "has_update (update_info s)"
  shows "event_loop cm now s =
     (if due s - now < ns_per_ms then bindE (repaint cm now s) (\<lambda>s'. Inr (s', \<lparr>quit = False, timeout = -1\<rparr>))
      else Inr (s, \<lparr>quit = False, timeout = (due s - now) div ns_per_ms\<rparr>))"
proof -
  have p: "0 < ns_per_ms" by (simp add: ns_per_ms_def)
  have c: "cdiv n ns_per_ms \<le> 0 \<longleftrightarrow> n < ns_per_ms" "\<not> n < ns_per_ms \<Longrightarrow> cdiv n ns_per_ms = n div ns_per_ms" for n
  proof -
    show "\<not> n < ns_per_ms \<Longrightarrow> cdiv n ns_per_ms = n div ns_per_ms"
      using p by (simp add: cdiv_nonneg)
    show "cdiv n ns_per_ms \<le> 0 \<longleftrightarrow> n < ns_per_ms"
    proof (cases "n < 0")
      case True
      then show ?thesis using p by (simp add: cdiv_neg pos_imp_zdiv_nonneg_iff)
    next
      case False
      then show ?thesis using p pos_imp_zdiv_pos_iff [of ns_per_ms n] by (simp add: cdiv_nonneg linorder_not_less [symmetric])
    qed
  qed
  have d: "last_repaint s + ns_per_ms *
      (if repaint_mode s = standard then standard_repaint_delay s else fast_repaint_delay s) = due s"
    by (simp add: due_def repaint_delay_def)
  show ?thesis unfolding event_loop_def Let_def d using assms c by simp
qed

lemma event_loop_sleep:
  assumes "event_loop cm now s = Inr (s', st)" "timeout st \<noteq> -1" "last_repaint s \<le> now"
  shows "s' = s \<and> 0 < timeout st \<and> timeout st \<le> repaint_delay s \<and> now + ns_per_ms * timeout st \<le> due s"
proof -
  have u: "has_update (update_info s)" using assms(1,2) by (auto simp: event_loop_def split: if_splits)
  from assms(1,2) have n: "\<not> due s - now < ns_per_ms" "s' = s" "timeout st = (due s - now) div ns_per_ms"
    unfolding event_loop_timing [OF u] by (auto simp: res_simps split: if_splits)
  have p: "0 < ns_per_ms" by (simp add: ns_per_ms_def)
  have "ns_per_ms * ((due s - now) div ns_per_ms) \<le> due s - now"
    using p by (simp add: mult_div_mod_eq [symmetric] minus_mod_eq_mult_div [symmetric])
  moreover have "due s - now \<le> ns_per_ms * repaint_delay s" using assms(3) by (simp add: due_def)
  then have "(due s - now) div ns_per_ms \<le> repaint_delay s"
    using p zdiv_mono1 [of "due s - now" "ns_per_ms * repaint_delay s" ns_per_ms] by simp
  ultimately show ?thesis using n p pos_imp_zdiv_pos_iff [of ns_per_ms "due s - now"] by simp
qed

text \<open>In fast mode a repaint leaves the update pending.\<close>

lemma repaint_fast_pending:
  "screen_ok s \<Longrightarrow> repaint_mode s = fast \<Longrightarrow> repaint cm now s = Inr s' \<Longrightarrow> update_info s' = update_info s"
  using repaint_spec [of s, where cm = cm and now = now] by simp

text \<open>
  Whatever \<open>VNSEE_ENCODING\<close> says, the compression, quality and JPEG settings are those of
  \<open>VNCAST_COMPRESS_LEVEL\<close>: the settings the encodings choose are overwritten.
\<close>

lemma screen_new_tuning:
  "let c = vnc_client (screen_new env d vnc orient) in
     compressLevel c = compress_env env \<and> 0 \<le> compressLevel c \<and> compressLevel c \<le> 9 \<and>
     qualityLevel c = -1 \<and> \<not> enableJPEG c"
  by (auto simp: screen_new_def compress_env_def Let_def split: option.splits prod.splits)

lemma screen_new_ok: "device_ok d \<Longrightarrow> screen_ok (screen_new env d vnc orient)"
  by (auto simp: screen_new_def screen_ok_def Let_def bits_per_pixel_def rect_ok_def split: prod.splits)

lemma screen_new_delays:
  "0 < repaint_delay (screen_new env d vnc orient) \<and> repaint_delay (screen_new env d vnc orient) \<le> 1000 \<and>
   (is_vncast d \<longrightarrow> repaint_delay (screen_new env d vnc orient) = 16)"
  by (auto simp: repaint_delay_def screen_new_def waveform_env_def Let_def split: option.splits prod.splits if_splits)

text \<open>Touch points are mapped back to the source pixel that is shown under them.\<close>

lemma transform_input_shown:
  "0 < src_width s \<Longrightarrow> 0 < src_height s \<Longrightarrow> transform_input s (c, r) = shown_at s c r"
  by (cases "effective s") (auto simp: transform_input_def shown_at_def source_of_def)

section \<open>The vncast backend: from the source to the shared memory\<close>

definition shm_px :: "vconn \<Rightarrow> int \<Rightarrow> int \<Rightarrow> bytes" where
  "shm_px c = byte_get (shm_geom c) (m_shm c)"

text \<open>
  What an operation of the client writes: whole messages, frames and cursor positions only; a frame
  names a rectangle inside the panel. The geometry stays.
\<close>

definition frame_inside :: "vconn \<Rightarrow> frame \<Rightarrow> bool" where
  "frame_inside c f \<longleftrightarrow> 0 \<le> sint (frame_x f) \<and> 0 < sint (frame_w f) \<and>
     sint (frame_x f) + sint (frame_w f) \<le> uint (m_w c) \<and> 0 \<le> sint (frame_y f) \<and> 0 < sint (frame_h f) \<and>
     sint (frame_y f) + sint (frame_h f) \<le> uint (m_h c)"

definition in_frame :: "frame \<Rightarrow> int \<times> int \<Rightarrow> bool" where
  "in_frame f = in_rect (sint (frame_x f)) (sint (frame_y f)) (sint (frame_w f)) (sint (frame_h f))"

definition same_panel :: "vconn \<Rightarrow> vconn \<Rightarrow> bool" where
  "same_panel c c' \<longleftrightarrow> m_w c' = m_w c \<and> m_h c' = m_h c \<and> m_stride c' = m_stride c \<and> m_bpp c' = m_bpp c \<and>
     m_format c' = m_format c \<and> m_force_grayscale c' = m_force_grayscale c"

definition writes :: "vconn \<Rightarrow> vconn \<Rightarrow> c2s list \<Rightarrow> bool" where
  "writes c c' ms \<longleftrightarrow> same_panel c c' \<and> m_out c' = m_out c @ enc_all ms \<and> set (m_tx c') \<subseteq> set (m_tx c) \<and>
     list_all c2s_wf ms \<and> list_all frame_or_cursor ms \<and> list_all (frame_inside c) (frames_of ms)"

lemma writes_nothing: "same_panel c c' \<Longrightarrow> m_out c' = m_out c \<Longrightarrow> m_tx c' = m_tx c \<Longrightarrow> writes c c' []"
  by (simp add: writes_def)

lemma writes_refl [simp]: "writes c c []"
  by (simp add: writes_def same_panel_def)

lemma conv_pixel_panel: "same_panel c c' \<Longrightarrow> conv_pixel c' = conv_pixel c"
  by (simp add: same_panel_def conv_pixel_def conv_of_def fun_eq_iff)

lemma send_partial_update_writes:
  assumes u: "send_partial_update x y w h c = Inr c'"
    and b: "0 \<le> x" "0 \<le> y" "0 < w" "0 < h" "x + w \<le> uint (m_w c)" "y + h \<le> uint (m_h c)"
    and p: "uint (m_w c) < 2 ^ 30" "uint (m_h c) < 2 ^ 30"
  shows "\<exists>f. writes c c' [C2S_Frame f] \<and> in_frame f = in_rect x y w h"
proof -
  obtain d m tx where c': "c' = c\<lparr>m_shm := d, m_seq := m_seq c + 1, m_tx := tx,
      m_out := m_out c @ enc_frame (frame_msg (m_seq c + 1) x y w h m)\<rparr>" "set tx \<subseteq> set (m_tx c)"
    using send_partial_update_Inr [OF u] by blast
  let ?f = "frame_msg (m_seq c + 1) x y w h m"
  have s: "sint (frame_x ?f) = x" "sint (frame_y ?f) = y" "sint (frame_w ?f) = w" "sint (frame_h ?f) = h"
    using b p unfolding frame_msg_def by (auto intro!: sint_word_of_int32 simp: INT_MIN_def INT_MAX_def)
  have "frame_header ?f = mk_header FrameTag" by (simp add: frame_msg_def)
  then have "writes c c' [C2S_Frame ?f]"
    using c' b by (simp add: writes_def same_panel_def frame_inside_def s)
  moreover have "in_frame ?f = in_rect x y w h" by (simp add: in_frame_def s)
  ultimately show ?thesis by blast
qed

lemma send_cursor_pos_writes:
  assumes "whole_sends (m_tx c)" "small x" "small y"
  shows "\<exists>ms. writes c (send_cursor_pos x y w h v c) ms"
proof -
  let ?c = "c\<lparr>m_cursor_x := x, m_cursor_y := y, m_cursor_w := word_of_int w, m_cursor_h := word_of_int h,
    m_cursor_visible := v\<rparr>"
  let ?m = "C2S_Cursor (cursor_msg x y w h v)"
  have wf: "c2s_wf ?m"
    using assms(2,3) by (simp add: cursor_msg_def cursor_wf_def small_def INT_MIN_def INT_MAX_def)
  consider "cursor_is x y w h v c" | "\<not> cursor_is x y w h v c" "m_tx c = []"
    | e tx where "\<not> cursor_is x y w h v c" "m_tx c = Tx_error e # tx"
    | r tx where "\<not> cursor_is x y w h v c" "m_tx c = Sent r # tx"
    by (metis neq_Nil_conv tx_ret.exhaust)
  then show ?thesis
  proof cases
    case 1
    then have "send_cursor_pos x y w h v c = c" by (simp add: send_cursor_pos_def)
    then show ?thesis using writes_refl [of c] by metis
  next
    case 2
    then show ?thesis
      by (intro exI [of _ "[]"]) (simp add: send_cursor_pos_def try_send_def writes_def same_panel_def)
  next
    case 3
    then show ?thesis
      by (intro exI [of _ "[]"]) (auto simp: send_cursor_pos_def try_send_def writes_def same_panel_def)
  next
    case 4
    then have "28 \<le> r" using assms(1) by (simp add: whole_sends_def)
    then have "take r (enc_cursor (cursor_msg x y w h v)) = enc_cursor (cursor_msg x y w h v)"
      by (simp add: length_enc_cursor)
    then show ?thesis using 4 wf
      by (intro exI [of _ "[?m]"]) (auto simp: send_cursor_pos_def try_send_def writes_def same_panel_def)
  qed
qed

text \<open>
  A repaint through the vncast client: the shared memory holds the converted source wherever the
  pending rectangle is shown, the rest of it is unchanged, and a frame covers all that was repainted.
\<close>

lemma repaint_copy_vncast:
  assumes ok: "screen_ok s" and dev: "sc_device s = Vncast c" and rp: "repaint_copy cm s = Inr s'"
  shows "\<exists>c' ms. sc_device s' = Vncast c' \<and> writes c c' ms \<and> (\<forall>col row. on_panel s col row \<longrightarrow>
     (if in_pending s (shown_at s col row) \<and> in_source s (shown_at s col row)
      then shm_px c' col row = conv_pixel c (src_px s (shown_at s col row)) \<and>
        (\<exists>f \<in> set (frames_of ms). in_frame f (col, row))
      else shm_px c' col row = shm_px c col row))"
proof -
  have pc: "panel_ok c" using ok dev by (simp add: screen_ok_def)
  note sz = panel_ok_size [OF pc]
  obtain d dx dy dw dh where
    d: "blit_rotated (ui_x (update_info s)) (ui_y (update_info s)) (ui_w (update_info s)) (ui_h (update_info s)) s =
        Inr (s\<lparr>sc_device := put_data d (sc_device s)\<rparr>, dx, dy, dw, dh)"
      "length d = length (get_data (sc_device s))" "repainted s (s\<lparr>sc_device := put_data d (sc_device s)\<rparr>)"
    and ins: "\<And>c r. on_panel s c r \<Longrightarrow>
      in_rect dx dy dw dh (c, r) \<longleftrightarrow> in_pending s (shown_at s c r) \<and> in_source s (shown_at s c r)"
    and b: "0 < dw \<Longrightarrow> 0 < dh \<Longrightarrow> 0 \<le> dx \<and> 0 \<le> dy \<and> dw \<le> 4096 \<and> dh \<le> 4096 \<and>
      dx + dw \<le> get_xres (sc_device s) \<and> dy + dh \<le> get_yres (sc_device s)"
    using pending_copied [OF ok refl] by metis
  let ?c = "c\<lparr>m_shadow := d\<rparr>"
  have wc: "writes c ?c []" by (rule writes_nothing) (simp_all add: same_panel_def)
  show ?thesis
  proof (cases "dw \<le> 0 \<or> dh \<le> 0")
    case True
    then have "s' = s\<lparr>sc_device := Vncast ?c\<rparr>" using rp d(1) dev by (simp add: repaint_copy_def Let_def)
    moreover have "\<not> in_rect dx dy dw dh p" for p using True by (auto simp: in_rect_def split: prod.splits)
    ultimately show ?thesis using ins wc
      by (intro exI [of _ ?c] exI [of _ "[]"]) (auto simp: shm_px_def shm_geom_def)
  next
    case False
    then obtain c' where c': "send_partial_update dx dy dw dh ?c = Inr c'" "sc_device s' = Vncast c'"
      using rp d(1) dev by (auto simp: repaint_copy_def Let_def res_simps)
    have bb: "0 \<le> dx" "0 \<le> dy" "0 < dw" "0 < dh" "dx + dw \<le> uint (m_w c)" "dy + dh \<le> uint (m_h c)"
      using b False dev sz by auto
    then have sm: "small dx" "small dy" "small dw" "small dh" using sz(3,4) by (auto simp: small_def)
    have vc: "vconn_ok ?c" using panel_ok_shadow [OF pc] d(2) dev by (simp add: panel_ok_def)
    have bl: "blitted dx dy dw dh ?c (m_shm c')" by (rule send_partial_update_blitted [OF vc sm c'(1)])
    have g: "shm_geom c' = shm_geom c" "shm_geom ?c = shm_geom c" "shadow_geom ?c = panel_geom s"
      "conv_pixel ?c = conv_pixel c" using send_partial_update_Inr [OF c'(1)]
      by (auto simp: shm_geom_def shadow_geom_def panel_geom_def pix_geom_def dev sz conv_pixel_def conv_of_def fun_eq_iff)
    obtain f where f: "writes ?c c' [C2S_Frame f]" "in_frame f = in_rect dx dy dw dh"
      using send_partial_update_writes [OF c'(1)] bb sz pc by (auto simp: panel_ok_def)
    then have wr: "writes c c' [C2S_Frame f]" using wc
      by (simp add: writes_def same_panel_def frame_inside_def)
    have "if in_pending s (shown_at s col row) \<and> in_source s (shown_at s col row)
      then shm_px c' col row = conv_pixel c (src_px s (shown_at s col row)) \<and> in_frame f (col, row)
      else shm_px c' col row = shm_px c col row" if p: "on_panel s col row" for col row
    proof -
      have i: "br.inside (shm_geom c) col row"
        using p by (simp add: on_panel_def dev sz br.inside_def shm_geom_def)
      have sh: "byte_get (panel_geom s) d col row = src_px s (shown_at s col row)" if "in_rect dx dy dw dh (col, row)"
        using d(3) p that ins [OF p] by (simp add: repainted_def panel_px_def panel_geom_def dev)
      have "byte_get (shm_geom c) (m_shm c') col row =
         (if in_rect dx dy dw dh (col, row) then conv_pixel c (byte_get (panel_geom s) d col row)
          else byte_get (shm_geom c) (m_shm c) col row)"
        using bl i unfolding blitted_def br.painted_def g by (auto simp: in_rect_def)
      then show ?thesis unfolding shm_px_def g f(2) using sh ins [OF p] by auto
    qed
    then show ?thesis using c'(2) wr by (intro exI [of _ c'] exI [of _ "[C2S_Frame f]"]) simp
  qed
qed

lemma repaint_vncast_writes:
  assumes "screen_ok s" "sc_device s = Vncast c" "repaint cm now s = Inr s'"
  shows "\<exists>c' ms. sc_device s' = Vncast c' \<and> writes c c' ms \<and> (\<forall>col row. on_panel s col row \<longrightarrow>
     (if in_pending s (shown_at s col row) \<and> in_source s (shown_at s col row)
      then shm_px c' col row = conv_pixel c (src_px s (shown_at s col row)) \<and>
        (\<exists>f \<in> set (frames_of ms). in_frame f (col, row))
      else shm_px c' col row = shm_px c col row))"
  using repaint_copy_vncast [of "repaint_begin now s" c cm s'] assms
  by (simp add: repaint_split same_view_px [OF repaint_begin_view(2)] cong: if_cong)

text \<open>The contents alone.\<close>

lemma repaint_vncast:
  assumes "screen_ok s" "sc_device s = Vncast c" "repaint cm now s = Inr s'"
  shows "\<exists>c'. sc_device s' = Vncast c' \<and> (\<forall>col row. on_panel s col row \<longrightarrow>
     shm_px c' col row =
       (if in_pending s (shown_at s col row) \<and> in_source s (shown_at s col row)
        then conv_pixel c (src_px s (shown_at s col row)) else shm_px c col row))"
  using repaint_vncast_writes [OF assms] by (metis (full_types))

end
