(* ===== verification/AppInput.thy ===== *)
theory AppInput
  imports AppScreen QtfbCommon
begin

text \<open>
  Input handling and the main loop of vnsee: touch (\<open>src/src/app/touch.cpp\<close>), buttons
  (\<open>src/src/app/buttons.cpp\<close>), the software keyboard (\<open>src/src/app/virtualkeyboard.cpp\<close>) and the
  client that owns them (\<open>src/src/app/client.cpp\<close>). The events sent to the VNC server are
  recorded in order. Codes of input events are those of the qtfb protocol
  (\<open>src/middleware/extension/src/qtfb/common.h\<close>); \<open>KEY_POWER\<close> and \<open>KEY_HOME\<close> are Linux's.
\<close>

section \<open>Codes\<close>

definition KEY_POWER :: int where "KEY_POWER = 116"
definition KEY_HOME :: int where "KEY_HOME = 102"

lemmas input_codes = qtfb_input_codes KEY_POWER_def KEY_HOME_def

datatype mouse_button = No_button | Left | Middle | Right | ScrollDown | ScrollUp | ScrollLeft | ScrollRight

fun button_mask :: "mouse_button \<Rightarrow> u8" where
  "button_mask No_button = 0"
| "button_mask Left = 1"
| "button_mask Middle = push_bit 1 1"
| "button_mask Right = push_bit 2 1"
| "button_mask ScrollDown = push_bit 3 1"
| "button_mask ScrollUp = push_bit 4 1"
| "button_mask ScrollLeft = push_bit 5 1"
| "button_mask ScrollRight = push_bit 6 1"

text \<open>What goes to the VNC server.\<close>

datatype rfb_event = Pointer_event int int u8 | Key_event int bool

section \<open>Handlers\<close>

text \<open>The state the handlers share: the screen and the events sent so far.\<close>

type_synonym app = "screen \<times> rfb_event list"

definition send_button_press :: "int \<Rightarrow> int \<Rightarrow> mouse_button \<Rightarrow> app \<Rightarrow> app" where
  "send_button_press x y button = (\<lambda>(s, out).
     case transform_input s (x, y) of (sx, sy) \<Rightarrow> (s, out @ [Pointer_event sx sy (button_mask button)]))"

definition send_virtual_key_press :: "int \<Rightarrow> bool \<Rightarrow> app \<Rightarrow> app" where
  "send_virtual_key_press keyCode down = (\<lambda>(s, out). (s, out @ [Key_event keyCode down]))"

definition app_set_mode :: "repaint_modes \<Rightarrow> app \<Rightarrow> app" where
  "app_set_mode m = (\<lambda>(s, out). (set_repaint_mode m s, out))"

definition app_repaint :: "(al_call list \<Rightarrow> refresh_mode) \<Rightarrow> int \<Rightarrow> app \<Rightarrow> app res" where
  "app_repaint cm now = (\<lambda>(s, out). bindE (repaint cm now s) (\<lambda>s'. Inr (s', out)))"

definition touch_handle_event ::
  "(al_call list \<Rightarrow> refresh_mode) \<Rightarrow> int \<Rightarrow> int \<Rightarrow> int \<Rightarrow> int \<Rightarrow> app \<Rightarrow> app res" where
  "touch_handle_event cm now type x y a =
     (let a1 = (if type = INPUT_TOUCH_PRESS \<or> type = INPUT_PEN_PRESS then app_set_mode fast a else a);
          a2 = send_button_press x y Left a1 in
      if type = INPUT_TOUCH_RELEASE \<or> type = INPUT_PEN_RELEASE
      then app_repaint cm now (app_set_mode standard (send_button_press x y No_button a2))
      else Inr a2)"

text \<open>The power button ends the process; otherwise the device, maybe refreshed.\<close>

datatype button_outcome = Exited | Running device

definition buttons_handle_event ::
  "(al_call list \<Rightarrow> refresh_mode) \<Rightarrow> int \<Rightarrow> int \<Rightarrow> device \<Rightarrow> button_outcome res" where
  "buttons_handle_event cm type buttonCode d =
     (if type = INPUT_BTN_PRESS \<and> buttonCode = KEY_POWER then Inr Exited
      else if type = INPUT_BTN_PRESS \<and> buttonCode = KEY_HOME
      then bindE (device_update_all cm REFRESH_MODE_UI d) (\<lambda>d'. Inr (Running d'))
      else Inr (Running d))"

definition mapAsciiToX11Key :: "int \<Rightarrow> int" where
  "mapAsciiToX11Key ascii =
     (if 32 \<le> ascii \<and> ascii \<le> 126 then ascii
      else if 0xa0 \<le> ascii \<and> ascii \<le> 0xff then ascii
      else if ascii = 8 then 0xff08
      else if ascii = 9 then 0xff09
      else if ascii = 13 then 0xff0d
      else if ascii = 27 then 0xff1b
      else if ascii = 127 then 0xffff
      else if ascii = INPUT_VKB_LEFT then 0xff51
      else if ascii = INPUT_VKB_UP then 0xff52
      else if ascii = INPUT_VKB_RIGHT then 0xff53
      else if ascii = INPUT_VKB_DOWN then 0xff54
      else if ascii = INPUT_VKB_HOME then 0xff50
      else if ascii = INPUT_VKB_END then 0xff57
      else if ascii = INPUT_VKB_PGUP then 0xff55
      else if ascii = INPUT_VKB_PGDOWN then 0xff56
      else 0)"

definition remapModifierKey :: "int \<Rightarrow> int" where
  "remapModifierKey key =
     (if key = INPUT_VKB_SHIFTMOD then 0xffe1
      else if key = INPUT_VKB_CTRLMOD then 0xffe3
      else if key = INPUT_VKB_ALTMOD then 0xffe9
      else 0)"

definition vkb_handle_event ::
  "(al_call list \<Rightarrow> refresh_mode) \<Rightarrow> int \<Rightarrow> int \<Rightarrow> int \<Rightarrow> app \<Rightarrow> app res" where
  "vkb_handle_event cm now type keyCode a =
     (if keyCode = 0xf001 then
        (if type = INPUT_VKB_PRESS then Inr (app_set_mode fast a) else Inr a)
      else if keyCode = 0xf000 then
        (if type = INPUT_VKB_PRESS then app_repaint cm now (app_set_mode standard a) else Inr a)
      else if keyCode \<noteq> 0 then
        (if keyCode AND 0xFFFF = 0
         then Inr (send_virtual_key_press (remapModifierKey keyCode) (type = INPUT_VKB_PRESS) a)
         else Inr (send_virtual_key_press (mapAsciiToX11Key (keyCode AND 0xFFFF)) (type = INPUT_VKB_PRESS) a))
      else Inr a)"

text \<open>
  One packet on the input thread (which runs only when the display is AppLoad's). The three
  tests of the type exclude each other.
\<close>

definition input_packet ::
  "(al_call list \<Rightarrow> refresh_mode) \<Rightarrow> int \<Rightarrow> int \<times> int \<times> int \<Rightarrow> app \<Rightarrow> (app option) res" where
  "input_packet cm now = (\<lambda>(type, x, y) a.
     if type \<in> {INPUT_TOUCH_PRESS, INPUT_TOUCH_UPDATE, INPUT_TOUCH_RELEASE, INPUT_PEN_PRESS,
                INPUT_PEN_UPDATE, INPUT_PEN_RELEASE}
     then bindE (touch_handle_event cm now type x y a) (\<lambda>a'. Inr (Some a'))
     else if type = INPUT_VKB_PRESS \<or> type = INPUT_VKB_RELEASE
     then bindE (vkb_handle_event cm now type x a) (\<lambda>a'. Inr (Some a'))
     else if type = INPUT_BTN_PRESS \<or> type = INPUT_BTN_RELEASE
     then bindE (buttons_handle_event cm type x (sc_device (fst a))) (\<lambda>r.
       case r of Exited \<Rightarrow> Inr None | Running d \<Rightarrow> Inr (Some ((fst a)\<lparr>sc_device := d\<rparr>, snd a)))
     else Inr (Some a))"

text \<open>The callback that joins the orientation sensor to the screen.\<close>

definition sensor_callback :: "environment \<Rightarrow> device_orientation \<Rightarrow> screen \<Rightarrow> screen" where
  "sensor_callback env d s =
     (let orient = map_device_to_blit env d in
      if orient \<noteq> Auto then set_effective_orientation orient s else s)"

section \<open>The client\<close>

text \<open>
  \<open>rfbInitClient\<close> is the library: \<open>init\<close> says which callbacks it makes and whether it connects.
\<close>

record client =
  c_screen :: screen
  c_serverHost :: string
  c_serverPort :: int
  c_password :: "string option"
  c_sensor :: bool
  c_input_thread :: bool

fun run_callbacks :: "(al_call list \<Rightarrow> refresh_mode) \<Rightarrow> screen_event list \<Rightarrow> screen \<Rightarrow> screen res" where
  "run_callbacks cm [] s = Inr s"
| "run_callbacks cm (e # es) s = bindE (screen_step cm e s) (run_callbacks cm es)"

definition client_new ::
  "(al_call list \<Rightarrow> refresh_mode) \<Rightarrow> environment \<Rightarrow> string \<Rightarrow> int \<Rightarrow> string \<Rightarrow> device option \<Rightarrow> rfb_client \<Rightarrow>
   orientation \<Rightarrow> bool \<Rightarrow> screen_event list \<times> bool \<Rightarrow> client res" where
  "client_new cm env ip port password dev vnc orient auto_rotate init =
     (case dev of
        None \<Rightarrow> Inl (Runtime_error ''Missing screen device'')
      | Some d \<Rightarrow>
          bindE (run_callbacks cm (fst init) (screen_new env d vnc orient)) (\<lambda>s.
          if \<not> snd init then Inl (Runtime_error ''Failed to initialize VNC connection'')
          else Inr \<lparr>c_screen = s, c_serverHost = ip, c_serverPort = port,
                    c_password = (if password \<noteq> [] then Some password else None),
                    c_sensor = auto_rotate, c_input_thread = (\<not> is_vncast d)\<rparr>))"

definition EAGAIN :: int where "EAGAIN = 11"

text \<open>
  The main loop over what \<open>poll\<close> answers: an error, or a return at a time with the callbacks
  the library makes for a readable socket (\<open>None\<close>: not readable) and whether it went well. The
  timeouts given to \<open>poll\<close> are recorded.
\<close>

datatype poll_return = Poll_error int | Poll_ready int "(screen_event list \<times> bool) option"

definition handle_status :: "event_loop_status \<Rightarrow> int \<times> bool \<Rightarrow> int \<times> bool" where
  "handle_status st = (\<lambda>(tmo, q).
     if quit st then (tmo, True)
     else if tmo = -1 then (timeout st, q)
     else if timeout st \<noteq> -1 then (min tmo (timeout st), q)
     else (tmo, q))"

fun client_event_loop ::
  "(al_call list \<Rightarrow> refresh_mode) \<Rightarrow> poll_return list \<Rightarrow> int \<Rightarrow> bool \<Rightarrow> screen \<Rightarrow> int list \<Rightarrow>
   (bool \<times> screen \<times> int list) res" where
  "client_event_loop cm [] tmo q s ts = (if q then Inr (True, s, ts) else Inl Blocked)"
| "client_event_loop cm (p # ps) tmo q s ts =
     (if q then Inr (True, s, ts)
      else case p of
        Poll_error e \<Rightarrow>
          if e \<noteq> EAGAIN then Inl (System_error e ''(client::event_loop) Wait for message'')
          else client_event_loop cm ps tmo q s (ts @ [tmo])
      | Poll_ready now None \<Rightarrow>
          bindE (event_loop cm now s) (\<lambda>(s', st).
          case handle_status st (-1, q) of (tmo', q') \<Rightarrow> client_event_loop cm ps tmo' q' s' (ts @ [tmo]))
      | Poll_ready now (Some (es, ok)) \<Rightarrow>
          bindE (run_callbacks cm es s) (\<lambda>s1.
          if \<not> ok then Inr (False, s1, ts @ [tmo])
          else bindE (event_loop cm now s1) (\<lambda>(s', st).
            case handle_status st (-1, q) of (tmo', q') \<Rightarrow> client_event_loop cm ps tmo' q' s' (ts @ [tmo]))))"

section \<open>Properties\<close>

text \<open>The screen never asks to quit, so the loop ends only because the server closed or on an error.\<close>

lemma event_loop_never_quits: "event_loop cm now s = Inr (s', st) \<Longrightarrow> \<not> quit st"
  by (auto simp: event_loop_def Let_def res_simps split: if_splits)

lemma client_event_loop_result:
  "client_event_loop cm ps tmo False s ts = Inr (b, s', ts') \<Longrightarrow> b = False"
proof (induction ps arbitrary: tmo s ts)
  case (Cons p ps)
  show ?case
  proof (cases p)
    case (Poll_error e)
    then show ?thesis using Cons by (auto split: if_splits)
  next
    case (Poll_ready now r)
    show ?thesis
    proof (cases r)
      case None
      with Poll_ready Cons.prems obtain s1 st where st: "event_loop cm now s = Inr (s1, st)"
        "(case handle_status st (-1, False) of (tmo', q') \<Rightarrow>
            client_event_loop cm ps tmo' q' s1 (ts @ [tmo])) = Inr (b, s', ts')"
        by (auto simp: res_simps)
      from event_loop_never_quits [OF st(1)] st(2) Cons.IH show ?thesis
        by (auto simp: handle_status_def)
    next
      case (Some eo)
      obtain es ok where eo: "eo = (es, ok)" by (cases eo) auto
      show ?thesis
      proof (cases ok)
        case False
        then show ?thesis using Poll_ready Some eo Cons.prems by (auto simp: res_simps)
      next
        case True
        with Poll_ready Some eo Cons.prems obtain s0 s1 st where st: "event_loop cm now s0 = Inr (s1, st)"
          "(case handle_status st (-1, False) of (tmo', q') \<Rightarrow>
              client_event_loop cm ps tmo' q' s1 (ts @ [tmo])) = Inr (b, s', ts')"
          by (auto simp: res_simps)
        from event_loop_never_quits [OF st(1)] st(2) Cons.IH show ?thesis
          by (auto simp: handle_status_def)
      qed
    qed
  qed
qed simp

text \<open>A gesture: a press, movements, a release.\<close>

fun run_touch ::
  "(al_call list \<Rightarrow> refresh_mode) \<Rightarrow> int \<Rightarrow> (int \<times> int \<times> int) list \<Rightarrow> app \<Rightarrow> app res" where
  "run_touch cm now [] a = Inr a"
| "run_touch cm now ((t, x, y) # es) a = bindE (touch_handle_event cm now t x y a) (run_touch cm now es)"

lemma transform_input_mode [simp]: "transform_input (set_repaint_mode m s) p = transform_input s p"
  by (cases p; cases "src_width s \<le> 0 \<or> src_height s \<le> 0"; cases "effective s")
    (simp_all add: transform_input_def set_repaint_mode_def)

definition drag_points :: "screen \<Rightarrow> (int \<times> int) list \<Rightarrow> rfb_event list" where
  "drag_points s ps = map (\<lambda>p. case transform_input s p of (sx, sy) \<Rightarrow> Pointer_event sx sy 1) ps"

lemma run_touch_moves:
  "run_touch cm now (map (\<lambda>(x, y). (INPUT_TOUCH_UPDATE, x, y)) ps @ es) (s, out) =
     run_touch cm now es (s, out @ drag_points s ps)"
proof (induction ps arbitrary: out)
  case (Cons p ps)
  obtain x y where p: "p = (x, y)" by (cases p) auto
  obtain sx sy where t: "transform_input s (x, y) = (sx, sy)" by (cases "transform_input s (x, y)") auto
  have "touch_handle_event cm now INPUT_TOUCH_UPDATE x y (s, out) = Inr (s, out @ [Pointer_event sx sy 1])"
    by (simp add: touch_handle_event_def input_codes send_button_press_def t)
  then show ?case using Cons by (simp add: p t drag_points_def)
qed (simp add: drag_points_def)

text \<open>
  The server sees the button held at every point of the gesture and released at its last point;
  afterwards the screen is in standard mode and has been repainted.
\<close>

lemma gesture_events:
  assumes "run_touch cm now ((INPUT_TOUCH_PRESS, p0) # map (\<lambda>(x, y). (INPUT_TOUCH_UPDATE, x, y)) ps
             @ [(INPUT_TOUCH_RELEASE, p1)]) (s, out) = Inr (s', out')"
  shows "out' = out @ drag_points s (p0 # ps @ [p1]) @
       [case transform_input s p1 of (sx, sy) \<Rightarrow> Pointer_event sx sy 0]" (is ?events)
    and "repaint cm now (s\<lparr>repaint_mode := standard\<rparr>) = Inr s'" (is ?painted)
proof -
  obtain x0 y0 x1 y1 where p: "p0 = (x0, y0)" "p1 = (x1, y1)" by (cases p0; cases p1) auto
  obtain a0 b0 where t0: "transform_input s (x0, y0) = (a0, b0)" by (cases "transform_input s (x0, y0)") auto
  obtain a1 b1 where t1: "transform_input s (x1, y1) = (a1, b1)" by (cases "transform_input s (x1, y1)") auto
  let ?f = "s\<lparr>repaint_mode := fast\<rparr>"
  have tf: "transform_input ?f q = transform_input s q" for q
    using transform_input_mode [of fast s q] by (simp add: set_repaint_mode_def)
  have df: "drag_points ?f qs = drag_points s qs" for qs by (simp add: drag_points_def tf)
  have first: "touch_handle_event cm now INPUT_TOUCH_PRESS x0 y0 (s, out) =
      Inr (?f, out @ [Pointer_event a0 b0 1])"
    by (simp add: touch_handle_event_def input_codes app_set_mode_def send_button_press_def tf t0
        set_repaint_mode_def)
  from assms have "run_touch cm now (map (\<lambda>(x, y). (INPUT_TOUCH_UPDATE, x, y)) ps @ [(INPUT_TOUCH_RELEASE, x1, y1)])
      (?f, out @ [Pointer_event a0 b0 1]) = Inr (s', out')"
    by (simp add: p first)
  then have "touch_handle_event cm now INPUT_TOUCH_RELEASE x1 y1
      (?f, out @ [Pointer_event a0 b0 1] @ drag_points s ps) = Inr (s', out')"
    unfolding run_touch_moves by (auto simp: df res_simps)
  then show ?events ?painted
    by (auto simp: touch_handle_event_def input_codes app_set_mode_def send_button_press_def tf t1
        set_repaint_mode_def app_repaint_def res_simps drag_points_def p t0)
qed

text \<open>Printable ASCII and Latin-1 map to themselves; only key codes the table names map to more.\<close>

lemma mapAscii_latin1:
  "(32 \<le> k \<and> k \<le> 126) \<or> (0xa0 \<le> k \<and> k \<le> 0xff) \<Longrightarrow> mapAsciiToX11Key k = k"
  unfolding mapAsciiToX11Key_def by (cases "32 \<le> k \<and> k \<le> 126") (simp_all only: if_True if_False simp_thms if_P)

definition special_keys :: "(int \<times> int) list" where
  "special_keys = [(8, 0xff08), (9, 0xff09), (13, 0xff0d), (27, 0xff1b), (127, 0xffff), (0x84, 0xff51),
     (0x83, 0xff52), (0x85, 0xff53), (0x82, 0xff54), (0x86, 0xff50), (0x87, 0xff57), (0x80, 0xff55),
     (0x81, 0xff56)]"

lemma mapAscii_cases:
  assumes "mapAsciiToX11Key k \<noteq> 0"
  shows "(mapAsciiToX11Key k = k \<and> k \<le> 0xff) \<or> (k, mapAsciiToX11Key k) \<in> set special_keys"
proof (cases "k \<in> set (map fst special_keys)")
  case True
  have "\<forall>p \<in> set special_keys. mapAsciiToX11Key (fst p) = snd p"
    by (simp add: special_keys_def mapAsciiToX11Key_def input_codes)
  with True show ?thesis by auto
next
  case False
  then have "mapAsciiToX11Key k = (if 32 \<le> k \<and> k \<le> 126 \<or> 0xa0 \<le> k \<and> k \<le> 0xff then k else 0)"
    by (simp add: special_keys_def mapAsciiToX11Key_def input_codes)
  with assms show ?thesis by (auto split: if_splits)
qed

lemma special_keys_values:
  "(j, v) \<in> set special_keys \<Longrightarrow> 0xff < v"
  "(j, v) \<in> set special_keys \<Longrightarrow> (k, v) \<in> set special_keys \<Longrightarrow> j = k"
  by (auto simp: special_keys_def)

lemma mapAscii_inj:
  assumes "mapAsciiToX11Key j = mapAsciiToX11Key k" "mapAsciiToX11Key j \<noteq> 0"
  shows "j = k"
  using mapAscii_cases [of j] mapAscii_cases [of k] special_keys_values assms by force

text \<open>The home button of the middleware never reaches the refresh: its code is not the one tested.\<close>

lemma middleware_buttons_ignored:
  "b \<in> {INPUT_BTN_X_LEFT, INPUT_BTN_X_HOME, INPUT_BTN_X_RIGHT} \<Longrightarrow>
     buttons_handle_event cm t b d = Inr (Running d)"
  by (auto simp: buttons_handle_event_def input_codes)

text \<open>The sensor's callback never leaves the screen without an orientation.\<close>

lemma sensor_callback_ok: "screen_ok s \<Longrightarrow> screen_ok (sensor_callback env d s)"
  by (simp add: sensor_callback_def Let_def set_effective_orientation_ok)

lemma run_callbacks_ok:
  "screen_ok s \<Longrightarrow> run_callbacks cm es s = Inr s' \<Longrightarrow> (\<And>t. \<forall>e \<in> set es. event_ok t e) \<Longrightarrow> screen_ok s'"
proof (induction es arbitrary: s)
  case (Cons e es)
  from Cons.prems(2) obtain s1 where s1: "screen_step cm e s = Inr s1" "run_callbacks cm es s1 = Inr s'"
    by (auto simp: res_simps)
  have "screen_ok s1" using screen_step_ok [OF Cons.prems(1), of e cm] Cons.prems(3) s1(1) by simp
  from Cons.IH [OF this s1(2)] Cons.prems(3) show ?case by simp
qed simp

end
