(* ===== verification/MainProg.thy ===== *)
theory MainProg
  imports Options AppInput
begin

text \<open>
  The main program of vnsee (\<open>src/src/main.cpp\<close>): the guard that silences the tablet's rotation
  events while the program runs and restores them, the choice of an orientation from the
  accelerometer, the command line, and the run of the client. Files of \<open>/sys\<close> are a partial map
  from paths to contents; \<open>wr p\<close> says whether the kernel accepts a write to \<open>p\<close>, and an accepted
  write is what is read next.
\<close>

section \<open>The rotation guard\<close>

type_synonym files = "string \<rightharpoonup> string"

definition read_int :: "files \<Rightarrow> string \<Rightarrow> int" where
  "read_int fs p =
     (case fs p of None \<Rightarrow> -1 | Some t \<Rightarrow> (case scan_int t of None \<Rightarrow> -1 | Some (v, _) \<Rightarrow> v))"

definition write_int :: "(string \<Rightarrow> bool) \<Rightarrow> string \<Rightarrow> int \<Rightarrow> files \<Rightarrow> bool \<times> files" where
  "write_int wr p v fs = (if wr p then (True, fs(p \<mapsto> show_int v)) else (False, fs))"

record guard =
  saved_iio :: "(string \<times> int) list"
  saved_hall :: int
  hall_engaged :: bool
  sing :: bool

definition iio_paths :: "string list" where
  "iio_paths =
     [''/sys/bus/iio/devices/iio:device2/events/in_accel0_gesture_doubletap_en'',
      ''/sys/bus/iio/devices/iio:device3/events/in_accel0_gesture_singletap_en'',
      ''/sys/bus/iio/devices/iio:device4/events/in_accel0_thresh_rising_en'',
      ''/sys/bus/iio/devices/iio:device5/events/in_rot0_change_either_en'']"

definition hall_path :: string where "hall_path = ''/sys/class/input/event1/device/inhibited''"

fun silence :: "(string \<Rightarrow> bool) \<Rightarrow> string list \<Rightarrow> files \<Rightarrow> (string \<times> int) list \<times> files" where
  "silence wr [] fs = ([], fs)"
| "silence wr (p # ps) fs =
     (let prior = read_int fs p; (ok, fs1) = write_int wr p 0 fs; (saved, fs2) = silence wr ps fs1 in
      ((if ok then (p, prior) # saved else saved), fs2))"

definition guard_new :: "(string \<Rightarrow> bool) \<Rightarrow> files \<Rightarrow> guard \<times> files" where
  "guard_new wr fs =
     (let (saved, fs1) = silence wr iio_paths fs;
          prior_hall = read_int fs1 hall_path;
          (engaged, fs2) = (if prior_hall \<ge> 0 then write_int wr hall_path 1 fs1 else (False, fs1)) in
      (\<lparr>saved_iio = saved, saved_hall = (if engaged then prior_hall else 0), hall_engaged = engaged,
        sing = (saved \<noteq> [] \<or> engaged)\<rparr>, fs2))"

fun restore_iio :: "(string \<Rightarrow> bool) \<Rightarrow> (string \<times> int) list \<Rightarrow> files \<Rightarrow> files" where
  "restore_iio wr [] fs = fs"
| "restore_iio wr ((p, prior) # rest) fs =
     restore_iio wr rest (if prior < 0 then fs else snd (write_int wr p prior fs))"

definition restore :: "(string \<Rightarrow> bool) \<Rightarrow> guard \<Rightarrow> files \<Rightarrow> guard \<times> files" where
  "restore wr g fs =
     (let fs1 = restore_iio wr (saved_iio g) fs;
          fs2 = (if hall_engaged g then snd (write_int wr hall_path (saved_hall g) fs1) else fs1) in
      (g\<lparr>saved_iio := [], hall_engaged := False, sing := False\<rparr>, fs2))"

text \<open>
  How the process can end. Leaving \<open>main\<close>, by a return or an exception, destroys the guard; the
  four handled signals restore through \<open>sing_\<close>; \<open>exit\<close>, which the power button calls, runs no
  destructor of \<open>main\<close>'s objects.
\<close>

datatype process_end = Left_main | Signalled | Called_exit

fun end_process :: "(string \<Rightarrow> bool) \<Rightarrow> process_end \<Rightarrow> guard \<Rightarrow> files \<Rightarrow> files" where
  "end_process wr Left_main g fs = snd (restore wr g fs)"
| "end_process wr Signalled g fs = (if sing g then snd (restore wr g fs) else fs)"
| "end_process wr Called_exit g fs = fs"

section \<open>The initial orientation\<close>

definition read_axis :: "files \<Rightarrow> char \<Rightarrow> int" where
  "read_axis fs axis =
     (case fs (''/sys/bus/iio/devices/iio:device0/in_accel_'' @ axis # ''_raw'') of
        None \<Rightarrow> 0
      | Some t \<Rightarrow> (case scan_int t of None \<Rightarrow> 0 | Some (v, _) \<Rightarrow> v))"

definition landscape_of :: "int \<Rightarrow> int \<Rightarrow> int \<Rightarrow> bool" where
  "landscape_of x y z =
     (let ax = \<bar>x\<bar>; ay = \<bar>y\<bar>; az = \<bar>z\<bar> in if az > ax \<and> az > ay then False else ax > ay)"

definition initial_device_is_landscape :: "files \<Rightarrow> bool" where
  "initial_device_is_landscape fs = landscape_of (read_axis fs CHR ''x'') (read_axis fs CHR ''y'') (read_axis fs CHR ''z'')"

section \<open>The command line\<close>

definition default_server_port :: int where "default_server_port = 5900"
definition min_port :: int where "min_port = 1"
definition max_port :: int where "max_port = 65535"

record config =
  server_ip :: string
  server_port :: int
  server_password :: string
  req_buttons :: bool
  req_pen :: bool
  req_touch :: bool
  cfg_orientation :: orientation
  auto_rotate :: bool
  lock_rotation :: bool

datatype exit_code = EXIT_SUCCESS | EXIT_FAILURE
datatype decision = Exit_now exit_code | Start config | Uncaught exn

definition has_opt :: "string \<Rightarrow> dictionary \<Rightarrow> bool" where
  "has_opt k d \<longleftrightarrow> map_of d k \<noteq> None"

definition erase_opt :: "string \<Rightarrow> dictionary \<Rightarrow> dictionary" where
  "erase_opt k d = filter (\<lambda>p. fst p \<noteq> k) d"

text \<open>The client's address in \<open>SSH_CONNECTION\<close>, without the prefix of a mapped IPv4 address.\<close>

definition ssh_ip :: "string \<Rightarrow> string" where
  "ssh_ip ssh_conn =
     (let ip = takeWhile (\<lambda>c. c \<noteq> CHR '' '') ssh_conn in
      if take 7 ssh_conn = ''::ffff:'' then drop 7 ip else ip)"

definition known_opts :: "string list" where
  "known_opts = [''no-buttons'', ''no-pen'', ''no-touch'', ''orientation'', ''auto-rotate'', ''no-lock-rotation'']"

definition main_args :: "environment \<Rightarrow> string list \<Rightarrow> decision" where
  "main_args env args =
     (let (opts, oper) = parse args in
      if has_opt ''help'' opts \<or> has_opt ''h'' opts then Exit_now EXIT_SUCCESS
      else if has_opt ''version'' opts \<or> has_opt ''v'' opts then Exit_now EXIT_SUCCESS
      else if length oper > 3 then Exit_now EXIT_FAILURE
      else
        case (if oper \<noteq> [] then Some (oper ! 0) else map_option ssh_ip (env ''SSH_CONNECTION'')) of
          None \<Rightarrow> Exit_now EXIT_FAILURE
        | Some ip \<Rightarrow>
            (case (if length oper \<ge> 2 then stoi (oper ! 1) else Inr default_server_port) of
               Inl e \<Rightarrow> if e = Invalid_argument then Exit_now EXIT_FAILURE else Uncaught e
             | Inr port \<Rightarrow>
                 if length oper \<ge> 2 \<and> (port < min_port \<or> port > max_port) then Exit_now EXIT_FAILURE
                 else if map_of opts ''orientation'' = Some [] then Exit_now EXIT_FAILURE
                 else if fold erase_opt known_opts opts \<noteq> [] then Exit_now EXIT_FAILURE
                 else Start
                   \<lparr>server_ip = ip, server_port = port,
                    server_password = (if length oper = 3 then oper ! 2 else []),
                    req_buttons = (\<not> has_opt ''no-buttons'' opts), req_pen = (\<not> has_opt ''no-pen'' opts),
                    req_touch = (\<not> has_opt ''no-touch'' opts),
                    cfg_orientation = (case map_of opts ''orientation'' of
                       Some (v # vs) \<Rightarrow> orientation_from_string v | _ \<Rightarrow> Auto),
                    auto_rotate = has_opt ''auto-rotate'' opts,
                    lock_rotation = (\<not> has_opt ''no-lock-rotation'' opts)\<rparr>))"

section \<open>The run\<close>

definition start_orientation :: "environment \<Rightarrow> files \<Rightarrow> orientation \<Rightarrow> orientation \<times> environment" where
  "start_orientation env fs o' =
     (if o' = Auto \<and> env ''VNCAST_QTFB_SOCKET'' = None \<and> initial_device_is_landscape fs
      then (Portrait, if env ''QTFB_RESOLUTION'' = None then env(''QTFB_RESOLUTION'' \<mapsto> ''2160x1620'') else env)
      else (o', env))"

text \<open>
  What the run meets: the kernel, the AppLoad library, the VNC library and what \<open>poll\<close> answers.
\<close>

record world =
  w_os :: os
  w_env :: environment
  w_files :: files
  w_writable :: "string \<Rightarrow> bool"
  w_tx :: "tx_ret list"
  w_rx :: "rx_ret list"
  w_open_qtfb :: "fb_format \<Rightarrow> (int \<times> int) option \<Rightarrow> int + appload"
  w_mode :: "al_call list \<Rightarrow> refresh_mode"
  w_vnc :: rfb_client
  w_init :: "screen_event list \<times> bool"
  w_polls :: "poll_return list"

datatype run_result = Exit_code exit_code | Terminated exn | Meaningless ub | Hangs

text \<open>
  The request for devices is a bit set (\<open>flags.hpp\<close>) in the order buttons, touch, pen, screen,
  virtual keyboard; \<open>device::detect\<close> opens the screen whatever it says.
\<close>

definition flag_screen :: "5 word" where "flag_screen = push_bit 3 1"

definition set_flag :: "nat \<Rightarrow> bool \<Rightarrow> 5 word \<Rightarrow> 5 word" where
  "set_flag i b w = (if b then set_bit i w else unset_bit i w)"

definition has_flag :: "nat \<Rightarrow> 5 word \<Rightarrow> bool" where
  "has_flag i w = bit w i"

definition request_of :: "config \<Rightarrow> 5 word" where
  "request_of cfg =
     (let r0 = flag_screen;
          r1 = (if req_buttons cfg then set_flag 0 True r0 else r0);
          r2 = (if req_pen cfg then set_flag 2 True r1 else r1) in
      if req_touch cfg then set_flag 1 True r2 else r2)"

definition device_detect :: "world \<Rightarrow> environment \<Rightarrow> files \<Rightarrow> 5 word \<Rightarrow> device res" where
  "device_detect w env fs request = device_open (w_os w) env fs (w_tx w) (w_rx w) (w_open_qtfb w)"

definition client_run :: "world \<Rightarrow> config \<Rightarrow> files \<Rightarrow> exit_code res" where
  "client_run w cfg fs =
     (let (orient, env) = start_orientation (w_env w) fs (cfg_orientation cfg) in
      bindE (device_detect w env fs (request_of cfg)) (\<lambda>d.
      bindE (client_new (w_mode w) env (server_ip cfg) (server_port cfg) (server_password cfg) (Some d)
              (w_vnc w) orient (auto_rotate cfg) (w_init w)) (\<lambda>c.
      bindE (client_event_loop (w_mode w) (w_polls w) (-1) False (c_screen c) []) (\<lambda>(b, s, ts).
        Inr (if b then EXIT_SUCCESS else EXIT_FAILURE)))))"

text \<open>The result and the files of \<open>/sys\<close> afterwards. Exceptions inside the run are caught.\<close>

definition main_prog :: "world \<Rightarrow> string list \<Rightarrow> run_result \<times> files" where
  "main_prog w args =
     (case main_args (w_env w) args of
        Exit_now c \<Rightarrow> (Exit_code c, w_files w)
      | Uncaught e \<Rightarrow> (Terminated e, w_files w)
      | Start cfg \<Rightarrow>
          let (g, fs) = (if lock_rotation cfg then guard_new (w_writable w) (w_files w)
                         else (\<lparr>saved_iio = [], saved_hall = 0, hall_engaged = False, sing = False\<rparr>, w_files w)) in
          case client_run w cfg fs of
            Inl (Undefined u) \<Rightarrow> (Meaningless u, fs)
          | Inl Blocked \<Rightarrow> (Hangs, fs)
          | Inl e \<Rightarrow> (Exit_code EXIT_FAILURE, end_process (w_writable w) Left_main g fs)
          | Inr c \<Rightarrow> (Exit_code c, end_process (w_writable w) Left_main g fs))"

section \<open>The guard: what it changes and what it gives back\<close>

lemma iio_paths_distinct: "distinct iio_paths" "hall_path \<notin> set iio_paths"
  by (simp_all add: iio_paths_def hall_path_def)

lemma read_int_cong: "fs p = fs' p \<Longrightarrow> read_int fs p = read_int fs' p"
  by (simp add: read_int_def)

lemma read_int_written: "read_int (fs(p \<mapsto> show_int v)) p = v"
  using scan_int_show_int [of "[]" v] by (simp add: read_int_def starts_with_digit_def)

lemma silence_spec:
  assumes "distinct ps" "silence wr ps fs = (saved, fs')"
  shows "saved = map (\<lambda>p. (p, read_int fs p)) (filter wr ps) \<and>
    fs' p = (if p \<in> set ps \<and> wr p then Some (show_int 0) else fs p)"
  using assms
proof (induction wr ps fs arbitrary: saved fs' rule: silence.induct)
  case (2 wr q ps fs)
  obtain ok fs1 where w: "write_int wr q 0 fs = (ok, fs1)" by (cases "write_int wr q 0 fs") auto
  obtain sv fs2 where r: "silence wr ps fs1 = (sv, fs2)" by (cases "silence wr ps fs1") auto
  have ok: "ok = wr q" and other: "\<And>p. fs1 p = (if wr q \<and> p = q then Some (show_int 0) else fs p)"
    using w by (auto simp: write_int_def split: if_splits)
  have d: "q \<notin> set ps" "distinct ps" using 2(2) by auto
  have ih: "sv = map (\<lambda>p. (p, read_int fs1 p)) (filter wr ps)"
    "fs2 p = (if p \<in> set ps \<and> wr p then Some (show_int 0) else fs1 p)"
    using 2(1) [OF refl w [symmetric] refl d(2) r] by auto
  have same: "map (\<lambda>p. (p, read_int fs1 p)) (filter wr ps) = map (\<lambda>p. (p, read_int fs p)) (filter wr ps)"
    using d(1) by (auto intro!: read_int_cong simp: other)
  have e: "saved = (if ok then (q, read_int fs q) # sv else sv)" "fs' = fs2"
    using 2(3) by (simp_all add: w r)
  show ?case unfolding e using ih(1) same ih(2) ok by (auto simp: other)
qed simp

lemma restore_iio_spec:
  assumes "distinct ps"
  shows "restore_iio wr (map (\<lambda>p. (p, f p)) ps) fs p =
    (if p \<in> set ps \<and> wr p \<and> 0 \<le> f p then Some (show_int (f p)) else fs p)"
  using assms by (induction ps arbitrary: fs) (auto simp: write_int_def)

lemma guard_new_spec:
  assumes "guard_new wr fs = (g, fs1)"
  shows "saved_iio g = map (\<lambda>p. (p, read_int fs p)) (filter wr iio_paths)"
    and "hall_engaged g \<longleftrightarrow> wr hall_path \<and> 0 \<le> read_int fs hall_path"
    and "hall_engaged g \<Longrightarrow> saved_hall g = read_int fs hall_path"
    and "sing g \<longleftrightarrow> saved_iio g \<noteq> [] \<or> hall_engaged g"
    and "fs1 p = (if p \<in> set iio_paths \<and> wr p then Some (show_int 0)
       else if p = hall_path \<and> wr p \<and> 0 \<le> read_int fs p then Some (show_int 1) else fs p)"
proof -
  obtain sv fs0 where s: "silence wr iio_paths fs = (sv, fs0)" by (cases "silence wr iio_paths fs") auto
  note sp = silence_spec [OF iio_paths_distinct(1) s]
  have h: "read_int fs0 hall_path = read_int fs hall_path"
    using sp [of hall_path] iio_paths_distinct(2) by (intro read_int_cong) simp
  obtain e fs2 where w: "(if read_int fs hall_path \<ge> 0 then write_int wr hall_path 1 fs0 else (False, fs0)) = (e, fs2)"
    by (cases "if read_int fs hall_path \<ge> 0 then write_int wr hall_path 1 fs0 else (False, fs0)") auto
  have g: "g = \<lparr>saved_iio = sv, saved_hall = (if e then read_int fs hall_path else 0), hall_engaged = e,
      sing = (sv \<noteq> [] \<or> e)\<rparr>" "fs1 = fs2"
    using assms by (simp_all add: guard_new_def s h w)
  have e: "e \<longleftrightarrow> wr hall_path \<and> 0 \<le> read_int fs hall_path"
    and f: "fs2 p = (if p = hall_path \<and> e then Some (show_int 1) else fs0 p)"
    using w by (auto simp: write_int_def split: if_splits)
  show "saved_iio g = map (\<lambda>p. (p, read_int fs p)) (filter wr iio_paths)" using sp g by simp
  show "hall_engaged g \<longleftrightarrow> wr hall_path \<and> 0 \<le> read_int fs hall_path"
    "hall_engaged g \<Longrightarrow> saved_hall g = read_int fs hall_path"
    "sing g \<longleftrightarrow> saved_iio g \<noteq> [] \<or> hall_engaged g"
    using g e by auto
  show "fs1 p = (if p \<in> set iio_paths \<and> wr p then Some (show_int 0)
       else if p = hall_path \<and> wr p \<and> 0 \<le> read_int fs p then Some (show_int 1) else fs p)"
    using sp [of p] g f e iio_paths_distinct(2) by auto
qed

text \<open>The paths the guard touches, and what a path holds after a guard has restored over \<open>fs'\<close>.\<close>

definition guarded :: "string \<Rightarrow> bool" where
  "guarded p \<longleftrightarrow> p \<in> set iio_paths \<or> p = hall_path"

lemma restore_spec:
  assumes "guard_new wr fs = (g, fs1)"
  shows "snd (restore wr g fs') p =
    (if guarded p \<and> wr p \<and> 0 \<le> read_int fs p then Some (show_int (read_int fs p)) else fs' p)"
proof -
  note sp = guard_new_spec [OF assms]
  have r: "restore_iio wr (saved_iio g) fs' q =
      (if q \<in> set iio_paths \<and> wr q \<and> 0 \<le> read_int fs q then Some (show_int (read_int fs q)) else fs' q)" for q
    unfolding sp(1) using restore_iio_spec [of "filter wr iio_paths" wr "read_int fs" fs' q] iio_paths_distinct(1)
    by (simp add: distinct_filter)
  show ?thesis
  proof (cases "hall_engaged g")
    case True
    then have "wr hall_path" "0 \<le> read_int fs hall_path" "saved_hall g = read_int fs hall_path"
      using sp(2,3) by auto
    then show ?thesis using True r by (auto simp: restore_def guarded_def write_int_def Let_def)
  next
    case False
    then have "\<not> (wr hall_path \<and> 0 \<le> read_int fs hall_path)" using sp(2) by simp
    then show ?thesis using False r by (auto simp: restore_def guarded_def Let_def)
  qed
qed

text \<open>A signal restores exactly what leaving \<open>main\<close> restores.\<close>

lemma signalled_restores:
  assumes "guard_new wr fs = (g, fs1)"
  shows "end_process wr Signalled g fs' = end_process wr Left_main g fs'"
proof (cases "sing g")
  case False
  then have "saved_iio g = []" "\<not> hall_engaged g" using guard_new_spec(4) [OF assms] by auto
  then show ?thesis by (simp add: restore_def False)
qed simp

text \<open>Whenever the guard has changed a path, it reads as silenced while the program runs.\<close>

lemma guard_locks:
  assumes "guard_new wr fs = (g, fs1)" "p \<in> set iio_paths" "wr p"
  shows "read_int fs1 p = 0"
  using guard_new_spec(5) [OF assms(1), of p] assms(2,3) read_int_written [of Map.empty p 0]
  by (simp add: read_int_def)

section \<open>The first orientation and the sensor's\<close>

text \<open>
  Apart from ties of the two screen axes, the orientation chosen at the start is the one the sensor
  thread decides on as soon as it decides.
\<close>

lemma landscape_agrees:
  "classify x y z \<noteq> Unknown \<Longrightarrow> \<bar>x\<bar> \<noteq> \<bar>y\<bar> \<Longrightarrow>
     (landscape_of x y z \<longleftrightarrow> classify x y z = LandscapeLeft \<or> classify x y z = LandscapeRight)"
  by (auto simp: classify_def landscape_of_def Let_def split: if_splits)

section \<open>The command line\<close>

lemma plain_show_nat: "plain (show_nat n)"
proof -
  obtain c cs where c: "show_nat n = c # cs" using show_nat_nonempty by (cases "show_nat n") auto
  have "is_digit c" using show_nat_digits [of n] c by simp
  then show ?thesis using digit_not_special [of c] by (auto simp: plain_def cstr_at_def c)
qed

lemma parse_operands: "\<forall>v \<in> set vs. plain v \<Longrightarrow> parse vs = ([], vs)"
proof -
  assume pl: "\<forall>v \<in> set vs. plain v"
  have ok: "line_ok (map Operand vs)" using pl
    by (induction vs rule: induct_list012) auto
  have d: "foldl denote_arg (d, ops) (map Operand vs) = (d, ops @ vs)" for d ops
    by (induction vs arbitrary: ops) auto
  show ?thesis using parse_render [OF ok] d [of "[]" "[]"]
    by (simp add: denote_def concat_map_singleton o_def)
qed

lemma main_args_port:
  assumes "plain ip" "plain pw"
  shows "main_args env [ip, show_int (int n), pw] =
    (if int n > INT_MAX then Uncaught Out_of_range
     else if n = 0 \<or> int n > max_port then Exit_now EXIT_FAILURE
     else Start \<lparr>server_ip = ip, server_port = int n, server_password = pw, req_buttons = True,
       req_pen = True, req_touch = True, cfg_orientation = Auto, auto_rotate = False, lock_rotation = True\<rparr>)"
proof -
  have "parse [ip, show_int (int n), pw] = ([], [ip, show_int (int n), pw])"
    using assms plain_show_nat by (intro parse_operands) (simp add: show_int_def)
  then show ?thesis using stoi_show_int [of "int n"]
    by (simp add: main_args_def has_opt_def known_opts_def erase_opt_def min_port_def max_port_def
        INT_MIN_def INT_MAX_def)
qed

lemma flag_set: "i < 5 \<Longrightarrow> j < 5 \<Longrightarrow> has_flag j (set_flag i b w) = (if j = i then b else has_flag j w)"
  by (auto simp: has_flag_def set_flag_def bit_simps)

text \<open>The request says what the command line asked for.\<close>

lemma request_flags:
  "has_flag 0 (request_of cfg) = req_buttons cfg" "has_flag 1 (request_of cfg) = req_touch cfg"
  "has_flag 2 (request_of cfg) = req_pen cfg" "has_flag 3 (request_of cfg)" "\<not> has_flag 4 (request_of cfg)"
proof -
  have "has_flag j flag_screen = (j = 3)" if "j < 5" for j
  proof -
    have "bit (push_bit 3 1 :: 5 word) j \<longleftrightarrow> j = 3" unfolding bit_push_bit_iff using that by (auto simp: bit_1_iff)
    then show ?thesis by (simp only: has_flag_def flag_screen_def)
  qed
  then show "has_flag 0 (request_of cfg) = req_buttons cfg" "has_flag 1 (request_of cfg) = req_touch cfg"
    "has_flag 2 (request_of cfg) = req_pen cfg" "has_flag 3 (request_of cfg)" "\<not> has_flag 4 (request_of cfg)"
    by (simp_all add: request_of_def flag_set Let_def)
qed

section \<open>The end of the run\<close>

lemma client_run_fails: "client_run w cfg fs = Inr c \<Longrightarrow> c = EXIT_FAILURE"
  by (auto simp: client_run_def res_simps Let_def split: prod.splits dest: client_event_loop_result)

text \<open>
  Once the program has got past its command line it never reports success; and if it ends, every
  path it had silenced reads as it did before, provided it could be read.
\<close>

lemma main_prog_success:
  "fst (main_prog w args) = Exit_code EXIT_SUCCESS \<longleftrightarrow> main_args (w_env w) args = Exit_now EXIT_SUCCESS"
  by (auto simp: main_prog_def Let_def client_run_fails split: decision.splits prod.splits sum.splits exn.splits
      dest: client_run_fails)

definition given_back :: "world \<Rightarrow> string \<Rightarrow> string option" where
  "given_back w p =
     (if guarded p \<and> w_writable w p then
        if 0 \<le> read_int (w_files w) p then Some (show_int (read_int (w_files w) p))
        else if p \<in> set iio_paths then Some (show_int 0) else w_files w p
      else w_files w p)"

lemma left_main_gives_back:
  assumes "guard_new (w_writable w) (w_files w) = (g, fs)"
  shows "end_process (w_writable w) Left_main g fs p = given_back w p"
  using restore_spec [OF assms, of fs p] guard_new_spec(5) [OF assms, of p] iio_paths_distinct(2)
  by (auto simp: given_back_def guarded_def)

lemma no_guard_restores: "end_process wr Left_main \<lparr>saved_iio = [], saved_hall = 0, hall_engaged = False, sing = False\<rparr> fs = fs"
  by (simp add: restore_def)

lemma main_prog_files:
  assumes "main_prog w args = (Exit_code c, fs)"
  shows "fs p = (case main_args (w_env w) args of
      Start cfg \<Rightarrow> if lock_rotation cfg then given_back w p else w_files w p
    | _ \<Rightarrow> w_files w p)"
proof (cases "main_args (w_env w) args")
  case (Start cfg)
  show ?thesis
  proof (cases "lock_rotation cfg")
    case True
    obtain g fs1 where g: "guard_new (w_writable w) (w_files w) = (g, fs1)"
      by (cases "guard_new (w_writable w) (w_files w)") auto
    have "fs = end_process (w_writable w) Left_main g fs1"
      using assms by (auto simp: main_prog_def Start True g split: sum.splits exn.splits)
    then show ?thesis using left_main_gives_back [OF g] by (simp add: Start True)
  next
    case False
    then show ?thesis using assms no_guard_restores
      by (auto simp: main_prog_def Start split: sum.splits exn.splits)
  qed
qed (use assms in \<open>simp_all add: main_prog_def\<close>)

end
