(* ===== verification/Launcher.thy ===== *)
theory Launcher
  imports FrameView Settings EpdcHook MainProg
begin

text \<open>
  The launcher of the middleware (\<open>src/middleware/extension/src/launcher.h\<close>, \<open>launcher.cpp\<close>): the
  overlay, the framebuffer server it owns, the vnsee process it starts and stops, and the status it
  shows. The server objects live in a map from identities to states, and an object given to
  \<open>deleteLater\<close> is destroyed by a later turn of the event loop. The item that shows the frames is
  part of the state: QML binds its server to \<open>qtfbServer\<close>, so it follows every \<open>qtfbServerChanged\<close>.
  The signals a server operation emits are delivered when the operation is over; the slots read
  nothing that messages change. The texts of the status line are the constructors of a type.
\<close>

section \<open>State\<close>

datatype session_status =
    No_status
  | Starting_server
  | Allocating int int bool
  | Server_failed
  | Vnsee_connected
  | Vnsee_disconnected
  | Receiving_frames
  | Spawning string int
  | Failed_to_start string
  | Vnsee_running int
  | Exited_cleanly
  | Exited int
  | Stopping
  | Disconnected

datatype launcher_signal =
    SessionStarted
  | SessionEnded int
  | OverlayOpenChanged
  | QtfbServerChanged
  | SessionStatusChanged

record process =
  pr_pid :: int
  pr_running :: bool
  pr_args :: "string list"
  pr_env :: environment

record launcher =
  lc_overlay :: "bool option"    \<comment> \<open>the registered loader's property \<open>active\<close>\<close>
  lc_proc :: "process option"
  lc_server :: "nat option"
  lc_overlayOpen :: bool
  lc_status :: session_status
  lc_objs :: "nat \<rightharpoonup> server"
  lc_later :: "nat list"         \<comment> \<open>server objects given to \<open>deleteLater\<close>\<close>
  lc_next :: nat
  lc_view :: frame_view
  lc_hooks :: hooks
  lc_signals :: "launcher_signal list"

definition waveform_to_mode :: "string \<Rightarrow> int" where
  "waveform_to_mode w = -1"

definition kQtfbSocket :: string where "kQtfbSocket = ''/run/vncast.sock''"

definition launcher_with :: "hooks \<Rightarrow> rat \<times> rat \<Rightarrow> launcher" where
  "launcher_with h sz =
     \<lparr>lc_overlay = None, lc_proc = None, lc_server = None, lc_overlayOpen = False, lc_status = No_status,
      lc_objs = Map.empty, lc_later = [], lc_next = 0, lc_view = frame_view_new sz, lc_hooks = h,
      lc_signals = []\<rparr>"

text \<open>The constructor installs the hook only when the environment asks for it.\<close>

definition launcher_new ::
  "environment \<Rightarrow> (u64 \<times> u64 \<times> u64 \<times> u64) option \<Rightarrow> install_env \<Rightarrow> code_mem \<Rightarrow> rat \<times> rat \<Rightarrow> launcher res" where
  "launcher_new env lib ie m sz =
     (if env ''VNCAST_ENABLE_EPDC_HOOK'' \<noteq> None
      then bindE (installHook lib ie (hooks_init m)) (\<lambda>h. Inr (launcher_with (setLogging True h) sz))
      else Inr (launcher_with (hooks_init m) sz))"

definition lc_emit :: "launcher_signal \<Rightarrow> launcher \<Rightarrow> launcher" where
  "lc_emit g l = l\<lparr>lc_signals := lc_signals l @ [g]\<rparr>"

section \<open>The overlay and the status\<close>

definition setOverlayOpen :: "bool \<Rightarrow> launcher \<Rightarrow> launcher" where
  "setOverlayOpen v l = (if lc_overlayOpen l = v then l else lc_emit OverlayOpenChanged (l\<lparr>lc_overlayOpen := v\<rparr>))"

text \<open>A loader comes with its present value of \<open>active\<close>.\<close>

definition registerOverlayLoader :: "bool option \<Rightarrow> launcher \<Rightarrow> launcher" where
  "registerOverlayLoader loader l = l\<lparr>lc_overlay := loader\<rparr>"

definition openOverlay :: "launcher \<Rightarrow> launcher" where
  "openOverlay l = (if lc_overlay l = None then l else setOverlayOpen True (l\<lparr>lc_overlay := Some True\<rparr>))"

definition closeOverlay :: "launcher \<Rightarrow> launcher" where
  "closeOverlay l = (if lc_overlay l = None then l else setOverlayOpen False (l\<lparr>lc_overlay := Some False\<rparr>))"

definition setStatus :: "session_status \<Rightarrow> launcher \<Rightarrow> launcher" where
  "setStatus s l = (if lc_status l = s then l else lc_emit SessionStatusChanged (l\<lparr>lc_status := s\<rparr>))"

section \<open>The signals of the server\<close>

definition server_changed :: "launcher \<Rightarrow> launcher" where
  "server_changed l = lc_emit QtfbServerChanged (l\<lparr>lc_view := fv_setServer (lc_objs l) (lc_server l) (lc_view l)\<rparr>)"

text \<open>The launcher's three lambdas; \<open>m_server\<close> is used without a check in the last.\<close>

fun on_server_signal :: "signal \<Rightarrow> launcher \<Rightarrow> launcher res" where
  "on_server_signal ClientConnected l = Inr (setStatus Vnsee_connected l)"
| "on_server_signal ClientDisconnected l =
     (let l1 = setStatus Vnsee_disconnected l in Inr (l1\<lparr>lc_hooks := epdc_setActive False (lc_hooks l1)\<rparr>))"
| "on_server_signal (FrameReady seq x y dw dh) l =
     (if seq = 0 \<or> seq = 1 then
        let l1 = setStatus Receiving_frames l; h1 = epdc_setActive True (lc_hooks l1) in
        case Option.bind (lc_server l1) (lc_objs l1) of
          None \<Rightarrow> Inl (Undefined Null_deref)
        | Some s \<Rightarrow> Inr (l1\<lparr>lc_hooks := setForceMode (waveform_to_mode (sv_waveform s)) h1\<rparr>)
      else Inr l)"
| "on_server_signal _ l = Inr l"

text \<open>The slots of the item, while it is connected to the object that emits.\<close>

fun on_view_signal :: "nat \<Rightarrow> signal \<Rightarrow> launcher \<Rightarrow> launcher res" where
  "on_view_signal i (FrameReady seq x y dw dh) l =
     (if fv_server (lc_view l) = Some i
      then bindE (onFrameReady seq x y dw dh (lc_view l)) (\<lambda>v. Inr (l\<lparr>lc_view := v\<rparr>)) else Inr l)"
| "on_view_signal i ClientConnected l =
     (if fv_server (lc_view l) = Some i then Inr (l\<lparr>lc_view := rebuildImage (lc_objs l) (lc_view l)\<rparr>) else Inr l)"
| "on_view_signal i ClientDisconnected l =
     (if fv_server (lc_view l) = Some i then Inr (l\<lparr>lc_view := rebuildImage (lc_objs l) (lc_view l)\<rparr>) else Inr l)"
| "on_view_signal i _ l = Inr l"

fun deliver :: "nat \<Rightarrow> signal list \<Rightarrow> launcher \<Rightarrow> launcher res" where
  "deliver i [] l = Inr l"
| "deliver i (g # gs) l = bindE (on_server_signal g l) (\<lambda>l1. bindE (on_view_signal i g l1) (\<lambda>l2. deliver i gs l2))"

text \<open>The object \<open>i\<close> goes from \<open>s\<close> to \<open>s'\<close>; what it has emitted on the way is delivered.\<close>

definition put_server :: "nat \<Rightarrow> server \<Rightarrow> server \<Rightarrow> launcher \<Rightarrow> launcher res" where
  "put_server i s s' l =
     deliver i (drop (length (sv_signals s)) (sv_signals s')) (l\<lparr>lc_objs := (lc_objs l)(i \<mapsto> s')\<rparr>)"

section \<open>The server's life\<close>

definition retire_server :: "bool \<Rightarrow> nat \<Rightarrow> server \<Rightarrow> launcher \<Rightarrow> launcher res" where
  "retire_server dsync i s l =
     (let l1 = server_changed (l\<lparr>lc_server := None\<rparr>) in
      bindE (server_stop dsync s) (\<lambda>s1.
      bindE (put_server i s s1 l1) (\<lambda>l2. Inr (l2\<lparr>lc_later := lc_later l2 @ [i]\<rparr>))))"

definition start_server :: "server_io \<Rightarrow> device_info \<Rightarrow> bool \<Rightarrow> launcher \<Rightarrow> (bool \<times> launcher) res" where
  "start_server io info gray l =
     (let l1 = (if lc_server l = None
                then l\<lparr>lc_server := Some (lc_next l), lc_next := lc_next l + 1,
                       lc_objs := (lc_objs l)(lc_next l \<mapsto> server_init False)\<rparr> else l) in
      case lc_server l1 of
        None \<Rightarrow> Inl (Undefined Null_deref)
      | Some i \<Rightarrow>
          (case lc_objs l1 i of
             None \<Rightarrow> Inl (Undefined Dangling)
           | Some s \<Rightarrow>
               let s1 = s\<lparr>m_use_grayscale_shm := gray\<rparr>;
                   l2 = setStatus (Allocating (di_w info) (di_h info) gray) l1;
                   (ok, s2) = server_start io info s1 in
               bindE (put_server i s1 s2 l2) (\<lambda>l3.
               if ok then Inr (True, server_changed l3)
               else
                 let l4 = setStatus Server_failed l3 in
                 Inr (False, server_changed (l4\<lparr>lc_server := None, lc_later := lc_later l4 @ [i]\<rparr>)))))"

definition ensureServerStarted ::
  "bool \<Rightarrow> server_io \<Rightarrow> device_info \<Rightarrow> bool \<Rightarrow> launcher \<Rightarrow> (bool \<times> launcher) res" where
  "ensureServerStarted dsync io info gray l =
     (case lc_server l of
        None \<Rightarrow> start_server io info gray l
      | Some i \<Rightarrow>
          (case lc_objs l i of
             None \<Rightarrow> Inl (Undefined Dangling)
           | Some s \<Rightarrow>
               if sv_shm s = None then start_server io info gray l
               else if m_use_grayscale_shm s = gray then Inr (True, l)
               else bindE (retire_server dsync i s l) (start_server io info gray)))"

section \<open>The session\<close>

text \<open>\<open>port - 5900\<close> is formed for a port other than the default.\<close>

definition session_port :: "variant_map \<Rightarrow> int" where
  "session_port cfg = variant_toInt (variant_value cfg ''port'' (VInt 5900))"

definition port_offset :: "int \<Rightarrow> int res" where
  "port_offset port = (if port = 5900 then Inr 0 else ckint (port - 5900))"

definition vnsee_args :: "string \<Rightarrow> int \<Rightarrow> string list" where
  "vnsee_args host port = (if port = 5900 then [host] else [host @ '':'' @ show_int (port - 5900)])"

definition cfg_waveform :: "variant_map \<Rightarrow> string" where
  "cfg_waveform cfg =
     (if variant_toBool (variant_value cfg ''lowLatency'' (VBool False)) then ''DU''
      else variant_toString (variant_value cfg ''waveform'' (VStr ''A2'')))"

definition cfg_gray :: "variant_map \<Rightarrow> bool" where
  "cfg_gray cfg = variant_toBool (variant_value cfg ''grayscale'' (VBool True))"

definition vnsee_env :: "variant_map \<Rightarrow> environment \<Rightarrow> environment" where
  "vnsee_env cfg sysenv =
     (let encoding = variant_toString (variant_value cfg ''encoding'' (VStr ''COPYRECT''));
          env1 = sysenv(''VNCAST_QTFB_SOCKET'' \<mapsto> kQtfbSocket,
                        ''VNCAST_FPS'' \<mapsto> show_int (variant_toInt (variant_value cfg ''fps'' (VInt 0))));
          env2 = (if encoding \<noteq> ''COPYRECT'' then env1(''VNSEE_ENCODING'' \<mapsto> encoding) else env1) in
      env2(''VNCAST_WAVEFORM'' \<mapsto> cfg_waveform cfg,
           ''VNCAST_ORIENTATION'' \<mapsto> variant_toString (variant_value cfg ''orientation'' (VStr ''auto'')),
           ''VNCAST_FORCE_GRAYSCALE'' \<mapsto> (if cfg_gray cfg then ''1'' else ''0''),
           ''VNCAST_PREFER_MONO1'' \<mapsto>
             (if variant_toBool (variant_value cfg ''mono1'' (VBool False)) then ''1'' else ''0''),
           ''VNCAST_COMPRESS_LEVEL'' \<mapsto>
             show_int (variant_toInt (variant_value cfg ''compressLevel'' (VInt 0)))))"

definition set_waveform :: "string \<Rightarrow> launcher \<Rightarrow> launcher" where
  "set_waveform w l =
     (case lc_server l of
        None \<Rightarrow> l
      | Some i \<Rightarrow> l\<lparr>lc_objs := (lc_objs l)(i := map_option (\<lambda>s. s\<lparr>sv_waveform := w\<rparr>) (lc_objs l i))\<rparr>)"

text \<open>\<open>spawn\<close>: the identity of the process that has started, or the error text.\<close>

definition spawn_vnsee :: "string + int \<Rightarrow> variant_map \<Rightarrow> environment \<Rightarrow> launcher \<Rightarrow> launcher" where
  "spawn_vnsee spawn cfg sysenv l =
     (let host = variant_toString (variant_value cfg ''host'' (VStr ''10.11.99.2''));
          port = session_port cfg;
          l1 = setStatus (Spawning host port) l in
      case spawn of
        Inl err \<Rightarrow> lc_emit (SessionEnded (-1)) (setStatus (Failed_to_start err) l1)
      | Inr pid \<Rightarrow>
          lc_emit SessionStarted (setStatus (Vnsee_running pid)
            (l1\<lparr>lc_proc := Some \<lparr>pr_pid = pid, pr_running = True, pr_args = vnsee_args host port,
                                pr_env = vnsee_env cfg sysenv\<rparr>\<rparr>)))"

definition session_running :: "launcher \<Rightarrow> bool" where
  "session_running l \<longleftrightarrow> (case lc_proc l of None \<Rightarrow> False | Some p \<Rightarrow> pr_running p)"

definition startSession ::
  "bool \<Rightarrow> server_io \<Rightarrow> device_info \<Rightarrow> string + int \<Rightarrow> environment \<Rightarrow> variant_map \<Rightarrow> launcher \<Rightarrow> launcher res" where
  "startSession dsync io info spawn sysenv cfg l =
     (if session_running l then Inr l
      else
        bindE (ensureServerStarted dsync io info (cfg_gray cfg) (setStatus Starting_server l)) (\<lambda>(ok, l1).
        if \<not> ok then Inr (lc_emit (SessionEnded (-1)) l1)
        else bindE (port_offset (session_port cfg)) (\<lambda>_.
          Inr (spawn_vnsee spawn cfg sysenv (set_waveform (cfg_waveform cfg) l1)))))"

text \<open>The slot of the process's \<open>finished\<close>; \<open>waitForFinished\<close> runs it from inside \<open>stopSession\<close>.\<close>

definition process_finished :: "int \<Rightarrow> launcher \<Rightarrow> launcher" where
  "process_finished code l =
     (lc_emit (SessionEnded code) (setStatus (if code = 0 then Exited_cleanly else Exited code) l))\<lparr>lc_proc := None\<rparr>"

text \<open>The older entry starts a detached process without arguments and keeps no record of it.\<close>

definition kVnseeBin :: string where "kVnseeBin = ''/home/root/xovi/exthome/appload/vnsee/vnsee''"

definition launchVnsee :: "launcher \<Rightarrow> launcher \<times> (string \<times> string list)" where
  "launchVnsee l = (l, (kVnseeBin, []))"

text \<open>\<open>fin1\<close>, \<open>fin2\<close>: the exit codes with which the process ends in the two waits, if it does.\<close>

definition stopSession :: "int option \<Rightarrow> int option \<Rightarrow> launcher \<Rightarrow> launcher" where
  "stopSession fin1 fin2 l =
     (if \<not> session_running l then lc_emit (SessionEnded 0) (setStatus Disconnected l)
      else
        let l1 = setStatus Stopping l;
            l2 = (case fin1 of
                    Some c \<Rightarrow> process_finished c l1
                  | None \<Rightarrow> (case fin2 of Some c \<Rightarrow> process_finished c l1 | None \<Rightarrow> l1)) in
        setStatus Disconnected l2)"

text \<open>A later turn of the event loop destroys the object that waits longest.\<close>

definition delete_later :: "bool \<Rightarrow> launcher \<Rightarrow> launcher res" where
  "delete_later dsync l =
     (case lc_later l of
        [] \<Rightarrow> Inr l
      | i # rest \<Rightarrow>
          (case lc_objs l i of
             None \<Rightarrow> Inl (Undefined Dangling)
           | Some s \<Rightarrow>
               bindE (server_delete dsync s) (\<lambda>s1.
               bindE (put_server i s s1 l) (\<lambda>l1.
               Inr (l1\<lparr>lc_objs := (lc_objs l1)(i := None), lc_later := rest\<rparr>)))))"

end
