(* ===== verification/Cast.thy ===== *)
theory Cast
  imports Launcher
begin

text \<open>
  The middleware's desktop side as one machine: the launcher, the server objects it creates and
  destroys, the vnsee process, and the item that shows the frames, under every event that can come
  (calls from QML, the process ending, a turn of the event loop that destroys an object, clients
  connecting, sending and leaving, a new size or rotation, painting). The invariant says that the
  picture always points into the shared memory of a live, listening server with the same geometry,
  that every other object is stopped and scheduled for destruction, and that a valid layout is
  the layout of the present picture. \<open>cast_step_ok\<close> says which event can still go wrong, and how.
\<close>

section \<open>The machine\<close>

datatype cast_event =
    Ca_start server_io device_info "string + int" environment variant_map
  | Ca_stop "int option" "int option"
  | Ca_finished int
  | Ca_delete_later
  | Ca_connect nat
  | Ca_data nat bytes
  | Ca_disconnected nat
  | Ca_overlay bool
  | Ca_resize "rat \<times> rat"
  | Ca_rotate int
  | Ca_paint

definition on_server :: "nat \<Rightarrow> (server \<Rightarrow> server) \<Rightarrow> launcher \<Rightarrow> launcher res" where
  "on_server i f l =
     (case lc_objs l i of None \<Rightarrow> Inl (Undefined Dangling) | Some s \<Rightarrow> put_server i s (f s) l)"

fun cast_step :: "bool \<Rightarrow> (nat \<Rightarrow> int) \<Rightarrow> launcher \<Rightarrow> cast_event \<Rightarrow> launcher res" where
  "cast_step dsync clk l (Ca_start io info spawn sysenv cfg) = startSession dsync io info spawn sysenv cfg l"
| "cast_step dsync clk l (Ca_stop fin1 fin2) = Inr (stopSession fin1 fin2 l)"
| "cast_step dsync clk l (Ca_finished code) = Inr (process_finished code l)"
| "cast_step dsync clk l Ca_delete_later = delete_later dsync l"
| "cast_step dsync clk l (Ca_connect i) = on_server i onNewConnection l"
| "cast_step dsync clk l (Ca_data i b) = on_server i (\<lambda>s. feed dsync clk s b) l"
| "cast_step dsync clk l (Ca_disconnected i) = on_server i onSocketDisconnected l"
| "cast_step dsync clk l (Ca_overlay b) = Inr (if b then openOverlay l else closeOverlay l)"
| "cast_step dsync clk l (Ca_resize sz) = Inr (l\<lparr>lc_view := geometryChange sz (lc_view l)\<rparr>)"
| "cast_step dsync clk l (Ca_rotate deg) = Inr (l\<lparr>lc_view := setRotation deg (lc_view l)\<rparr>)"
| "cast_step dsync clk l Ca_paint = Inr (l\<lparr>lc_view := fst (fv_paint (lc_objs l) (lc_view l))\<rparr>)"

text \<open>A port from which 5900 can be subtracted.\<close>

definition port_fits :: "variant_map \<Rightarrow> bool" where
  "port_fits cfg \<longleftrightarrow> INT_MIN + 5900 \<le> session_port cfg \<and> session_port cfg \<le> INT_MAX"

lemma port_fits_offset: "port_fits cfg \<Longrightarrow> \<exists>k. port_offset (session_port cfg) = Inr k"
  by (simp add: port_fits_def port_offset_def INT_MAX_def INT_MIN_def ckint_def)

text \<open>What the environment can deliver: a client is accepted by a listening server, and so on.\<close>

fun cast_enabled :: "launcher \<Rightarrow> cast_event \<Rightarrow> bool" where
  "cast_enabled l (Ca_start io info spawn sysenv cfg) \<longleftrightarrow> geometry_ok info \<and> port_fits cfg"
| "cast_enabled l (Ca_finished code) \<longleftrightarrow> session_running l"
| "cast_enabled l (Ca_connect i) \<longleftrightarrow> (case lc_objs l i of None \<Rightarrow> False | Some s \<Rightarrow> m_server s)"
| "cast_enabled l (Ca_data i b) \<longleftrightarrow> (case lc_objs l i of None \<Rightarrow> False | Some s \<Rightarrow> m_socket s \<noteq> None)"
| "cast_enabled l (Ca_disconnected i) \<longleftrightarrow> (case lc_objs l i of None \<Rightarrow> False | Some s \<Rightarrow> m_socket s \<noteq> None)"
| "cast_enabled l _ \<longleftrightarrow> True"

lemma status_fields [simp]:
  "lc_objs (setStatus st l) = lc_objs l" "lc_server (setStatus st l) = lc_server l"
  "lc_next (setStatus st l) = lc_next l" "lc_later (setStatus st l) = lc_later l"
  "lc_view (setStatus st l) = lc_view l" "lc_hooks (setStatus st l) = lc_hooks l"
  "lc_proc (setStatus st l) = lc_proc l"
  by (simp_all add: setStatus_def lc_emit_def)

section \<open>The invariant\<close>

definition same_picture :: "server \<Rightarrow> server \<Rightarrow> bool" where
  "same_picture s s' \<longleftrightarrow> sv_w s' = sv_w s \<and> sv_h s' = sv_h s \<and> sv_stride s' = sv_stride s \<and>
     sv_bpp s' = sv_bpp s \<and> sv_shm s' = sv_shm s"

definition pictures :: "frame_image \<Rightarrow> server \<Rightarrow> bool" where
  "pictures im s \<longleftrightarrow> fi_w im = sv_w s \<and> fi_h im = sv_h s \<and> fi_stride im = sv_stride s \<and>
     0 < fi_w im \<and> 0 < fi_h im \<and> sv_shm s \<noteq> None \<and>
     fi_format im = (if sv_bpp s = 8 then Format_Grayscale8 else if sv_bpp s = 16 then Format_Grayscale16
                     else Format_RGBA8888)"

definition view_inv :: "(nat \<rightharpoonup> server) \<Rightarrow> frame_view \<Rightarrow> bool" where
  "view_inv objs v \<longleftrightarrow>
     (\<forall>im. fv_img v = Some im \<longrightarrow>
        fv_server v = Some (fi_owner im) \<and> (\<exists>s. objs (fi_owner im) = Some s \<and> pictures im s)) \<and>
     (fv_layoutValid v \<and> 0 < fst (fv_size v) \<and> 0 < snd (fv_size v) \<longrightarrow> layout_ok v)"

definition objs_inv :: "launcher \<Rightarrow> bool" where
  "objs_inv l \<longleftrightarrow>
     (\<forall>i s. lc_objs l i = Some s \<longrightarrow> server_inv s \<and> i < lc_next l \<and> (m_server s \<longleftrightarrow> lc_server l = Some i)) \<and>
     (\<forall>i. lc_server l = Some i \<longrightarrow> lc_objs l i \<noteq> None) \<and>
     distinct (lc_later l) \<and> set (lc_later l) = {i. lc_objs l i \<noteq> None \<and> lc_server l \<noteq> Some i}"

definition cast_inv :: "launcher \<Rightarrow> bool" where
  "cast_inv l \<longleftrightarrow> objs_inv l \<and> view_inv (lc_objs l) (lc_view l) \<and> fv_server (lc_view l) = lc_server l \<and>
     g_force_mode (lc_hooks l) = -1"

section \<open>The item\<close>

lemma view_inv_ok: "view_inv objs v \<Longrightarrow> 0 < fst (fv_size v) \<Longrightarrow> 0 < snd (fv_size v) \<Longrightarrow> view_ok v"
  by (auto simp: view_inv_def view_ok_def pictures_def)

lemma view_inv_rebuild: "view_inv objs (rebuildImage objs v)"
  by (auto simp: view_inv_def rebuildImage_def attached_def pictures_def Let_def split: option.splits)

lemma rebuild_fields: "fv_server (rebuildImage objs v) = fv_server v"
  by (auto simp: rebuildImage_def Let_def split: option.splits)

lemma view_inv_cong:
  "fv_img v' = fv_img v \<Longrightarrow> fv_server v' = fv_server v \<Longrightarrow> fv_layoutValid v' = fv_layoutValid v \<Longrightarrow>
   fv_size v' = fv_size v \<Longrightarrow> fv_rotation v' = fv_rotation v \<Longrightarrow> fv_scale v' = fv_scale v \<Longrightarrow>
   fv_drawn v' = fv_drawn v \<Longrightarrow> fv_offset v' = fv_offset v \<Longrightarrow> view_inv objs v' = view_inv objs v"
  by (simp only: view_inv_def layout_ok_def sideways_def)

lemma view_inv_updates [simp]:
  "view_inv objs (v\<lparr>fv_updates := a\<rparr>) = view_inv objs v"
  "view_inv objs (v\<lparr>fv_lastSeq := b\<rparr>) = view_inv objs v"
  "view_inv objs (v\<lparr>fv_pending_paint := c\<rparr>) = view_inv objs v"
  "view_inv objs (v\<lparr>fv_lat_count := d\<rparr>) = view_inv objs v"
  by (rule view_inv_cong; simp)+

lemma view_inv_setServer:
  assumes "view_inv objs v" "attached objs v = None \<Longrightarrow> fv_server v = None"
  shows "view_inv objs (fv_setServer objs s v)" "fv_server (fv_setServer objs s v) = s"
proof -
  have u: "view_inv objs (request_update u w) = view_inv objs w" "fv_server (request_update u w) = fv_server w" for u w
    by (simp_all add: request_update_def)
  have n: "view_inv objs (v\<lparr>fv_server := None, fv_img := None\<rparr>)"
    by (simp add: view_inv_def layout_ok_def)
  show "view_inv objs (fv_setServer objs s v)" using assms n
    by (auto simp: fv_setServer_def Let_def u view_inv_rebuild)
  show "fv_server (fv_setServer objs s v) = s" using assms(2)
    by (auto simp: fv_setServer_def Let_def u rebuild_fields)
qed

lemma onFrameReady_result:
  "onFrameReady seq x y dw dh v = Inr v' \<Longrightarrow>
     \<exists>u. v' = request_update u (v\<lparr>fv_lastSeq := seq, fv_pending_paint := True\<rparr>)"
  unfolding onFrameReady_def Let_def by (auto simp: bindE_Inr_iff split: if_split_asm)

lemma onFrameReady_keeps:
  assumes "onFrameReady seq x y dw dh v = Inr v'"
  shows "view_inv objs v' = view_inv objs v" "fv_server v' = fv_server v"
  using onFrameReady_result [OF assms] by (auto simp: request_update_def)

lemma to_int_errors: "to_int q = Inl e \<Longrightarrow> e = Undefined Bad_conversion"
  by (auto simp: to_int_def split: if_splits)

lemma ckint_errors: "ckint n = Inl e \<Longrightarrow> e = Undefined Signed_overflow"
  by (auto simp: ckint_def split: if_splits)

lemma bindE_Inl_iff: "bindE m f = Inl e \<longleftrightarrow> m = Inl e \<or> (\<exists>x. m = Inr x \<and> f x = Inl e)"
  by (cases m) auto

definition range_error :: "exn \<Rightarrow> bool" where
  "range_error e \<longleftrightarrow> e = Undefined Signed_overflow \<or> e = Undefined Bad_conversion"

lemma range_error_bind:
  "(\<And>e. m = Inl e \<Longrightarrow> range_error e) \<Longrightarrow> (\<And>x e. m = Inr x \<Longrightarrow> f x = Inl e \<Longrightarrow> range_error e) \<Longrightarrow>
     bindE m f = Inl e \<Longrightarrow> range_error e"
  by (cases m) auto

lemma toAlignedRect_errors: "toAlignedRect x y w h = Inl e \<Longrightarrow> range_error e"
  unfolding toAlignedRect_def
  by (elim range_error_bind [rotated 2]) (auto simp: range_error_def dest: to_int_errors)

lemma inflate_errors: "inflate r = Inl e \<Longrightarrow> range_error e"
  unfolding inflate_def
  by (elim range_error_bind [rotated 2]) (auto simp: range_error_def dest: ckint_errors)

lemma ckint_bind_errors:
  "(\<And>x e. f x = Inl e \<Longrightarrow> range_error e) \<Longrightarrow> bindE (ckint n) f = Inl e \<Longrightarrow> range_error e"
  by (auto simp: bindE_Inl_iff range_error_def dest: ckint_errors)

lemma mapSourceRect_errors: "mapSourceRect v sx sy sw sh = Inl e \<Longrightarrow> range_error e"
  by (cases "fv_size v")
    (auto simp: mapSourceRect_def Let_def split: if_splits intro: toAlignedRect_errors
      elim!: ckint_bind_errors [rotated])

lemma onFrameReady_errors:
  assumes "onFrameReady seq x y dw dh v = Inl e"
  shows "range_error e"
proof -
  let ?v = "v\<lparr>fv_lastSeq := seq, fv_pending_paint := True\<rparr>"
  consider "mapSourceRect ?v x y dw dh = Inl e" | r where "inflate r = Inl e"
    using assms by (auto simp: onFrameReady_def Let_def bindE_Inl_iff split: if_splits)
  then show ?thesis by cases (auto dest: mapSourceRect_errors inflate_errors)
qed

lemma view_inv_resize: "view_inv objs v \<Longrightarrow> view_inv objs (geometryChange sz v)"
  by (simp add: view_inv_def geometryChange_def)

lemma view_inv_rotate: "view_inv objs v \<Longrightarrow> view_inv objs (setRotation deg v)"
  by (auto simp: view_inv_def setRotation_def request_update_def Let_def)

lemma view_inv_paint:
  assumes "view_inv objs v"
  shows "view_inv objs (fst (fv_paint objs v))" "fv_server (fst (fv_paint objs v)) = fv_server v"
proof -
  have r: "view_inv objs (recalcLayout v)"
  proof (cases "0 < fst (fv_size v) \<and> 0 < snd (fv_size v)")
    case True
    then have "layout_ok (recalcLayout v)" using assms view_inv_ok recalcLayout_ok by blast
    then show ?thesis using assms
      by (auto simp: view_inv_def recalcLayout_def Let_def split: option.splits prod.splits)
  next
    case False
    then show ?thesis using assms
      by (auto simp: view_inv_def recalcLayout_def Let_def split: option.splits prod.splits)
  qed
  have c: "view_inv objs (close_timers w) = view_inv objs w" "fv_server (close_timers w) = fv_server w" for w
    by (simp_all add: close_timers_def Let_def)
  have f: "fv_server (recalcLayout v) = fv_server v"
    by (auto simp: recalcLayout_def Let_def split: option.splits prod.splits)
  show "view_inv objs (fst (fv_paint objs v))" using assms r c
    by (auto simp: fv_paint_def Let_def split: option.splits)
  show "fv_server (fst (fv_paint objs v)) = fv_server v" using c f
    by (auto simp: fv_paint_def Let_def split: option.splits)
qed

text \<open>The picture survives a change of an object that keeps its geometry and memory.\<close>

lemma pictures_same: "pictures im s \<Longrightarrow> same_picture s s' \<Longrightarrow> pictures im s'"
  by (simp add: pictures_def same_picture_def)

lemma view_inv_objs:
  assumes "view_inv objs v"
    and "\<And>i s. fv_server v = Some i \<Longrightarrow> objs i = Some s \<Longrightarrow> \<exists>s'. objs' i = Some s' \<and> same_picture s s'"
  shows "view_inv objs' v"
proof -
  have "\<exists>s'. objs' (fi_owner im) = Some s' \<and> pictures im s'" if im: "fv_img v = Some im" for im
  proof -
    obtain s where "fv_server v = Some (fi_owner im)" "objs (fi_owner im) = Some s" "pictures im s"
      using assms(1) im by (auto simp: view_inv_def)
    with assms(2) pictures_same show ?thesis by blast
  qed
  then show ?thesis using assms(1) unfolding view_inv_def by blast
qed

section \<open>Signals\<close>

text \<open>What the delivery of signals leaves alone.\<close>

definition keeps :: "launcher \<Rightarrow> launcher \<Rightarrow> bool" where
  "keeps l l' \<longleftrightarrow> lc_objs l' = lc_objs l \<and> lc_server l' = lc_server l \<and> lc_later l' = lc_later l \<and>
     lc_next l' = lc_next l \<and> fv_server (lc_view l') = fv_server (lc_view l) \<and>
     (view_inv (lc_objs l) (lc_view l) \<longrightarrow> view_inv (lc_objs l') (lc_view l')) \<and>
     (g_force_mode (lc_hooks l) = -1 \<longrightarrow> g_force_mode (lc_hooks l') = -1)"

lemma keeps_refl [simp]: "keeps l l"
  by (simp add: keeps_def)

lemma keeps_trans: "keeps a b \<Longrightarrow> keeps b c \<Longrightarrow> keeps a c"
  unfolding keeps_def by (elim conjE) simp

lemma keeps_inv: "keeps l l' \<Longrightarrow> cast_inv l \<Longrightarrow> cast_inv l'"
  unfolding keeps_def cast_inv_def objs_inv_def by (elim conjE) simp

lemma keeps_simple [simp]:
  "keeps l (setStatus st l)" "keeps l (lc_emit g l)" "keeps l (setOverlayOpen b l)" "keeps l (l\<lparr>lc_proc := p\<rparr>)"
  "keeps l (l\<lparr>lc_overlay := ov\<rparr>)" "keeps l (l\<lparr>lc_hooks := epdc_setActive b (lc_hooks l)\<rparr>)"
  by (simp_all add: keeps_def setStatus_def lc_emit_def setOverlayOpen_def epdc_setActive_def)

lemma on_server_signal_keeps: "on_server_signal g l = Inr l' \<Longrightarrow> keeps l l'"
  by (cases g)
    (auto simp: keeps_def setStatus_def lc_emit_def epdc_setActive_def setForceMode_def waveform_to_mode_def Let_def
      split: if_splits option.splits)

lemma on_view_signal_keeps: "on_view_signal i g l = Inr l' \<Longrightarrow> keeps l l'"
proof (cases g)
  case (FrameReady seq x y w h)
  then show "on_view_signal i g l = Inr l' \<Longrightarrow> keeps l l'"
    by (auto simp: keeps_def bindE_Inr_iff onFrameReady_keeps split: if_splits)
qed (auto simp: keeps_def view_inv_rebuild rebuild_fields split: if_splits)

lemma deliver_keeps: "deliver i gs l = Inr l' \<Longrightarrow> keeps l l'"
proof (induction gs arbitrary: l)
  case (Cons g gs)
  then obtain l1 l2 where "on_server_signal g l = Inr l1" "on_view_signal i g l1 = Inr l2" "deliver i gs l2 = Inr l'"
    by (auto simp: bindE_Inr_iff)
  with Cons.IH show ?case using on_server_signal_keeps on_view_signal_keeps keeps_trans by metis
qed simp

fun is_frame :: "signal \<Rightarrow> bool" where
  "is_frame (FrameReady seq x y w h) = True"
| "is_frame _ = False"

lemma signal_no_error:
  assumes "\<not> is_frame g"
  shows "\<exists>l'. on_server_signal g l = Inr l'" "\<exists>l'. on_view_signal i g l = Inr l'"
  using assms by (cases g; simp add: Let_def)+

lemma on_server_signal_ok:
  "Option.bind (lc_server l) (lc_objs l) \<noteq> None \<Longrightarrow> \<exists>l'. on_server_signal g l = Inr l'"
  by (cases g) (auto simp: Let_def setStatus_def lc_emit_def split: option.splits)

lemma deliver_no_frames: "\<forall>g \<in> set gs. \<not> is_frame g \<Longrightarrow> \<exists>l'. deliver i gs l = Inr l'"
proof (induction gs arbitrary: l)
  case (Cons g gs)
  obtain l1 where l1: "on_server_signal g l = Inr l1" using Cons.prems signal_no_error(1) [of g l] by auto
  obtain l2 where "on_view_signal i g l1 = Inr l2" using Cons.prems signal_no_error(2) [of g i l1] by auto
  with l1 Cons show ?case by simp
qed simp

lemma deliver_errors:
  assumes "Option.bind (lc_server l) (lc_objs l) \<noteq> None" "deliver i gs l = Inl e"
  shows "range_error e"
  using assms
proof (induction gs arbitrary: l)
  case (Cons g gs)
  obtain l1 where l1: "on_server_signal g l = Inr l1" using on_server_signal_ok Cons.prems(1) by blast
  show ?case
  proof (cases "on_view_signal i g l1")
    case (Inl x)
    then have "range_error x" by (cases g) (auto simp: bindE_Inl_iff dest: onFrameReady_errors split: if_splits)
    then show ?thesis using Cons.prems(2) l1 Inl by simp
  next
    case (Inr l2)
    have "keeps l l2" using on_server_signal_keeps [OF l1] on_view_signal_keeps [OF Inr] keeps_trans by blast
    then have "Option.bind (lc_server l2) (lc_objs l2) \<noteq> None" using Cons.prems(1) by (simp add: keeps_def)
    with Cons.IH show ?thesis using Cons.prems(2) l1 Inr by simp
  qed
qed simp

section \<open>The parts of a session\<close>

lemma set_waveform_inv: "cast_inv l \<Longrightarrow> cast_inv (set_waveform w l)"
proof (cases "lc_server l")
  case (Some i)
  assume inv: "cast_inv l"
  then obtain s where s: "lc_objs l i = Some s" using Some by (auto simp: cast_inv_def objs_inv_def)
  let ?s = "s\<lparr>sv_waveform := w\<rparr>" and ?objs = "(lc_objs l)(i \<mapsto> s\<lparr>sv_waveform := w\<rparr>)"
  have e: "set_waveform w l = l\<lparr>lc_objs := ?objs\<rparr>" using Some s by (simp add: set_waveform_def)
  have o: "view_inv ?objs (lc_view l)"
    by (rule view_inv_objs [of "lc_objs l"]) (use inv s in \<open>auto simp: cast_inv_def same_picture_def\<close>)
  have "server_inv ?s \<longleftrightarrow> server_inv s" by (simp add: server_inv_def format_fits_def)
  then have "objs_inv (l\<lparr>lc_objs := ?objs\<rparr>)" using inv s Some
    by (auto simp: cast_inv_def objs_inv_def)
  then show ?thesis using inv o unfolding e by (simp add: cast_inv_def)
qed (simp add: set_waveform_def)

lemma server_stop_quiet:
  "server_stop dsync s = Inr s' \<Longrightarrow> sv_signals s' = sv_signals s \<and> \<not> m_server s' \<and> m_socket s' = None \<and> same_picture s s'"
  by (auto simp: server_stop_def disconnectFromServer_def onSocketDisconnected_def emit_def same_picture_def Let_def
      split: option.splits if_splits)

lemma server_stop_total: "\<not> (dsync \<and> m_socket s \<noteq> None) \<Longrightarrow> \<exists>s'. server_stop dsync s = Inr s'"
  by (cases "m_socket s") (auto simp: server_stop_def disconnectFromServer_def Let_def)

lemma stopped_inv: "\<not> m_server s \<Longrightarrow> m_socket s = None \<Longrightarrow> server_inv s"
  by (simp add: server_inv_def)

lemma attached_bound: "cast_inv l \<Longrightarrow> attached (lc_objs l) (lc_view l) = None \<Longrightarrow> fv_server (lc_view l) = None"
  by (auto simp: attached_def cast_inv_def objs_inv_def split: option.splits)

lemma server_start_quiet:
  assumes "server_start io info s = (ok, s')" "\<not> m_server s" "geometry_ok info" "server_inv s"
  shows "m_server s' = ok" "server_inv s'" "ok \<longrightarrow> sv_shm s' \<noteq> None"
    "\<forall>g \<in> set (drop (length (sv_signals s)) (sv_signals s')). \<not> is_frame g"
proof -
  show "server_inv s'" using server_start_inv [OF assms(4,3), of io] assms(1) by simp
  show "m_server s' = ok" "ok \<longrightarrow> sv_shm s' \<noteq> None"
    "\<forall>g \<in> set (drop (length (sv_signals s)) (sv_signals s')). \<not> is_frame g"
    using assms(1,2)
    by (auto simp: server_start_def server_geometry_def allocShm_def freeShm_def emit_def Let_def split: if_splits)
qed

text \<open>A server that starts from nothing; both outcomes keep the invariant.\<close>

lemma put_server_quiet:
  assumes "\<forall>g \<in> set (drop (length (sv_signals s)) (sv_signals s')). \<not> is_frame g"
  obtains l' where "put_server i s s' l = Inr l'" "keeps (l\<lparr>lc_objs := (lc_objs l)(i \<mapsto> s')\<rparr>) l'"
  using deliver_no_frames [OF assms, of i "l\<lparr>lc_objs := (lc_objs l)(i \<mapsto> s')\<rparr>"] deliver_keeps
  unfolding put_server_def by blast

lemma server_changed_inv:
  assumes "objs_inv l" "view_inv (lc_objs l) (lc_view l)" "g_force_mode (lc_hooks l) = -1"
    and "attached (lc_objs l) (lc_view l) = None \<Longrightarrow> fv_server (lc_view l) = None"
  shows "cast_inv (server_changed l)"
  using assms view_inv_setServer [OF assms(2,4), of "lc_server l"]
  by (simp add: cast_inv_def server_changed_def lc_emit_def objs_inv_def)

lemma server_changed_fields [simp]:
  "lc_server (server_changed l) = lc_server l" "lc_objs (server_changed l) = lc_objs l"
  by (simp_all add: server_changed_def lc_emit_def)

lemma start_server_inv:
  assumes inv: "cast_inv l" and none: "lc_server l = None" and geo: "geometry_ok info"
  obtains ok l' where "start_server io info gray l = Inr (ok, l')" "cast_inv l'" "ok \<longleftrightarrow> lc_server l' \<noteq> None"
proof -
  let ?n = "lc_next l" and ?s1 = "server_init False\<lparr>m_use_grayscale_shm := gray\<rparr>"
  let ?l1 = "l\<lparr>lc_server := Some ?n, lc_next := ?n + 1, lc_objs := (lc_objs l)(?n \<mapsto> server_init False)\<rparr>"
  let ?l2 = "setStatus (Allocating (di_w info) (di_h info) gray) ?l1"
  obtain ok s2 where st: "server_start io info ?s1 = (ok, s2)" by (cases "server_start io info ?s1") auto
  have q: "m_server s2 = ok" "server_inv s2"
    "\<forall>g \<in> set (drop (length (sv_signals ?s1)) (sv_signals s2)). \<not> is_frame g"
    using server_start_quiet [OF st _ geo] by (simp_all add: server_init_def stopped_inv)
  obtain l3 where l3: "put_server ?n ?s1 s2 ?l2 = Inr l3" "keeps (?l2\<lparr>lc_objs := (lc_objs ?l2)(?n \<mapsto> s2)\<rparr>) l3"
    using put_server_quiet [OF q(3)] .
  have fresh: "lc_objs l ?n = None" using inv by (cases "lc_objs l ?n") (auto simp: cast_inv_def objs_inv_def)
  have vi: "view_inv ((lc_objs l)(?n \<mapsto> s2)) (lc_view l)"
    by (rule view_inv_objs [of "lc_objs l"]) (use inv fresh in \<open>auto simp: cast_inv_def none same_picture_def\<close>)
  have f3: "lc_objs l3 = (lc_objs l)(?n \<mapsto> s2)" "lc_server l3 = Some ?n" "lc_next l3 = ?n + 1" "lc_later l3 = lc_later l"
    "fv_server (lc_view l3) = None" "view_inv (lc_objs l3) (lc_view l3)" "g_force_mode (lc_hooks l3) = -1"
    using l3(2) vi inv none by (auto simp: keeps_def cast_inv_def)
  have new: "?n \<notin> set (lc_later l)" using inv fresh by (auto simp: cast_inv_def objs_inv_def)
  have e: "start_server io info gray l =
      (if ok then Inr (True, server_changed l3)
       else Inr (False, server_changed ((setStatus Server_failed l3)\<lparr>lc_server := None, lc_later := lc_later (setStatus Server_failed l3) @ [?n]\<rparr>)))"
    using l3(1) by (simp add: start_server_def none st Let_def)
  show thesis
  proof (cases ok)
    case True
    have "objs_inv l3" using inv none True q(1,2) new
      by (auto simp: objs_inv_def cast_inv_def f3 less_Suc_eq)
    then have "cast_inv (server_changed l3)" using f3 by (intro server_changed_inv) auto
    then show thesis using that [of True "server_changed l3"] e True f3(2) by simp
  next
    case False
    let ?l4 = "(setStatus Server_failed l3)\<lparr>lc_server := None, lc_later := lc_later (setStatus Server_failed l3) @ [?n]\<rparr>"
    have f4: "lc_objs ?l4 = lc_objs l3" "lc_server ?l4 = None" "lc_next ?l4 = lc_next l3" "lc_later ?l4 = lc_later l @ [?n]"
      "lc_view ?l4 = lc_view l3" "lc_hooks ?l4 = lc_hooks l3"
      by (simp_all add: f3)
    have "objs_inv ?l4" unfolding objs_inv_def f4 f3 using inv none False q(1,2) new
      by (auto simp: objs_inv_def cast_inv_def less_Suc_eq)
    then have "cast_inv (server_changed ?l4)" using f3 f4 by (intro server_changed_inv) auto
    then show thesis using that [of False "server_changed ?l4"] e False f4(2) by simp
  qed
qed

lemma retire_server_inv:
  assumes inv: "cast_inv l" and i: "lc_server l = Some i" "lc_objs l i = Some s" and st: "server_stop dsync s = Inr s1"
  obtains l' where "retire_server dsync i s l = Inr l'" "cast_inv l'" "lc_server l' = None"
proof -
  let ?l1 = "server_changed (l\<lparr>lc_server := None\<rparr>)"
  note q = server_stop_quiet [OF st]
  have v1: "lc_view ?l1 = fv_setServer (lc_objs l) None (lc_view l)"
    by (simp add: server_changed_def lc_emit_def)
  have w: "view_inv (lc_objs l) (fv_setServer (lc_objs l) None (lc_view l))"
    "fv_server (fv_setServer (lc_objs l) None (lc_view l)) = None"
    using view_inv_setServer [of "lc_objs l" "lc_view l" None] inv attached_bound by (auto simp: cast_inv_def)
  have e: "retire_server dsync i s l =
      Inr (?l1\<lparr>lc_objs := (lc_objs ?l1)(i \<mapsto> s1), lc_later := lc_later ?l1 @ [i]\<rparr>)"
    using q st by (simp add: retire_server_def put_server_def Let_def)
  let ?l' = "?l1\<lparr>lc_objs := (lc_objs ?l1)(i \<mapsto> s1), lc_later := lc_later ?l1 @ [i]\<rparr>"
  have f: "lc_objs ?l' = (lc_objs l)(i \<mapsto> s1)" "lc_server ?l' = None" "lc_later ?l' = lc_later l @ [i]"
    "lc_next ?l' = lc_next l" "lc_view ?l' = fv_setServer (lc_objs l) None (lc_view l)" "lc_hooks ?l' = lc_hooks l"
    by (simp_all add: server_changed_def lc_emit_def)
  have "objs_inv ?l'" unfolding objs_inv_def f using inv i q stopped_inv [of s1]
    by (auto simp: objs_inv_def cast_inv_def)
  moreover have "view_inv (lc_objs ?l') (lc_view ?l')" unfolding f
    by (rule view_inv_objs [OF w(1)]) (simp add: w(2))
  ultimately have "cast_inv ?l'" using inv w(2) unfolding cast_inv_def f by simp
  then show thesis using that e f(2) by blast
qed

text \<open>
  The only way a start can go wrong: the format has changed while a client is still connected
  and its disconnection is signalled at once.
\<close>

definition format_clash :: "bool \<Rightarrow> bool \<Rightarrow> launcher \<Rightarrow> bool" where
  "format_clash dsync gray l \<longleftrightarrow>
     (\<exists>i s. lc_server l = Some i \<and> lc_objs l i = Some s \<and> m_use_grayscale_shm s \<noteq> gray \<and> dsync \<and> m_socket s \<noteq> None)"

lemma ensure_inv:
  assumes inv: "cast_inv l" and geo: "geometry_ok info"
  shows "if format_clash dsync gray l then ensureServerStarted dsync io info gray l = Inl (Undefined Null_deref)
    else \<exists>ok l'. ensureServerStarted dsync io info gray l = Inr (ok, l') \<and> cast_inv l' \<and> (ok \<longleftrightarrow> lc_server l' \<noteq> None)"
proof (cases "lc_server l")
  case None
  then show ?thesis using start_server_inv [OF inv None geo, of io gray]
    by (auto simp: ensureServerStarted_def format_clash_def)
next
  case (Some i)
  obtain s where s: "lc_objs l i = Some s" "server_inv s" "m_server s"
    using inv Some by (auto simp: cast_inv_def objs_inv_def)
  then obtain shm' where shm: "sv_shm s = Some shm'" by (auto simp: server_inv_def)
  show ?thesis
  proof (cases "m_use_grayscale_shm s = gray")
    case True
    then show ?thesis using Some s shm inv by (auto simp: ensureServerStarted_def format_clash_def)
  next
    case False
    show ?thesis
    proof (cases "dsync \<and> m_socket s \<noteq> None")
      case True
      then have "server_stop dsync s = Inl (Undefined Null_deref)" by (simp add: server_stop_null)
      then show ?thesis using Some s shm False True
        by (simp add: ensureServerStarted_def format_clash_def retire_server_def Let_def)
    next
      case nc: False
      then obtain s1 where st: "server_stop dsync s = Inr s1" using server_stop_total by blast
      obtain l1 where l1: "retire_server dsync i s l = Inr l1" "cast_inv l1" "lc_server l1 = None"
        using retire_server_inv [OF inv Some s(1) st] .
      obtain ok l' where "start_server io info gray l1 = Inr (ok, l')" "cast_inv l'" "ok \<longleftrightarrow> lc_server l' \<noteq> None"
        using start_server_inv [OF l1(2,3) geo] .
      then show ?thesis using Some s shm False nc l1
        by (auto simp: ensureServerStarted_def format_clash_def)
    qed
  qed
qed

lemma spawn_vnsee_keeps: "keeps l (spawn_vnsee sp cfg sysenv l)"
  by (auto simp: spawn_vnsee_def keeps_def lc_emit_def Let_def split: sum.splits)

lemma startSession_inv:
  assumes inv: "cast_inv l" and geo: "geometry_ok info" and port: "port_fits cfg"
  shows "if \<not> session_running l \<and> format_clash dsync (cfg_gray cfg) l
    then startSession dsync io info sp sysenv cfg l = Inl (Undefined Null_deref)
    else \<exists>l'. startSession dsync io info sp sysenv cfg l = Inr l' \<and> cast_inv l'"
proof (cases "session_running l")
  case True
  then show ?thesis using inv by (simp add: startSession_def)
next
  case False
  let ?l0 = "setStatus Starting_server l"
  have i0: "cast_inv ?l0" by (rule keeps_inv [OF _ inv]) simp
  have c0: "format_clash dsync (cfg_gray cfg) ?l0 = format_clash dsync (cfg_gray cfg) l"
    by (simp add: format_clash_def)
  note en = ensure_inv [OF i0 geo, of dsync "cfg_gray cfg" io, unfolded c0]
  show ?thesis
  proof (cases "format_clash dsync (cfg_gray cfg) l")
    case True
    then show ?thesis using en False by (simp add: startSession_def)
  next
    case nc: False
    then obtain ok l1 where l1: "ensureServerStarted dsync io info (cfg_gray cfg) ?l0 = Inr (ok, l1)" "cast_inv l1"
      using en by auto
    have "cast_inv (lc_emit (SessionEnded (-1)) l1)" by (rule keeps_inv [OF _ l1(2)]) simp
    moreover have "cast_inv (spawn_vnsee sp cfg sysenv (set_waveform (cfg_waveform cfg) l1))"
      by (rule keeps_inv [OF spawn_vnsee_keeps set_waveform_inv [OF l1(2)]])
    ultimately show ?thesis using l1(1) False nc port_fits_offset [OF port]
      by (cases ok) (auto simp: startSession_def)
  qed
qed

lemma delete_later_inv:
  assumes inv: "cast_inv l"
  shows "\<exists>l'. delete_later dsync l = Inr l' \<and> cast_inv l'"
proof (cases "lc_later l")
  case Nil
  then show ?thesis using inv by (simp add: delete_later_def)
next
  case (Cons i rest)
  have li: "i \<in> set (lc_later l)" using Cons by simp
  then obtain s where s: "lc_objs l i = Some s" "lc_server l \<noteq> Some i"
    using inv by (auto simp: cast_inv_def objs_inv_def)
  then have "server_inv s" and dead0: "\<not> m_server s" using inv by (auto simp: cast_inv_def objs_inv_def)
  then have dead: "\<not> m_server s" "m_socket s = None" by (auto simp: server_inv_def)
  let ?s1 = "freeShm (s\<lparr>m_server := False\<rparr>)"
  have d: "server_delete dsync s = Inr ?s1" "sv_signals ?s1 = sv_signals s"
    using dead by (simp_all add: server_delete_def server_stop_def freeShm_def)
  let ?l' = "l\<lparr>lc_objs := (lc_objs l)(i := None), lc_later := rest\<rparr>"
  have e: "delete_later dsync l = Inr ?l'" using Cons s d by (simp add: delete_later_def put_server_def)
  have "objs_inv ?l'" using inv s Cons by (auto simp: cast_inv_def objs_inv_def)
  moreover have "view_inv ((lc_objs l)(i := None)) (lc_view l)"
    by (rule view_inv_objs [of "lc_objs l"]) (use inv s in \<open>auto simp: cast_inv_def same_picture_def\<close>)
  ultimately have "cast_inv ?l'" using inv by (simp add: cast_inv_def)
  then show ?thesis using e by blast
qed

text \<open>An operation of a server that keeps its memory and stays listening.\<close>

lemma on_server_inv:
  assumes inv: "cast_inv l" and s: "lc_objs l i = Some s" "m_server s"
    and f: "server_inv (f s)" "m_server (f s)" "same_picture s (f s)"
  shows "case on_server i f l of Inr l' \<Rightarrow> cast_inv l' | Inl x \<Rightarrow> range_error x"
    and "\<forall>g \<in> set (drop (length (sv_signals s)) (sv_signals (f s))). \<not> is_frame g \<Longrightarrow> \<exists>l'. on_server i f l = Inr l'"
proof -
  let ?l1 = "l\<lparr>lc_objs := (lc_objs l)(i \<mapsto> f s)\<rparr>"
  have srv: "lc_server l = Some i" using inv s by (auto simp: cast_inv_def objs_inv_def)
  have e: "on_server i f l = deliver i (drop (length (sv_signals s)) (sv_signals (f s))) ?l1"
    using s by (simp add: on_server_def put_server_def)
  have "objs_inv ?l1" using inv s f srv by (auto simp: cast_inv_def objs_inv_def)
  moreover have "view_inv (lc_objs ?l1) (lc_view l)"
    by (rule view_inv_objs [of "lc_objs l"]) (use inv s f(3) in \<open>auto simp: cast_inv_def same_picture_def\<close>)
  ultimately have i1: "cast_inv ?l1" using inv by (simp add: cast_inv_def)
  have "Option.bind (lc_server ?l1) (lc_objs ?l1) \<noteq> None" using srv by simp
  note er = deliver_errors [OF this]
  show "case on_server i f l of Inr l' \<Rightarrow> cast_inv l' | Inl x \<Rightarrow> range_error x"
    unfolding e using er keeps_inv [OF deliver_keeps i1] by (auto split: sum.splits)
  show "\<forall>g \<in> set (drop (length (sv_signals s)) (sv_signals (f s))). \<not> is_frame g \<Longrightarrow> \<exists>l'. on_server i f l = Inr l'"
    unfolding e by (rule deliver_no_frames)
qed

lemma same_buffer_picture: "same_buffer s s' \<Longrightarrow> same_picture s s'"
  by (simp add: same_buffer_def same_picture_def)

section \<open>Every event\<close>

text \<open>A client that connects, sends or goes.\<close>

lemma server_of: "cast_inv l \<Longrightarrow> lc_objs l i = Some s \<Longrightarrow> server_inv s"
  by (auto simp: cast_inv_def objs_inv_def)

lemma connect_inv:
  assumes inv: "cast_inv l" and s: "lc_objs l i = Some s" "m_server s"
  shows "\<exists>l'. on_server i onNewConnection l = Inr l' \<and> cast_inv l'"
proof -
  have "server_inv (onNewConnection s)" "m_server (onNewConnection s)" "same_picture s (onNewConnection s)"
    "\<forall>g \<in> set (drop (length (sv_signals s)) (sv_signals (onNewConnection s))). \<not> is_frame g"
    using server_sys.step_inv [OF server_of [OF inv s(1)], of dsync Ev_connect clk] s
    by (auto simp: onNewConnection_def emit_def same_picture_def)
  then show ?thesis using on_server_inv [OF inv s, of onNewConnection] by (auto split: sum.splits)
qed

lemma disconnected_inv:
  assumes inv: "cast_inv l" and s: "lc_objs l i = Some s" "m_socket s \<noteq> None"
  shows "\<exists>l'. on_server i onSocketDisconnected l = Inr l' \<and> cast_inv l'"
proof -
  have m: "m_server s" using server_of [OF inv s(1)] s(2) by (auto simp: server_inv_def)
  have "server_inv (onSocketDisconnected s)"
    using server_sys.step_inv [OF server_of [OF inv s(1)], of dsync Ev_disconnected clk] s by simp
  moreover have "m_server (onSocketDisconnected s)" "same_picture s (onSocketDisconnected s)"
    "\<forall>g \<in> set (drop (length (sv_signals s)) (sv_signals (onSocketDisconnected s))). \<not> is_frame g"
    using m by (auto simp: onSocketDisconnected_def emit_def same_picture_def)
  ultimately show ?thesis using on_server_inv [OF inv s(1) m, of onSocketDisconnected] by (auto split: sum.splits)
qed

lemma data_inv:
  assumes inv: "cast_inv l" and s: "lc_objs l i = Some s" "m_socket s \<noteq> None"
  shows "case on_server i (\<lambda>s. feed dsync clk s b) l of Inr l' \<Rightarrow> cast_inv l' | Inl x \<Rightarrow> range_error x"
proof -
  have si: "server_inv s" by (rule server_of [OF inv s(1)])
  then have m: "m_server s" using s by (auto simp: server_inv_def)
  have sb: "same_buffer s (feed dsync clk s b)"
    unfolding feed_def sock_arrive_set_unread
    by (rule same_buffer_trans [OF same_buffer_set_unread same_buffer_read])
  then have "m_server (feed dsync clk s b)" using m by (simp add: same_buffer_def)
  then show ?thesis
    using on_server_inv(1) [OF inv s(1) m, of "\<lambda>s. feed dsync clk s b"] same_buffer_inv [OF sb si] same_buffer_picture [OF sb]
    by simp
qed

lemma cast_step_ok:
  assumes inv: "cast_inv l" and en: "cast_enabled l e"
  shows "case cast_step dsync clk l e of
      Inr l' \<Rightarrow> cast_inv l'
    | Inl x \<Rightarrow>
        x = Undefined Null_deref \<and> (\<exists>io info sp sysenv cfg. e = Ca_start io info sp sysenv cfg \<and>
          \<not> session_running l \<and> format_clash dsync (cfg_gray cfg) l) \<or>
        range_error x \<and> (\<exists>i b. e = Ca_data i b)"
proof (cases e)
  case (Ca_start io info sp sysenv cfg)
  then show ?thesis using startSession_inv [OF inv, of info cfg dsync io sp sysenv] en
    by (auto split: if_splits)
next
  case (Ca_stop fin1 fin2)
  have "keeps l (stopSession fin1 fin2 l)"
    by (auto simp: stopSession_def process_finished_def keeps_def lc_emit_def Let_def split: option.splits)
  then show ?thesis using keeps_inv [OF _ inv] Ca_stop by simp
next
  case (Ca_finished code)
  have "keeps l (process_finished code l)" by (simp add: process_finished_def keeps_def lc_emit_def)
  then show ?thesis using keeps_inv [OF _ inv] Ca_finished by simp
next
  case Ca_delete_later
  then show ?thesis using delete_later_inv [OF inv, of dsync] by auto
next
  case (Ca_connect i)
  then show ?thesis using connect_inv [OF inv, of i] en by (auto split: option.splits)
next
  case (Ca_data i b)
  then show ?thesis using data_inv [OF inv, of i _ dsync clk b] en by (auto split: option.splits sum.splits)
next
  case (Ca_disconnected i)
  then show ?thesis using disconnected_inv [OF inv, of i] en by (auto split: option.splits)
next
  case (Ca_overlay b)
  have "keeps l (if b then openOverlay l else closeOverlay l)"
    by (simp add: openOverlay_def closeOverlay_def setOverlayOpen_def keeps_def lc_emit_def)
  then show ?thesis using keeps_inv [OF _ inv] Ca_overlay by simp
next
  case (Ca_resize sz)
  then show ?thesis using inv view_inv_resize
    by (simp add: cast_inv_def objs_inv_def) (simp add: geometryChange_def)
next
  case (Ca_rotate deg)
  have "fv_server (setRotation deg v) = fv_server v" for v
    by (simp add: setRotation_def request_update_def Let_def)
  then show ?thesis using inv view_inv_rotate Ca_rotate by (simp add: cast_inv_def objs_inv_def)
next
  case Ca_paint
  then show ?thesis using inv view_inv_paint by (simp add: cast_inv_def objs_inv_def)
qed

section \<open>Reachable states\<close>

definition cast_next :: "bool \<Rightarrow> (nat \<Rightarrow> int) \<Rightarrow> launcher \<Rightarrow> cast_event \<Rightarrow> launcher" where
  "cast_next dsync clk l e = (case cast_step dsync clk l e of Inr l' \<Rightarrow> l' | Inl x \<Rightarrow> l)"

text \<open>Events that can come and that do not end the process.\<close>

definition cast_allowed :: "bool \<Rightarrow> (nat \<Rightarrow> int) \<Rightarrow> launcher \<Rightarrow> cast_event \<Rightarrow> bool" where
  "cast_allowed dsync clk l e \<longleftrightarrow> cast_enabled l e \<and> (\<exists>l'. cast_step dsync clk l e = Inr l')"

lemma launcher_with_inv: "g_force_mode h = -1 \<Longrightarrow> cast_inv (launcher_with h sz)"
  by (simp add: cast_inv_def objs_inv_def launcher_with_def frame_view_new_def view_inv_def)

lemma install_force_mode: "installHook lib ie h = Inr h' \<Longrightarrow> g_force_mode h' = g_force_mode h"
  by (auto simp: installHook_def install_inline_hook_locked_def resolve_once_def Let_def bindE_Inr_iff
      split: if_splits option.splits prod.splits)

lemma launcher_new_inv: "launcher_new env lib ie m sz = Inr l \<Longrightarrow> cast_inv l"
  by (auto simp: launcher_new_def bindE_Inr_iff setLogging_def hooks_init_def dest!: install_force_mode
      intro!: launcher_with_inv split: if_splits)

interpretation cast_sys: transition_system "launcher_with (hooks_init m) sz" "cast_allowed dsync clk"
    "cast_next dsync clk" cast_inv
proof unfold_locales
  show "cast_inv (launcher_with (hooks_init m) sz)" by (rule launcher_with_inv) (simp add: hooks_init_def)
next
  fix l e
  assume "cast_inv l" "cast_allowed dsync clk l e"
  then show "cast_inv (cast_next dsync clk l e)"
    using cast_step_ok [of l e dsync clk] by (auto simp: cast_allowed_def cast_next_def)
qed

text \<open>The picture of a state with the invariant: memory that is mapped, with whole rows of pixels.\<close>

fun bytes_of_format :: "image_format \<Rightarrow> int" where
  "bytes_of_format Format_Grayscale8 = 1"
| "bytes_of_format Format_Grayscale16 = 2"
| "bytes_of_format Format_RGBA8888 = 4"

definition backed :: "launcher \<Rightarrow> frame_image \<Rightarrow> bool" where
  "backed l im \<longleftrightarrow>
     (\<exists>s shm. lc_objs l (fi_owner im) = Some s \<and> lc_server l = Some (fi_owner im) \<and> m_server s \<and>
        sv_shm s = Some shm \<and> int (length shm) = fi_stride im * fi_h im \<and>
        fi_stride im = bytes_of_format (fi_format im) * fi_w im \<and> 0 < fi_w im \<and> fi_w im < 2 ^ 12 \<and>
        0 < fi_h im \<and> fi_h im < 2 ^ 12)"

lemma picture_backed:
  assumes "cast_inv l" "fv_img (lc_view l) = Some im"
  shows "backed l im"
proof -
  obtain s where s: "lc_server l = Some (fi_owner im)" "lc_objs l (fi_owner im) = Some s" "pictures im s"
    using assms by (auto simp: cast_inv_def view_inv_def)
  then have "server_inv s" "m_server s" using assms(1) by (auto simp: cast_inv_def objs_inv_def)
  then show ?thesis using s
    by (auto simp: backed_def pictures_def server_inv_def format_fits_def)
qed

lemma paint_ops_backed:
  assumes "cast_inv l" "op \<in> set (snd (fv_paint (lc_objs l) (lc_view l)))" "op_place op (0, 0) \<noteq> None"
  obtains im where "op = draw_op (if fv_layoutValid (lc_view l) then lc_view l else recalcLayout (lc_view l)) im"
    "fv_img (lc_view l) = Some im" "backed l im"
proof -
  have r: "fv_img (recalcLayout v) = fv_img v" for v
    by (auto simp: recalcLayout_def Let_def split: option.splits prod.splits)
  have "\<exists>im. fv_img (lc_view l) = Some im \<and>
      op = draw_op (if fv_layoutValid (lc_view l) then lc_view l else recalcLayout (lc_view l)) im"
    using assms(2,3) r by (auto simp: fv_paint_def Let_def split: if_splits option.splits)
  then show thesis using that picture_backed [OF assms(1)] by blast
qed

lemma never_forcing: "cast_inv l \<Longrightarrow> \<not> forcing (lc_hooks l)"
  by (simp add: cast_inv_def forcing_def)

section \<open>From the preferences to vnsee\<close>

text \<open>What vnsee reads from the environment that the launcher has written.\<close>

lemma asMap_values:
  "variant_value (asMap s) ''host'' d = VStr (st_host s)" "variant_value (asMap s) ''port'' d = VInt (st_port s)"
  "variant_value (asMap s) ''fps'' d = VInt (st_fps s)" "variant_value (asMap s) ''waveform'' d = VStr (st_waveform s)"
  "variant_value (asMap s) ''orientation'' d = VStr (st_orientation s)"
  "variant_value (asMap s) ''encoding'' d = VStr (st_encoding s)"
  "variant_value (asMap s) ''grayscale'' d = VBool (st_grayscale s)"
  "variant_value (asMap s) ''mono1'' d = VBool (st_mono1 s)"
  "variant_value (asMap s) ''lowLatency'' d = VBool (st_lowLatency s)"
  "variant_value (asMap s) ''compressLevel'' d = VInt (st_compressLevel s)"
  by (simp_all add: variant_value_def asMap_def)

lemma cfg_asMap:
  "cfg_gray (asMap s) = st_grayscale s"
  "cfg_waveform (asMap s) = (if st_lowLatency s then ''DU'' else st_waveform s)"
  "session_port (asMap s) = st_port s"
  by (simp_all add: cfg_gray_def cfg_waveform_def session_port_def asMap_values)

lemma vnsee_env_values:
  "vnsee_env cfg e ''VNCAST_QTFB_SOCKET'' = Some kQtfbSocket"
  "vnsee_env cfg e ''VNCAST_FPS'' = Some (show_int (variant_toInt (variant_value cfg ''fps'' (VInt 0))))"
  "vnsee_env cfg e ''VNCAST_WAVEFORM'' = Some (cfg_waveform cfg)"
  "vnsee_env cfg e ''VNCAST_FORCE_GRAYSCALE'' = Some (if cfg_gray cfg then ''1'' else ''0'')"
  "vnsee_env cfg e ''VNCAST_COMPRESS_LEVEL'' = Some (show_int (variant_toInt (variant_value cfg ''compressLevel'' (VInt 0))))"
  by (simp_all add: vnsee_env_def Let_def)

definition reads_back :: "settings \<Rightarrow> environment \<Rightarrow> bool" where
  "reads_back s e \<longleftrightarrow>
     prefer_vncast e \<and> socket_path e None = SOCKET \<and>
     env_fps e = (if 0 < st_fps s \<and> st_fps s \<le> 120 then word_of_int (st_fps s) else 0) \<and>
     (\<forall>c. m_waveform (env_grayscale e (env_waveform e c)) = (if st_lowLatency s then ''DU'' else st_waveform s) \<and>
       m_force_grayscale (env_grayscale e (env_waveform e c)) = st_grayscale s) \<and>
     compress_env e = (if 0 \<le> st_compressLevel s \<and> st_compressLevel s \<le> 9 then st_compressLevel s else 0)"

lemma vnsee_env_reads_back: "ints_fit s \<Longrightarrow> reads_back s (vnsee_env (asMap s) sysenv)"
proof -
  assume "ints_fit s"
  then have "strtol (show_int (st_fps s)) = st_fps s" "strtol (show_int (st_compressLevel s)) = st_compressLevel s"
    by (auto intro!: strtol_show_int simp: ints_fit_def INT_MIN_def INT_MAX_def)
  then show ?thesis
    by (simp add: reads_back_def prefer_vncast_def socket_path_def env_fps_def env_waveform_def env_grayscale_def
        compress_env_def vnsee_env_values cfg_asMap asMap_values kQtfbSocket_def SOCKET_def cstr_at_def Let_def)
qed

text \<open>
  A port other than the default one does not arrive: it is appended to the host, as a display
  number that vnsee's own command line does not know.
\<close>

lemma vnsee_args_main:
  assumes "plain host" "cstr_at host 0 \<noteq> CHR ''-''"
  shows "main_args env (vnsee_args host port) = Start
    \<lparr>server_ip = (if port = 5900 then host else host @ '':'' @ show_int (port - 5900)), server_port = 5900,
     server_password = [], req_buttons = True, req_pen = True, req_touch = True, cfg_orientation = Auto,
     auto_rotate = False, lock_rotation = True\<rparr>"
proof -
  have "plain (host @ '':'' @ t)" for t
    using assms by (cases host) (auto simp: plain_def cstr_at_def)
  then have "parse (vnsee_args host port) = ([], vnsee_args host port)"
    using assms(1) by (intro parse_operands) (auto simp: vnsee_args_def)
  then show ?thesis
    by (simp add: main_args_def vnsee_args_def has_opt_def known_opts_def erase_opt_def default_server_port_def)
qed

section \<open>Every retired server is destroyed\<close>

text \<open>As many turns of the event loop as objects wait: then only the present server is left.\<close>

fun turns :: "bool \<Rightarrow> nat \<Rightarrow> launcher \<Rightarrow> launcher res" where
  "turns dsync 0 l = Inr l"
| "turns dsync (Suc n) l = bindE (delete_later dsync l) (turns dsync n)"

lemma delete_later_pops:
  assumes "cast_inv l" "delete_later dsync l = Inr l'" "lc_later l = i # rest"
  shows "lc_later l' = rest" "lc_server l' = lc_server l"
proof -
  have "i \<in> set (lc_later l)" using assms(3) by simp
  then obtain s where s: "lc_objs l i = Some s" "lc_server l \<noteq> Some i"
    using assms(1) by (auto simp: cast_inv_def objs_inv_def)
  then have "server_inv s" "\<not> m_server s" using assms(1) by (auto simp: cast_inv_def objs_inv_def)
  then have "m_socket s = None" by (auto simp: server_inv_def)
  then show "lc_later l' = rest" "lc_server l' = lc_server l"
    using assms(2,3) s by (auto simp: delete_later_def server_delete_def server_stop_def freeShm_def put_server_def)
qed

lemma turns_destroy:
  "cast_inv l \<Longrightarrow> n = length (lc_later l) \<Longrightarrow> \<exists>l'. turns dsync n l = Inr l' \<and> cast_inv l' \<and> lc_server l' = lc_server l \<and>
     {i. lc_objs l' i \<noteq> None} = set_option (lc_server l)"
proof (induction n arbitrary: l)
  case 0
  then have later: "set (lc_later l) = {i. lc_objs l i \<noteq> None \<and> lc_server l \<noteq> Some i}"
    and srv: "\<forall>i. lc_server l = Some i \<longrightarrow> lc_objs l i \<noteq> None"
    unfolding cast_inv_def objs_inv_def by blast+
  have "lc_objs l i \<noteq> None \<longleftrightarrow> lc_server l = Some i" for i
    using srv eqset_imp_iff [OF later, of i] 0(2) by (cases "lc_server l = Some i") simp_all
  then show ?case using 0 by auto
next
  case (Suc n)
  then obtain i rest where l: "lc_later l = i # rest" by (cases "lc_later l") auto
  obtain l1 where l1: "delete_later dsync l = Inr l1" "cast_inv l1" using delete_later_inv [OF Suc.prems(1)] by blast
  note p = delete_later_pops [OF Suc.prems(1) l1(1) l]
  show ?case using Suc.IH [OF l1(2)] Suc.prems(2) l p l1(1) by simp
qed

end
