(* ===== verification/Session.thy ===== *)
theory Session
  imports VncastClient QtfbServer
begin

text \<open>
  A client and a server together: the acknowledgement the server writes is the one the client
  needs to map the shared memory and to blit into it safely, and the messages a client writes
  are the ones the server handles, in order, however the socket cuts the stream.
\<close>

section \<open>The acknowledgement\<close>

text \<open>Names \<open>shm_open\<close> accepts here: ASCII, no NUL, and short enough for the message field.\<close>

definition shm_name_ok :: "string \<Rightarrow> bool" where
  "shm_name_ok nm \<longleftrightarrow> length nm \<le> 64 \<and> (\<forall>c \<in> set nm. c \<noteq> CHR 0x00)"

lemma ack_of_wf: "ack_wf (ack_of s h)"
  by (auto simp: ack_wf_def ack_of_def Let_def ascii_bytes_def)

lemma unat_of_char_u8: "unat (of_char c :: u8) = of_char c"
proof -
  have e: "(of_char c :: u8) = word_of_nat (of_char c)" by (rule of_nat_of_char [symmetric])
  have "unat (word_of_nat n :: u8) = take_bit 8 n" for n by (simp add: unsigned_of_nat)
  then have "unat (of_char c :: u8) = take_bit 8 (of_char c :: nat)" unfolding e by blast
  also have "\<dots> = of_char c" using nat_of_char_less_256 [of c]
    by (simp add: take_bit_nat_eq_self)
  finally show ?thesis .
qed

lemma of_char_u8_nonzero: "c \<noteq> CHR 0x00 \<Longrightarrow> (of_char c :: u8) \<noteq> 0"
proof
  assume "c \<noteq> CHR 0x00" "(of_char c :: u8) = 0"
  then have "(of_char c :: nat) = 0" using unat_of_char_u8 [of c] by simp
  then have "c = char_of (0 :: nat)" by (metis char_of_char)
  with \<open>c \<noteq> CHR 0x00\<close> show False by (simp add: char_of_def)
qed

text \<open>The name travels through the fixed-size field unharmed.\<close>

lemma c_string_ack:
  assumes "shm_name_ok (sv_shmName s)"
  shows "c_string (take (min (unat (shm_name_len (ack_of s h))) 64) (shm_name (ack_of s h))) = sv_shmName s"
proof -
  let ?n = "sv_shmName s"
  have l: "length ?n \<le> 64" and z: "\<forall>c \<in> set ?n. c \<noteq> CHR 0x00" using assms by (auto simp: shm_name_ok_def)
  have u: "unat (shm_name_len (ack_of s h)) = length ?n"
    using l by (simp add: ack_of_def Let_def ascii_bytes_def unsigned_of_nat take_bit_nat_eq_self)
  have "take (min (unat (shm_name_len (ack_of s h))) 64) (shm_name (ack_of s h)) = ascii_bytes ?n"
    using l unfolding u by (simp add: ack_of_def Let_def ascii_bytes_def)
  moreover have tw: "takeWhile (\<lambda>w. w \<noteq> 0) (ascii_bytes ?n) = ascii_bytes ?n"
    using z of_char_u8_nonzero unfolding takeWhile_eq_all_conv ascii_bytes_def by auto
  ultimately have "c_string (take (min (unat (shm_name_len (ack_of s h))) 64) (shm_name (ack_of s h))) =
      map (\<lambda>w. char_of (unat w)) (ascii_bytes ?n)" unfolding c_string_def by (simp only: tw)
  then show ?thesis by (simp add: ascii_bytes_def comp_def unat_of_char_u8)
qed

text \<open>
  The kernel's side of a handshake: the shared memory that the server created is what the
  client opens under its name.
\<close>

definition shares_shm :: "os \<Rightarrow> server \<Rightarrow> bool" where
  "shares_shm os s \<longleftrightarrow> os_mmap os = None \<and>
     (\<exists>shm content. sv_shm s = Some shm \<and> length content = length shm \<and>
        os_shm os (''/dev/shm'' @ sv_shmName s) = Inr content)"

lemma uint_small_int: "0 \<le> n \<Longrightarrow> n < 2 ^ 32 \<Longrightarrow> uint (word_of_int n :: u32) = n"
  by (simp add: unsigned_of_int take_bit_int_eq_self)

lemma ack_of_geometry:
  assumes "server_inv s" "m_server s"
  shows "uint (ack_w (ack_of s h)) = sv_w s" "uint (ack_h (ack_of s h)) = sv_h s"
    "uint (ack_stride (ack_of s h)) = sv_stride s" "ack_format (ack_of s h) = sv_format s"
    "sv_format s \<in> {0, 1, 2}" "0 < sv_w s" "sv_w s < 2 ^ 12" "0 < sv_h s" "sv_h s < 2 ^ 12"
    "sv_stride s = sv_w s * int (bytes_per_pixel (sv_format s))"
proof -
  have b: "0 < sv_w s" "sv_w s < 2 ^ 12" "0 < sv_h s" "sv_h s < 2 ^ 12" "format_fits s"
    using assms by (auto simp: server_inv_def)
  then show "0 < sv_w s" "sv_w s < 2 ^ 12" "0 < sv_h s" "sv_h s < 2 ^ 12" by auto
  show "sv_stride s = sv_w s * int (bytes_per_pixel (sv_format s))" "sv_format s \<in> {0, 1, 2}"
    using b(5) by (auto simp: format_fits_def bytes_per_pixel_def)
  have "0 \<le> sv_stride s" "sv_stride s < 2 ^ 32" using b by (auto simp: format_fits_def)
  with b show "uint (ack_w (ack_of s h)) = sv_w s" "uint (ack_h (ack_of s h)) = sv_h s"
    "uint (ack_stride (ack_of s h)) = sv_stride s"
    by (simp_all add: ack_of_def Let_def uint_small_int)
  show "ack_format (ack_of s h) = sv_format s" by (simp add: ack_of_def Let_def)
qed

text \<open>The acknowledgement determines what the client knows of the server.\<close>

lemma ack_unique:
  assumes "ack_wf a" "enc_ack (ack_of s h) = enc_ack a @ rest"
  shows "a = ack_of s h"
proof -
  have "take 100 (enc_ack a @ rest) = enc_ack a" using ack_codec.take_enc assms(1) by simp
  moreover have "take 100 (enc_ack (ack_of s h) @ []) = enc_ack (ack_of s h)"
    by (rule ack_codec.take_enc) (rule ack_of_wf)
  ultimately have "enc_ack a = enc_ack (ack_of s h)" using assms(2) by simp
  then show ?thesis using ack_codec.enc_inj assms(1) ack_of_wf by blast
qed

lemma session_geometry:
  assumes "rx_stream (m_rx c) = enc_ack (ack_of s h)" "handshake os env c = Inr c'"
  shows "m_w c' = ack_w (ack_of s h)" "m_h c' = ack_h (ack_of s h)" "m_stride c' = ack_stride (ack_of s h)"
    "m_format c' = ack_format (ack_of s h)" "m_out c' = m_out c @ enc_hello (hello_msg (env_fps env))"
proof -
  obtain a where a: "ack_wf a" "rx_stream (m_rx c) = enc_ack a @ rx_stream (m_rx c')"
    "m_w c' = ack_w a" "m_h c' = ack_h a" "m_stride c' = ack_stride a" "m_format c' = ack_format a"
    "m_out c' = m_out c @ enc_hello (hello_msg (env_fps env))"
    using handshake_Inr [OF assms(2)] by blast
  have "a = ack_of s h" using ack_unique a(1,2) assms(1) by metis
  with a show "m_w c' = ack_w (ack_of s h)" "m_h c' = ack_h (ack_of s h)" "m_stride c' = ack_stride (ack_of s h)"
    "m_format c' = ack_format (ack_of s h)" "m_out c' = m_out c @ enc_hello (hello_msg (env_fps env))" by simp_all
qed

text \<open>
  A client that completes its handshake with this server can use every operation safely.
\<close>

lemma session_panel_ok:
  assumes inv: "server_inv s" "m_server s" "shm_name_ok (sv_shmName s)" "shares_shm os s"
    and rx: "rx_stream (m_rx c) = enc_ack (ack_of s h)"
    and hs: "handshake os env c = Inr c'"
  shows "panel_ok c'"
proof -
  note g = ack_of_geometry [OF inv(1,2)]
  have st: "0 \<le> sv_stride s" "sv_stride s < 2 ^ 14"
    using g(5-10) by (auto simp: bytes_per_pixel_def)
  have area: "sv_stride s * sv_h s < 2 ^ 32"
  proof -
    have "sv_stride s * sv_h s \<le> 2 ^ 14 * 2 ^ 12"
      using st g(8,9) by (intro mult_mono) auto
    then show ?thesis by simp
  qed
  have uniq: "a = ack_of s h" if "ack_wf a" "rx_stream (m_rx c) = enc_ack a @ rest" for a rest
    using ack_unique [OF that(1)] that(2) rx by simp
  obtain shm content where shm: "sv_shm s = Some shm" "length content = length shm"
    "os_shm os (''/dev/shm'' @ sv_shmName s) = Inr content"
    using inv(4) by (auto simp: shares_shm_def)
  have len: "int (length content) = sv_stride s * sv_h s"
    using inv(1,2) shm by (auto simp: server_inv_def)
  have v: "vconn_ok c'"
    by (rule handshake_consistent [OF hs])
      (use uniq g st area len shm c_string_ack [OF inv(3), of h] in
        \<open>auto simp: bytes_per_pixel_def dest!: uniq\<close>)
  have w: "uint (m_w c') = sv_w s" "uint (m_h c') = sv_h s"
    using session_geometry [OF rx hs] g by simp_all
  have "sv_w s * sv_h s \<le> 4095 * 4095" using g(6-9) by (intro mult_mono) auto
  then show ?thesis using v w g(6-9) by (simp add: panel_ok_def INT_MAX_def)
qed

text \<open>And the handshake does complete, as soon as the kernel moves the bytes.\<close>

lemma session_handshake_completes:
  assumes inv: "server_inv s" "m_server s" "shm_name_ok (sv_shmName s)" "shares_shm os s"
    and h: "client_version h = VERSION"
    and rx: "rx_stream (m_rx c) = enc_ack (ack_of s h)" "Received [] \<notin> set (m_rx c)"
      "\<And>e. Rx_error e \<in> set (m_rx c) \<Longrightarrow> e = EINTR"
    and tx: "24 \<le> progress (m_tx c)" "\<And>e. Tx_error e \<in> set (m_tx c) \<Longrightarrow> e = EINTR"
  shows "\<exists>c'. handshake os env c = Inr c'"
proof -
  let ?c1 = "env_grayscale env (env_waveform env c)" and ?a = "ack_of s h"
  note g = ack_of_geometry [OF inv(1,2)]
  have "length (enc_hello (hello_msg (env_fps env))) \<le> progress (m_tx ?c1)"
    using tx(1) hello_codec.enc_size by (simp add: env_mode_frame)
  moreover have "e = EINTR" if "Tx_error e \<in> set (m_tx ?c1)" for e
    using tx(2) that by (simp add: env_mode_frame)
  ultimately obtain tx' where "send_all (m_tx ?c1) (enc_hello (hello_msg (env_fps env))) (m_out ?c1) =
      Inr (tx', m_out ?c1 @ enc_hello (hello_msg (env_fps env)))"
    using send_all_returns by blast
  then have s: "send_msg (enc_hello (hello_msg (env_fps env))) ?c1 =
      Inr (?c1\<lparr>m_tx := tx', m_out := m_out ?c1 @ enc_hello (hello_msg (env_fps env))\<rparr>)"
    by (simp add: send_msg_def)
  have la: "length (enc_ack ?a) = 100" by (rule ack_codec.enc_size) (rule ack_of_wf)
  then obtain rx' d where r: "recv_all (m_rx c) 100 [] = Inr (rx', d)"
    using recv_all_returns [of 100 "m_rx c" "[]"] rx by auto
  have d: "d = enc_ack ?a" using recv_all_stream [OF r] rx(1) la by simp
  have acc: "magic (ack_header ?a) = MAGIC" "htag (ack_header ?a) = tag_code HelloAckS2C" "accepted ?a \<noteq> 0"
    using h by (simp_all add: ack_of_def Let_def mk_header_def)
  obtain content where sh: "os_shm os (''/dev/shm'' @ sv_shmName s) = Inr content" "os_mmap os = None"
    using inv(4) by (auto simp: shares_shm_def)
  have st: "0 < sv_stride s" "sv_stride s < 2 ^ 14"
    using g(5-10) by (auto simp: bytes_per_pixel_def)
  have nz: "unat (ack_stride ?a * ack_h ?a) \<noteq> 0"
  proof -
    have "sv_stride s * sv_h s \<le> 2 ^ 14 * 2 ^ 12"
      using st g(8,9) by (intro mult_mono) auto
    then have "uint (ack_stride ?a * ack_h ?a) = sv_stride s * sv_h s"
      using g(2,3) st g(8) by (simp add: uint_word_ariths)
    then have "uint (ack_stride ?a * ack_h ?a) \<noteq> 0" using st(1) g(8) by simp
    then show ?thesis by (auto simp: unat_eq_zero)
  qed
  show ?thesis
    using c_string_ack [OF inv(3), of h] sh nz acc ack_codec.dec_enc [OF ack_of_wf, of s h]
    by (simp add: handshake_def Let_def s r d env_mode_frame open_shm_def)
qed

section \<open>The stream\<close>

text \<open>
  Whatever a client does after its handshake, the server handles the hello and then exactly the
  client's frames and cursor updates, in the order of the operations, whole, and with one frame
  for every update.
\<close>

lemma session_stream:
  assumes hs: "handshake os env c = Inr c1" "m_out c = []"
    and run: "vop_run ps c1 = Inr c2" "whole_sends (m_tx c1)" "list_all vop_ok ps"
    and srv: "m_socket s \<noteq> None" "unread s = []"
    and cut: "concat chunks = m_out c2"
  shows "\<exists>ms. list_all c2s_wf ms \<and> list_all keeps_open ms \<and>
      map frame_seq (frames_of ms) =
        map (\<lambda>i. m_seq c + word_of_nat (Suc i)) [0..<length (filter is_update ps)] \<and>
      foldl (feed dsync clk) s chunks =
        set_unread [] (foldl (handle_c2s dsync clk) (handleHello dsync (hello_msg (env_fps env)) s) ms)"
proof -
  from handshake_Inr [OF hs(1)] hs(2) have o: "m_out c1 = enc_hello (hello_msg (env_fps env))"
    and sq: "m_seq c1 = m_seq c" by auto
  from vop_run_stream [OF run] obtain ms where ms: "m_out c2 = m_out c1 @ enc_all ms"
    "list_all c2s_wf ms" "list_all keeps_open ms" "map frame_seq (frames_of ms) =
       map (\<lambda>i. m_seq c1 + word_of_nat (Suc i)) [0..<length (filter is_update ps)]" by blast
  let ?ms = "C2S_Hello (hello_msg (env_fps env)) # ms"
  have "foldl (feed dsync clk) s chunks = set_unread [] (foldl (handle_c2s dsync clk) s ?ms)"
    by (rule feed_messages)
      (use srv cut o ms in \<open>auto simp: partial_front_def hello_msg_def\<close>)
  then show ?thesis using ms sq by auto
qed

end
