(* ===== verification/Delivery.thy ===== *)
theory Delivery
  imports Cast Session
begin

text \<open>
  What becomes of the client's messages in the middleware: which signals a server emits for them
  when its frame-rate cap drops none, what the launcher and the item do with these signals, and
  that the update requests of the item cover, pixel by pixel, the frames they stand for. The
  arithmetic on rectangles is shown to stay in range for items and panels of ordinary size.
\<close>

section \<open>The signals of messages\<close>

text \<open>A server that need not drop frames: it has no cap, or its clock leaves a period between readings.\<close>

definition unhurried :: "(nat \<Rightarrow> int) \<Rightarrow> server \<Rightarrow> bool" where
  "unhurried clk s \<longleftrightarrow> m_fps_cap s = 0 \<or>
     ((m_last_emit_ms s = 0 \<or> m_min_period_ms s \<le> clk (sv_ticks s) - m_last_emit_ms s) \<and>
      (\<forall>i. sv_ticks s \<le> i \<longrightarrow> m_min_period_ms s \<le> clk (Suc i) - clk i))"

definition frame_signal :: "frame \<Rightarrow> signal" where
  "frame_signal f = FrameReady (frame_seq f) (sint (frame_x f)) (sint (frame_y f)) (sint (frame_w f)) (sint (frame_h f))"

fun plain_signal :: "signal \<Rightarrow> bool" where
  "plain_signal ClientConnected = False"
| "plain_signal ClientDisconnected = False"
| "plain_signal _ = True"

definition announces :: "server \<Rightarrow> server \<Rightarrow> frame list \<Rightarrow> bool" where
  "announces s s' fs \<longleftrightarrow>
     (\<exists>gs. sv_signals s' = sv_signals s @ gs \<and> filter is_frame gs = map frame_signal fs \<and> list_all plain_signal gs)"

lemma announces_refl [simp]: "announces s s []"
  by (simp add: announces_def)

lemma announces_trans: "announces a b fs \<Longrightarrow> announces b c gs \<Longrightarrow> announces a c (fs @ gs)"
  unfolding announces_def by force

lemma announces_set_unread [simp]: "announces s (set_unread r s') fs = announces s s' fs"
  by (simp add: announces_def set_unread_def)

lemma unhurried_set_unread [simp]: "unhurried clk (set_unread r s) = unhurried clk s"
  by (simp add: unhurried_def set_unread_def)

lemma handle_unhurried:
  assumes "frame_or_cursor m" "unhurried clk s"
  shows "announces s (handle_c2s dsync clk s m) (frames_of [m]) \<and> unhurried clk (handle_c2s dsync clk s m)"
proof (cases m)
  case (C2S_Frame f)
  then show ?thesis using assms(2)
    by (auto simp: announces_def unhurried_def handleFrame_def Let_def emit_def frame_signal_def)
next
  case (C2S_Cursor c)
  then show ?thesis using assms(2)
    by (auto simp: announces_def unhurried_def handleCursor_def Let_def emit_def)
qed (use assms in simp_all)

lemma frames_of_Cons: "frames_of (m # ms) = frames_of [m] @ frames_of ms"
  by (cases m) simp_all

lemma handle_all_unhurried:
  "list_all frame_or_cursor ms \<Longrightarrow> unhurried clk s \<Longrightarrow>
     announces s (foldl (handle_c2s dsync clk) s ms) (frames_of ms) \<and> unhurried clk (foldl (handle_c2s dsync clk) s ms)"
proof (induction ms arbitrary: s)
  case (Cons m ms)
  let ?s = "handle_c2s dsync clk s m"
  have h: "announces s ?s (frames_of [m])" "unhurried clk ?s" using handle_unhurried [of m clk s dsync] Cons.prems by auto
  then have ih: "announces ?s (foldl (handle_c2s dsync clk) ?s ms) (frames_of ms)"
    "unhurried clk (foldl (handle_c2s dsync clk) ?s ms)" using Cons by auto
  have "announces s (foldl (handle_c2s dsync clk) ?s ms) (frames_of (m # ms))"
    unfolding frames_of_Cons [of m ms] by (rule announces_trans [OF h(1) ih(1)])
  then show ?case using ih(2) by simp
qed simp

section \<open>What the item makes of the frames\<close>

fun view_frames :: "frame list \<Rightarrow> frame_view \<Rightarrow> frame_view res" where
  "view_frames [] v = Inr v"
| "view_frames (f # fs) v =
     bindE (onFrameReady (frame_seq f) (sint (frame_x f)) (sint (frame_y f)) (sint (frame_w f)) (sint (frame_h f)) v)
       (view_frames fs)"

lemma on_server_signal_view: "on_server_signal g l = Inr l' \<Longrightarrow> lc_view l' = lc_view l"
  by (cases g) (auto simp: setStatus_def lc_emit_def Let_def split: if_splits option.splits)

lemma deliver_frames:
  "list_all plain_signal gs \<Longrightarrow> filter is_frame gs = map frame_signal fs \<Longrightarrow>
   Option.bind (lc_server l) (lc_objs l) \<noteq> None \<Longrightarrow> fv_server (lc_view l) = Some i \<Longrightarrow>
   view_frames fs (lc_view l) = Inr v' \<Longrightarrow> \<exists>l'. deliver i gs l = Inr l' \<and> lc_view l' = v'"
proof (induction gs arbitrary: fs l)
  case (Cons g gs)
  obtain l1 where l1: "on_server_signal g l = Inr l1" using on_server_signal_ok Cons.prems(3) by blast
  have v1: "lc_view l1 = lc_view l" by (rule on_server_signal_view [OF l1])
  have k1: "lc_objs l1 = lc_objs l" "lc_server l1 = lc_server l"
    using on_server_signal_keeps [OF l1] by (simp_all add: keeps_def)
  show ?case
  proof (cases "is_frame g")
    case True
    then obtain f fs' where f: "fs = f # fs'" "g = frame_signal f" "filter is_frame gs = map frame_signal fs'"
      using Cons.prems(2) by (cases fs) auto
    then obtain v1' where o: "onFrameReady (frame_seq f) (sint (frame_x f)) (sint (frame_y f)) (sint (frame_w f))
        (sint (frame_h f)) (lc_view l) = Inr v1'" "view_frames fs' v1' = Inr v'"
      using Cons.prems(5) by (auto simp: bindE_Inr_iff)
    have "\<exists>l'. deliver i gs (l1\<lparr>lc_view := v1'\<rparr>) = Inr l' \<and> lc_view l' = v'"
      by (rule Cons.IH [of fs'])
        (use Cons.prems f o k1 onFrameReady_keeps(2) [OF o(1)] in auto)
    then show ?thesis using l1 v1 o(1) Cons.prems(4) by (simp add: f(2) frame_signal_def)
  next
    case False
    then have "on_view_signal i g l1 = Inr l1" using Cons.prems(1) by (cases g) auto
    moreover have "\<exists>l'. deliver i gs l1 = Inr l' \<and> lc_view l' = v'"
      by (rule Cons.IH [of fs]) (use Cons.prems False k1 v1 in auto)
    ultimately show ?thesis using l1 by simp
  qed
qed simp

section \<open>Rectangles stay in range\<close>

text \<open>
  An item of at most \<open>2^14\<close> units with the layout of an image, this one or an earlier one: its
  arithmetic on rectangles inside a panel never leaves the range of \<open>int\<close>.
\<close>

definition tame :: "frame_view \<Rightarrow> bool" where
  "tame v \<longleftrightarrow> upright v \<and> 0 < fst (fv_size v) \<and> fst (fv_size v) \<le> 2 ^ 14 \<and> 0 < snd (fv_size v) \<and> snd (fv_size v) \<le> 2 ^ 14 \<and>
     fv_scale v \<le> 2 ^ 14 \<and> \<bar>fst (fv_drawn v)\<bar> \<le> 2 ^ 14 \<and> \<bar>snd (fv_drawn v)\<bar> \<le> 2 ^ 14 \<and>
     \<bar>fst (fv_offset v)\<bar> \<le> 2 ^ 14 \<and> \<bar>snd (fv_offset v)\<bar> \<le> 2 ^ 14"

lemma to_int_ok: "- (2 ^ 30) \<le> n \<Longrightarrow> n \<le> 2 ^ 30 \<Longrightarrow> to_int (of_int n) = Inr n"
proof -
  assume "- (2 ^ 30) \<le> n" "n \<le> 2 ^ 30"
  moreover have "- \<lfloor>- (of_int n :: rat)\<rfloor> = n" by (simp flip: of_int_minus)
  ultimately show ?thesis by (simp add: to_int_def trunc_rat_def INT_MIN_def INT_MAX_def)
qed

definition medium_rect :: "qrect \<Rightarrow> bool" where
  "medium_rect r \<longleftrightarrow> (\<forall>q \<in> {q_x1 r, q_y1 r, q_x2 r, q_y2 r}. - (2 ^ 30) \<le> q \<and> q \<le> 2 ^ 30)"

lemma toAlignedRect_total:
  assumes "\<bar>x\<bar> \<le> 2 ^ 29" "\<bar>x + w\<bar> \<le> 2 ^ 29" "\<bar>y\<bar> \<le> 2 ^ 29" "\<bar>y + h\<bar> \<le> 2 ^ 29"
  shows "\<exists>r. toAlignedRect x y w h = Inr r \<and> medium_rect r"
proof -
  have f: "- (2 ^ 29) \<le> \<lfloor>q\<rfloor> \<and> \<lfloor>q\<rfloor> \<le> 2 ^ 29 \<and> - (2 ^ 29) \<le> \<lceil>q\<rceil> \<and> \<lceil>q\<rceil> \<le> 2 ^ 29" if "\<bar>q\<bar> \<le> 2 ^ 29" for q :: rat
  proof -
    from that have b: "- (2 ^ 29) \<le> q" "q \<le> 2 ^ 29" by (simp_all add: abs_le_iff)
    then show ?thesis by (simp add: le_floor_iff ceiling_le_iff floor_le_iff le_ceiling_iff)
  qed
  note f [OF assms(1)] f [OF assms(2)] f [OF assms(3)] f [OF assms(4)]
  then show ?thesis by (simp add: toAlignedRect_def to_int_ok medium_rect_def)
qed

lemma inflate_total: "medium_rect r \<Longrightarrow> \<exists>r'. inflate r = Inr r'"
  by (simp add: medium_rect_def inflate_def INT_MIN_def INT_MAX_def)

lemma scaled_bound: "0 \<le> n \<Longrightarrow> n \<le> 4096 \<Longrightarrow> 0 \<le> s \<Longrightarrow> s \<le> 2 ^ 14 \<Longrightarrow> 0 \<le> of_int n * s \<and> of_int n * s \<le> (2 ^ 26 :: rat)"
proof -
  assume a: "0 \<le> n" "n \<le> 4096" "0 \<le> s" "s \<le> (2 ^ 14 :: rat)"
  then have "of_int n * s \<le> of_int 4096 * 2 ^ 14" by (intro mult_mono) simp_all
  with a show ?thesis by simp
qed

lemma mapSourceRect_total:
  assumes t: "tame v" and b: "0 \<le> sx" "0 \<le> sw" "sx + sw \<le> 4096" "0 \<le> sy" "0 \<le> sh" "sy + sh \<le> 4096"
  shows "\<exists>r. mapSourceRect v sx sy sw sh = Inr r \<and> medium_rect r"
proof (cases "fv_img v = None \<or> fv_scale v \<le> 0")
  case True
  then show ?thesis by (simp add: mapSourceRect_def medium_rect_def null_rect_def)
next
  case False
  then obtain im where im: "fv_img v = Some im" "\<not> fv_scale v \<le> 0" by auto
  obtain W H where sz: "fv_size v = (W, H)" by (cases "fv_size v")
  obtain dw dh where dr: "fv_drawn v = (dw, dh)" by (cases "fv_drawn v")
  obtain ox oy where of: "fv_offset v = (ox, oy)" by (cases "fv_offset v")
  let ?s = "fv_scale v"
  have s: "0 \<le> ?s" "?s \<le> 2 ^ 14" using False t by (simp_all add: tame_def)
  define X DX Y DY where "X = of_int sx * ?s" and "DX = of_int sw * ?s" and "Y = of_int sy * ?s" and "DY = of_int sh * ?s"
  have p: "0 \<le> X \<and> X \<le> 2 ^ 26" "0 \<le> DX \<and> DX \<le> 2 ^ 26" "0 \<le> Y \<and> Y \<le> 2 ^ 26" "0 \<le> DY \<and> DY \<le> 2 ^ 26"
    unfolding X_def DX_def Y_def DY_def by (intro scaled_bound; use b s in simp)+
  have turned: "fv_img v = Some im" "0 < ?s" using im by simp_all
  have sums: "0 \<le> sx + sw" "sx + sw \<le> INT_MAX" "0 \<le> sy + sh" "sy + sh \<le> INT_MAX" using b by (simp_all add: INT_MAX_def)
  note at = mapSourceRect_turned [OF turned sz dr of sums X_def DX_def Y_def DY_def]
  have d: "\<bar>W\<bar> \<le> 2 ^ 14" "\<bar>H\<bar> \<le> 2 ^ 14" "\<bar>dw\<bar> \<le> 2 ^ 14" "\<bar>dh\<bar> \<le> 2 ^ 14" "\<bar>ox\<bar> \<le> 2 ^ 14" "\<bar>oy\<bar> \<le> 2 ^ 14"
    using t by (simp_all add: tame_def sz dr of)
  have al: "\<exists>r. toAlignedRect u t p q = Inr r \<and> medium_rect r"
    if "\<bar>u\<bar> \<le> 2 ^ 28" "\<bar>t\<bar> \<le> 2 ^ 28" "0 \<le> p" "p \<le> 2 ^ 26" "0 \<le> q" "q \<le> 2 ^ 26" for u t p q
    by (rule toAlignedRect_total) (use that in \<open>simp_all add: abs_le_iff\<close>)
  have "fv_rotation v \<in> {0, 90, 180, 270}" using t by (simp add: tame_def upright_def)
  then consider "fv_rotation v = 0" | "fv_rotation v = 90" | "fv_rotation v = 180" | "fv_rotation v = 270" by auto
  then show ?thesis
    by cases (simp add: at, rule al; use d p in \<open>simp add: abs_le_iff field_simps\<close>)+
qed

section \<open>Frames ask for what they name\<close>

text \<open>
  An update request asks for a pixel of the image when it is a request for everything, or when all
  corners of the square on which the operation draws the pixel lie in its rectangle.
\<close>

definition pixel_within :: "paint_op \<Rightarrow> qrect \<Rightarrow> int \<times> int \<Rightarrow> bool" where
  "pixel_within op r = (\<lambda>(x, y).
     list_all (\<lambda>(a, b). case op_place op (of_int a, of_int b) of None \<Rightarrow> False | Some q \<Rightarrow> covers r q)
       [(x, y), (x + 1, y), (x, y + 1), (x + 1, y + 1)])"

fun asks :: "paint_op \<Rightarrow> int \<times> int \<Rightarrow> update_request \<Rightarrow> bool" where
  "asks op p Update_all = True"
| "asks op p (Update_rect r) = pixel_within op r p"

lemma invalidates_pixel:
  assumes "invalidates v im sx sy sw sh r" "in_rect sx sy sw sh p"
  shows "pixel_within (draw_op v im) r p"
proof -
  obtain x y where p: "p = (x, y)" by (cases p)
  have "case op_place (draw_op v im) (of_int a, of_int b) of None \<Rightarrow> False | Some q \<Rightarrow> covers r q"
    if "a = x \<or> a = x + 1" "b = y \<or> b = y + 1" for a b
  proof -
    have "of_int sx \<le> (of_int a :: rat) \<and> of_int a \<le> (of_int (sx + sw) :: rat) \<and>
        of_int sy \<le> (of_int b :: rat) \<and> of_int b \<le> (of_int (sy + sh) :: rat)"
      using that assms(2) unfolding p by (auto simp: in_rect_def simp del: of_int_add)
    then show ?thesis using assms(1) unfolding invalidates_def by fastforce
  qed
  then show ?thesis by (simp add: pixel_within_def p del: of_int_add)
qed

text \<open>The layout does not look at the bookkeeping of updates.\<close>

lemma item_cong:
  assumes "fv_img v' = fv_img v" "fv_size v' = fv_size v" "fv_rotation v' = fv_rotation v"
    "fv_scale v' = fv_scale v" "fv_drawn v' = fv_drawn v" "fv_offset v' = fv_offset v"
  shows "layout_ok v' = layout_ok v" "tame v' = tame v" "draw_op v' im = draw_op v im"
  using assms by (simp_all only: layout_ok_def tame_def upright_def sideways_def draw_op_def)

lemma item_updates [simp]:
  "layout_ok (v\<lparr>fv_updates := a\<rparr>) = layout_ok v" "layout_ok (v\<lparr>fv_lastSeq := b\<rparr>) = layout_ok v"
  "layout_ok (v\<lparr>fv_pending_paint := c\<rparr>) = layout_ok v" "tame (v\<lparr>fv_updates := a\<rparr>) = tame v"
  "tame (v\<lparr>fv_lastSeq := b\<rparr>) = tame v" "tame (v\<lparr>fv_pending_paint := c\<rparr>) = tame v"
  "draw_op (v\<lparr>fv_updates := a\<rparr>) im = draw_op v im" "draw_op (v\<lparr>fv_lastSeq := b\<rparr>) im = draw_op v im"
  "draw_op (v\<lparr>fv_pending_paint := c\<rparr>) im = draw_op v im"
  by (rule item_cong; simp)+

text \<open>A frame inside the image.\<close>

definition frame_on :: "frame_image \<Rightarrow> frame \<Rightarrow> bool" where
  "frame_on im f \<longleftrightarrow> 0 \<le> sint (frame_x f) \<and> 0 < sint (frame_w f) \<and> sint (frame_x f) + sint (frame_w f) \<le> fi_w im \<and>
     0 \<le> sint (frame_y f) \<and> 0 < sint (frame_h f) \<and> sint (frame_y f) + sint (frame_h f) \<le> fi_h im"

definition image_small :: "frame_image \<Rightarrow> bool" where
  "image_small im \<longleftrightarrow> 0 < fi_w im \<and> fi_w im \<le> 4096 \<and> 0 < fi_h im \<and> fi_h im \<le> 4096"

lemma onFrameReady_ok:
  assumes t: "tame v" and im: "fv_img v = Some im" "image_small im" "frame_on im f"
  shows "\<exists>u. onFrameReady (frame_seq f) (sint (frame_x f)) (sint (frame_y f)) (sint (frame_w f)) (sint (frame_h f)) v =
      Inr (request_update u (v\<lparr>fv_lastSeq := frame_seq f, fv_pending_paint := True\<rparr>)) \<and>
    (layout_ok v \<longrightarrow> (\<forall>p. in_frame f p \<longrightarrow> asks (draw_op v im) p u)) \<and> (fv_lastSeq v = 0 \<longrightarrow> u = Update_all)"
proof (cases "fv_lastSeq v = 0")
  case True
  then show ?thesis by (simp add: onFrameReady_def Let_def)
next
  case False
  let ?sx = "sint (frame_x f)" and ?sy = "sint (frame_y f)" and ?sw = "sint (frame_w f)" and ?sh = "sint (frame_h f)"
  let ?v = "v\<lparr>fv_lastSeq := frame_seq f, fv_pending_paint := True\<rparr>"
  show ?thesis
  proof (cases "layout_ok v")
    case True
    obtain W H where sz: "fv_size v = (W, H)" by (cases "fv_size v")
    have "\<exists>r. onFrameReady (frame_seq f) ?sx ?sy ?sw ?sh v = Inr (request_update (Update_rect r) ?v) \<and>
        invalidates v im ?sx ?sy ?sw ?sh r"
      by (rule frame_ready_covers [OF True im(1) _ _ _ sz])
        (use t im False in \<open>auto simp: tame_def sz frame_on_def image_small_def INT_MAX_def\<close>)
    then show ?thesis using invalidates_pixel False by (auto simp: in_frame_def)
  next
    case nl: False
    have "tame ?v" using t by (simp add: tame_def upright_def)
    then obtain r where r: "mapSourceRect ?v ?sx ?sy ?sw ?sh = Inr r" "medium_rect r"
      using mapSourceRect_total [of ?v ?sx ?sw ?sy ?sh] im by (auto simp: frame_on_def image_small_def)
    obtain r' where "inflate r = Inr r'" using inflate_total [OF r(2)] by blast
    then show ?thesis using r(1) nl False im(3)
      by (auto simp: onFrameReady_def Let_def frame_on_def)
  qed
qed

lemma view_frames_ok:
  "tame v \<Longrightarrow> fv_img v = Some im \<Longrightarrow> image_small im \<Longrightarrow> list_all (frame_on im) fs \<Longrightarrow>
   \<exists>q b us. view_frames fs v = Inr (v\<lparr>fv_lastSeq := q, fv_pending_paint := b, fv_updates := fv_updates v @ us\<rparr>) \<and>
     (layout_ok v \<longrightarrow> (\<forall>p. \<forall>f \<in> set fs. in_frame f p \<longrightarrow> list_ex (asks (draw_op v im) p) us)) \<and>
     (fv_lastSeq v = 0 \<and> fs \<noteq> [] \<longrightarrow> Update_all \<in> set us) \<and> (fs = [] \<longrightarrow> q = fv_lastSeq v)"
proof (induction fs arbitrary: v)
  case Nil
  have "v = v\<lparr>fv_lastSeq := fv_lastSeq v, fv_pending_paint := fv_pending_paint v, fv_updates := fv_updates v @ []\<rparr>" by simp
  then show ?case
    by (intro exI [of _ "fv_lastSeq v"] exI [of _ "fv_pending_paint v"] exI [of _ "[]"]) simp
next
  case (Cons f fs)
  let ?v = "\<lambda>u. request_update u (v\<lparr>fv_lastSeq := frame_seq f, fv_pending_paint := True\<rparr>)"
  obtain u where u: "onFrameReady (frame_seq f) (sint (frame_x f)) (sint (frame_y f)) (sint (frame_w f)) (sint (frame_h f)) v = Inr (?v u)"
    "layout_ok v \<Longrightarrow> \<forall>p. in_frame f p \<longrightarrow> asks (draw_op v im) p u" "fv_lastSeq v = 0 \<Longrightarrow> u = Update_all"
    using onFrameReady_ok [of v im f] Cons.prems by auto
  have same: "tame (?v u) = tame v" "layout_ok (?v u) = layout_ok v" "draw_op (?v u) im = draw_op v im" "fv_img (?v u) = fv_img v"
    by (simp_all add: request_update_def)
  from Cons.IH [of "?v u"] obtain q b us where ih:
    "view_frames fs (?v u) = Inr ((?v u)\<lparr>fv_lastSeq := q, fv_pending_paint := b, fv_updates := fv_updates (?v u) @ us\<rparr>)"
    "layout_ok v \<longrightarrow> (\<forall>p. \<forall>f \<in> set fs. in_frame f p \<longrightarrow> list_ex (asks (draw_op v im) p) us)"
    using Cons.prems same by auto
  have "view_frames (f # fs) v = Inr (v\<lparr>fv_lastSeq := q, fv_pending_paint := b, fv_updates := fv_updates v @ (u # us)\<rparr>)"
    using u(1) ih(1) by (simp add: request_update_def)
  then show ?case using ih(2) u(2,3)
    by (intro exI [of _ q] exI [of _ b] exI [of _ "u # us"]) auto
qed

end
