(* ===== verification/Glass.thy ===== *)
theory Glass
  imports Delivery AppScreen
begin

text \<open>
  From the desktop to the glass: vnsee's screen and client, the socket, the middleware's server,
  launcher and item as one machine (\<open>src/src/app/screen.cpp\<close>, \<open>src/src/rmioc/vncast_client.cpp\<close>,
  \<open>src/middleware/extension/src/qtfb/server.cpp\<close>, \<open>src/middleware/extension/src/launcher.cpp\<close>,
  \<open>src/middleware/extension/src/qtfb/frame_view.cpp\<close>). The two processes share the memory of the
  panel, so the item draws what the client's mapping holds at that moment. The invariant says that
  no pixel of the item is stale without something on its way that will redraw it; it follows that
  the item shows the desktop as soon as the last repaint has been delivered and painted.
\<close>

section \<open>From the desktop to the shared memory\<close>

text \<open>Wherever no repaint is pending, the shared memory holds the colour of the source pixel shown there.\<close>

definition desk_synced :: "screen \<Rightarrow> vconn \<Rightarrow> bool" where
  "desk_synced s c \<longleftrightarrow> (\<forall>col row. on_panel s col row \<and> in_source s (shown_at s col row) \<longrightarrow>
     (has_update (update_info s) \<and> in_pending s (shown_at s col row)) \<or>
     shm_px c col row = conv_pixel c (src_px s (shown_at s col row)))"

definition framed :: "screen \<Rightarrow> vconn \<Rightarrow> vconn \<Rightarrow> c2s list \<Rightarrow> bool" where
  "framed s c c' ms \<longleftrightarrow> (\<forall>col row. on_panel s col row \<longrightarrow>
     shm_px c' col row = shm_px c col row \<or> (\<exists>f \<in> set (frames_of ms). in_frame f (col, row)))"

fun pointer_small :: "screen_event \<Rightarrow> bool" where
  "pointer_small (Ev_pointer x y) \<longleftrightarrow> small x \<and> small y"
| "pointer_small e \<longleftrightarrow> True"

lemma repaint_desk:
  assumes ok: "screen_ok s" and dev: "sc_device s = Vncast c" and rp: "repaint cm now s = Inr s'"
  shows "\<exists>c' ms. sc_device s' = Vncast c' \<and> writes c c' ms \<and> framed s c c' ms \<and>
    (desk_synced s c \<longrightarrow> (\<forall>col row. on_panel s' col row \<and> in_source s' (shown_at s' col row) \<longrightarrow>
       shm_px c' col row = conv_pixel c' (src_px s' (shown_at s' col row))))"
proof -
  obtain c' ms where c': "sc_device s' = Vncast c'" "writes c c' ms"
    "\<forall>col row. on_panel s col row \<longrightarrow>
     (if in_pending s (shown_at s col row) \<and> in_source s (shown_at s col row)
      then shm_px c' col row = conv_pixel c (src_px s (shown_at s col row)) \<and>
        (\<exists>f \<in> set (frames_of ms). in_frame f (col, row))
      else shm_px c' col row = shm_px c col row)"
    using repaint_vncast_writes [OF assms] by blast
  have v: "same_view s s'" using repaint_spec [OF ok, where cm = cm and now = now] rp by simp
  have cv: "conv_pixel c' = conv_pixel c" using c'(2) conv_pixel_panel by (simp add: writes_def)
  have "framed s c c' ms" using c'(3) unfolding framed_def by metis
  moreover have "shm_px c' col row = conv_pixel c' (src_px s' (shown_at s' col row))"
    if "desk_synced s c" "on_panel s' col row" "in_source s' (shown_at s' col row)" for col row
    using that c'(3) unfolding same_view_px [OF v] cv desk_synced_def by metis
  ultimately show ?thesis using c' by blast
qed

text \<open>What one step of the screen does on the desktop side.\<close>

definition desk_step :: "screen \<Rightarrow> vconn \<Rightarrow> screen \<Rightarrow> bool" where
  "desk_step s c s' \<longleftrightarrow> (\<exists>c' ms. sc_device s' = Vncast c' \<and> writes c c' ms \<and> framed s c c' ms \<and>
     on_panel s' = on_panel s \<and> (desk_synced s c \<longrightarrow> desk_synced s' c'))"

lemma repaint_desk_step:
  assumes ok: "screen_ok s" and dev: "sc_device s = Vncast c" and rp: "repaint cm now s = Inr s'"
  shows "desk_step s c s'"
proof -
  have "same_view s s'" using repaint_spec [OF ok, where cm = cm and now = now] rp by simp
  then have "on_panel s' = on_panel s" by (rule same_view_px)
  with repaint_desk [OF ok dev rp] show ?thesis unfolding desk_step_def desk_synced_def by blast
qed

lemma painted_desk_step:
  assumes ok: "screen_ok s" and dev: "sc_device s = Vncast c"
    and e: "smooth_event s (Ev_painted b x y w h)" and st: "screen_step cm (Ev_painted b x y w h) s = Inr s'"
  shows "desk_step s c s'"
proof -
  let ?t = "s\<lparr>src_buffer := b\<rparr>"
  have okt: "screen_ok ?t" using ok e by (simp add: screen_ok_def)
  have r: "rect_ok x y w h" and nb: "\<not> bad_merge (update_info ?t) x y w h"
    and out: "\<And>p. in_source s p \<Longrightarrow> \<not> in_rect x y w h p \<Longrightarrow> src_px ?t p = src_px s p"
    using e by auto
  have s': "s' = ?t\<lparr>update_info := merged (update_info s) x y w h\<rparr>"
    using st nb commit_updates_value [OF okt r, of cm] by simp
  have ru: "rect_ok (ui_x (update_info s)) (ui_y (update_info s)) (ui_w (update_info s)) (ui_h (update_info s))"
    using ok by (simp add: screen_ok_def)
  have pend: "has_update (update_info s') \<and> in_pending s' p"
    if "in_rect x y w h p \<or> (has_update (update_info s) \<and> in_pending s p)" for p
    using merged_covers [OF ru r, of p] that by (simp add: s' in_pending_def Let_def)
  have v: "shown_at s' = shown_at s" "on_panel s' = on_panel s" "in_source s' = in_source s" "src_px s' = src_px ?t"
    "sc_device s' = Vncast c"
    by (auto simp: s' shown_at_def on_panel_def in_source_def src_px_def src_geom_def fun_eq_iff dev)
  have "desk_synced s' c" if "desk_synced s c"
    unfolding desk_synced_def v using that pend out unfolding desk_synced_def by metis
  then show ?thesis using v(5) unfolding desk_step_def by (intro exI [of _ c] exI [of _ "[]"]) (simp add: framed_def v(2))
qed

lemma pointer_desk_step:
  assumes dev: "sc_device s = Vncast c" and tx: "whole_sends (m_tx c)" and e: "small x" "small y"
  shows "desk_step s c (handle_cursor_pos x y s)" (is "desk_step s c ?s")
proof -
  let ?c = "send_cursor_pos x y kCursorSize kCursorSize True c"
  have s': "?s = s\<lparr>sc_device := Vncast ?c\<rparr>" by (simp add: handle_cursor_pos_def dev)
  obtain ms where w: "writes c ?c ms" 
    using send_cursor_pos_writes [OF tx, of x y kCursorSize kCursorSize True] e by auto
  have shm: "m_shm ?c = m_shm c" by (auto simp: send_cursor_pos_def try_send_def split: list.splits tx_ret.splits)
  have g: "same_panel c ?c" using w by (simp add: writes_def)
  then have px: "shm_px ?c = shm_px c" using shm by (simp add: shm_px_def shm_geom_def same_panel_def fun_eq_iff)
  have v: "shown_at ?s = shown_at s" "on_panel ?s = on_panel s" "in_source ?s = in_source s" "src_px ?s = src_px s"
    "in_pending ?s = in_pending s" "update_info ?s = update_info s"
    using g by (auto simp: s' shown_at_def on_panel_def in_source_def src_px_def src_geom_def in_pending_def fun_eq_iff dev
        same_panel_def)
  have "desk_synced ?s ?c = desk_synced s c"
    by (simp add: desk_synced_def v px conv_pixel_panel [OF g])
  then show ?thesis using w v(2) px unfolding desk_step_def by (intro exI [of _ ?c] exI [of _ ms]) (simp add: s' framed_def)
qed

lemma orientation_desk_step:
  assumes dev: "sc_device s = Vncast c"
  shows "desk_step s c (set_effective_orientation orient s)" (is "desk_step s c ?s")
proof -
  have d: "sc_device ?s = Vncast c" "on_panel ?s = on_panel s"
    using dev by (auto simp: set_effective_orientation_def Let_def on_panel_def fun_eq_iff)
  have "desk_synced ?s c" if ds: "desk_synced s c"
  proof (cases "orient = Auto \<or> effective s = orient")
    case True
    then have "?s = s" by (auto simp: set_effective_orientation_def)
    with ds show ?thesis by simp
  next
    case False
    then show ?thesis
      by (auto simp: set_effective_orientation_def desk_synced_def in_pending_def in_source_def Let_def
          in_rect_def split: prod.splits)
  qed
  then show ?thesis using d unfolding desk_step_def
    by (intro exI [of _ c] exI [of _ "[]"]) (simp add: framed_def)
qed

lemma mode_desk_step:
  assumes dev: "sc_device s = Vncast c"
  shows "desk_step s c (set_repaint_mode m s)" (is "desk_step s c ?s")
proof -
  have v: "shown_at ?s = shown_at s" "on_panel ?s = on_panel s" "in_source ?s = in_source s" "src_px ?s = src_px s"
    "in_pending ?s = in_pending s" "update_info ?s = update_info s" "sc_device ?s = sc_device s"
    by (auto simp: set_repaint_mode_def shown_at_def on_panel_def in_source_def src_px_def src_geom_def in_pending_def fun_eq_iff)
  then show ?thesis using dev unfolding desk_step_def
    by (intro exI [of _ c] exI [of _ "[]"]) (simp add: framed_def desk_synced_def)
qed

lemma screen_step_desk:
  assumes ok: "screen_ok s" and dev: "sc_device s = Vncast c" and tx: "whole_sends (m_tx c)"
    and e: "smooth_event s e" "pointer_small e" and st: "screen_step cm e s = Inr s'"
  shows "desk_step s c s'"
proof (cases e)
  case (Ev_painted b x y w h)
  then show ?thesis using painted_desk_step [OF ok dev] e(1) st by metis
next
  case (Ev_tick now)
  then obtain st' where "event_loop cm now s = Inr (s', st')" using st by (auto simp: res_simps)
  from event_loop_cases [OF this] show ?thesis
  proof (elim disjE conjE)
    assume "s' = s"
    then show ?thesis using dev unfolding desk_step_def
      by (intro exI [of _ c] exI [of _ "[]"]) (simp add: framed_def)
  qed (rule repaint_desk_step [OF ok dev])
next
  case (Ev_release now)
  then show ?thesis using st repaint_desk_step [OF ok dev] by simp
qed (use e st pointer_desk_step [OF dev tx] orientation_desk_step [OF dev] mode_desk_step [OF dev] in auto)

section \<open>Both processes and the glass\<close>

text \<open>
  vnsee's screen with its client, the middleware's desktop side with its server and item, the bytes
  of the client that have been delivered, and what the item shows: for every pixel of the image, the
  bytes it was last drawn from. \<open>gl_seen\<close> counts the update requests that have been painted, and
  \<open>gl_all\<close> says that Qt will redraw the whole item, which it does after a change of size. A paint
  redraws at least what has been asked for; \<open>extra\<close> is what Qt redraws besides.
\<close>

record glass =
  gl_screen :: screen
  gl_cast :: launcher
  gl_pos :: nat
  gl_seen :: nat
  gl_all :: bool
  gl_tx :: "int \<times> int \<Rightarrow> bytes option"

datatype glass_event =
    Gl_screen screen_event
  | Gl_deliver nat
  | Gl_paint "int \<times> int \<Rightarrow> bool"
  | Gl_rotate int
  | Gl_resize "rat \<times> rat"

fun written :: "device \<Rightarrow> bytes" where
  "written (Vncast c) = m_out c"
| "written (Appload a) = []"

fun shared_px :: "device \<Rightarrow> int \<times> int \<Rightarrow> bytes" where
  "shared_px (Vncast c) (x, y) = shm_px c x y"
| "shared_px (Appload a) (x, y) = []"

definition in_flight :: "glass \<Rightarrow> bytes" where
  "in_flight g = drop (gl_pos g) (written (sc_device (gl_screen g)))"

definition open_requests :: "glass \<Rightarrow> update_request list" where
  "open_requests g = drop (gl_seen g) (fv_updates (lc_view (gl_cast g)))"

definition image_op :: "paint_op list \<Rightarrow> paint_op option" where
  "image_op ops = List.find (\<lambda>op. op_place op (0, 0) \<noteq> None) ops"

definition redrawn :: "(int \<times> int \<Rightarrow> bool) \<Rightarrow> glass \<Rightarrow> paint_op list \<Rightarrow> int \<times> int \<Rightarrow> bool" where
  "redrawn extra g ops p \<longleftrightarrow> gl_all g \<or> extra p \<or>
     (case image_op ops of
        None \<Rightarrow> list_ex (\<lambda>u. u = Update_all) (open_requests g)
      | Some op \<Rightarrow> list_ex (asks op p) (open_requests g))"

fun glass_step ::
  "(al_call list \<Rightarrow> refresh_mode) \<Rightarrow> bool \<Rightarrow> (nat \<Rightarrow> int) \<Rightarrow> glass \<Rightarrow> glass_event \<Rightarrow> glass res" where
  "glass_step cm dsync clk g (Gl_screen e) =
     bindE (screen_step cm e (gl_screen g)) (\<lambda>s. Inr (g\<lparr>gl_screen := s\<rparr>))"
| "glass_step cm dsync clk g (Gl_deliver n) =
     (case lc_server (gl_cast g) of
        None \<Rightarrow> Inr g
      | Some i \<Rightarrow>
          let chunk = take n (in_flight g) in
          bindE (cast_step dsync clk (gl_cast g) (Ca_data i chunk)) (\<lambda>l.
            Inr (g\<lparr>gl_cast := l, gl_pos := gl_pos g + length chunk\<rparr>)))"
| "glass_step cm dsync clk g (Gl_paint extra) =
     (let ops = snd (fv_paint (lc_objs (gl_cast g)) (lc_view (gl_cast g)));
          px = shared_px (sc_device (gl_screen g)) in
      bindE (cast_step dsync clk (gl_cast g) Ca_paint) (\<lambda>l.
        Inr (g\<lparr>gl_cast := l, gl_seen := length (fv_updates (lc_view l)), gl_all := False,
               gl_tx := (\<lambda>p. if redrawn extra g ops p then map_option (\<lambda>_. px p) (image_op ops) else gl_tx g p)\<rparr>)))"
| "glass_step cm dsync clk g (Gl_rotate deg) =
     bindE (cast_step dsync clk (gl_cast g) (Ca_rotate deg)) (\<lambda>l. Inr (g\<lparr>gl_cast := l\<rparr>))"
| "glass_step cm dsync clk g (Gl_resize sz) =
     bindE (cast_step dsync clk (gl_cast g) (Ca_resize sz)) (\<lambda>l. Inr (g\<lparr>gl_cast := l, gl_all := True\<rparr>))"

fun glass_run ::
  "(al_call list \<Rightarrow> refresh_mode) \<Rightarrow> bool \<Rightarrow> (nat \<Rightarrow> int) \<Rightarrow> glass \<Rightarrow> glass_event list \<Rightarrow> glass res" where
  "glass_run cm dsync clk g [] = Inr g"
| "glass_run cm dsync clk g (e # es) = bindE (glass_step cm dsync clk g e) (\<lambda>g'. glass_run cm dsync clk g' es)"

text \<open>
  The library reports what it paints and no rectangle is flushed, the screen turns by quarters, and
  the item is neither empty nor larger than \<open>2^14\<close> units.
\<close>

fun glass_side :: "glass_event \<Rightarrow> bool" where
  "glass_side (Gl_screen e) \<longleftrightarrow> False"
| "glass_side (Gl_rotate deg) \<longleftrightarrow> 90 dvd deg"
| "glass_side (Gl_resize sz) \<longleftrightarrow> 0 < fst sz \<and> fst sz \<le> 2 ^ 14 \<and> 0 < snd sz \<and> snd sz \<le> 2 ^ 14"
| "glass_side e \<longleftrightarrow> True"

fun glass_allowed :: "glass \<Rightarrow> glass_event \<Rightarrow> bool" where
  "glass_allowed g (Gl_screen e) \<longleftrightarrow> smooth_event (gl_screen g) e \<and> pointer_small e"
| "glass_allowed g e \<longleftrightarrow> glass_side e"

fun glass_legal ::
  "(al_call list \<Rightarrow> refresh_mode) \<Rightarrow> bool \<Rightarrow> (nat \<Rightarrow> int) \<Rightarrow> glass \<Rightarrow> glass_event list \<Rightarrow> bool" where
  "glass_legal cm dsync clk g [] \<longleftrightarrow> True"
| "glass_legal cm dsync clk g (e # es) \<longleftrightarrow> glass_allowed g e \<and>
     (case glass_step cm dsync clk g e of Inl x \<Rightarrow> True | Inr g' \<Rightarrow> glass_legal cm dsync clk g' es)"

section \<open>The invariant\<close>

text \<open>The picture is that of the client's panel.\<close>

definition panel_image :: "vconn \<Rightarrow> frame_image \<Rightarrow> bool" where
  "panel_image c im \<longleftrightarrow> image_small im \<and> fi_w im = uint (m_w c) \<and> fi_h im = uint (m_h c) \<and>
     fi_stride im = uint (m_stride c) \<and> bytes_of_format (fi_format im) = int (bytes_per_pixel (m_format c))"

text \<open>The bytes on the way are the messages \<open>ms\<close>, all of them frames and cursor positions.\<close>

definition carries :: "glass \<Rightarrow> server \<Rightarrow> frame_image \<Rightarrow> c2s list \<Rightarrow> bool" where
  "carries g s im ms \<longleftrightarrow> gl_pos g \<le> length (written (sc_device (gl_screen g))) \<and>
     unread s @ in_flight g = enc_all ms \<and> partial_front (unread s) ms \<and> list_all c2s_wf ms \<and>
     list_all frame_or_cursor ms \<and> list_all (frame_on im) (frames_of ms)"

definition asked_for :: "glass \<Rightarrow> frame_image \<Rightarrow> int \<times> int \<Rightarrow> bool" where
  "asked_for g im p \<longleftrightarrow> gl_all g \<or> list_ex (asks (draw_op (lc_view (gl_cast g)) im) p) (open_requests g)"

definition whole_asked :: "glass \<Rightarrow> bool" where
  "whole_asked g \<longleftrightarrow> gl_all g \<or> Update_all \<in> set (open_requests g)"

text \<open>
  Once a frame has been announced: a pixel of the image shows what the shared memory holds, or its
  update is asked for, or a frame on the way names it.
\<close>

definition fresh :: "glass \<Rightarrow> frame_image \<Rightarrow> c2s list \<Rightarrow> bool" where
  "fresh g im ms \<longleftrightarrow> (\<forall>p. in_rect 0 0 (fi_w im) (fi_h im) p \<longrightarrow>
     gl_tx g p = Some (shared_px (sc_device (gl_screen g)) p) \<or> asked_for g im p \<or>
     (\<exists>f \<in> set (frames_of ms). in_frame f p))"

definition linked :: "(nat \<Rightarrow> int) \<Rightarrow> glass \<Rightarrow> vconn \<Rightarrow> nat \<Rightarrow> server \<Rightarrow> frame_image \<Rightarrow> bool" where
  "linked clk g c i s im \<longleftrightarrow>
     sc_device (gl_screen g) = Vncast c \<and> screen_ok (gl_screen g) \<and> whole_sends (m_tx c) \<and>
     cast_inv (gl_cast g) \<and> lc_server (gl_cast g) = Some i \<and> lc_objs (gl_cast g) i = Some s \<and>
     m_socket s \<noteq> None \<and> unhurried clk s \<and> fv_img (lc_view (gl_cast g)) = Some im \<and> panel_image c im \<and>
     tame (lc_view (gl_cast g)) \<and> gl_seen g \<le> length (fv_updates (lc_view (gl_cast g)))"

definition shows_frames :: "glass \<Rightarrow> frame_image \<Rightarrow> c2s list \<Rightarrow> bool" where
  "shows_frames g im ms \<longleftrightarrow> fv_lastSeq (lc_view (gl_cast g)) = 0 \<or>
     ((fv_layoutValid (lc_view (gl_cast g)) \<or> whole_asked g) \<and> fresh g im ms)"

definition glass_inv :: "(nat \<Rightarrow> int) \<Rightarrow> glass \<Rightarrow> bool" where
  "glass_inv clk g \<longleftrightarrow>
     (\<exists>c i s im ms. linked clk g c i s im \<and> carries g s im ms \<and> shows_frames g im ms)"

lemma glass_invI: "linked clk g c i s im \<Longrightarrow> carries g s im ms \<Longrightarrow> shows_frames g im ms \<Longrightarrow> glass_inv clk g"
  unfolding glass_inv_def by blast

lemma frames_on_image:
  "panel_image c im \<Longrightarrow> list_all (frame_inside c) fs \<Longrightarrow> list_all (frame_on im) fs"
  by (induction fs) (auto simp: panel_image_def frame_inside_def frame_on_def)

lemma linked_panel: "linked clk g c i s im \<Longrightarrow> panel_ok c"
  by (auto simp: linked_def screen_ok_def)

lemma image_on_panel:
  assumes "linked clk g c i s im"
  shows "on_panel (gl_screen g) x y \<longleftrightarrow> in_rect 0 0 (fi_w im) (fi_h im) (x, y)"
  using panel_ok_size [OF linked_panel [OF assms]] assms
  by (auto simp: linked_def on_panel_def panel_image_def in_rect_def)

lemma whole_asked_all: "whole_asked g \<Longrightarrow> asked_for g im p"
  by (auto simp: whole_asked_def asked_for_def list_ex_iff intro!: bexI [of _ Update_all])

section \<open>Every event keeps it\<close>

lemma glass_screen_inv:
  assumes g: "linked clk g c i s im" "carries g s im ms" "shows_frames g im ms"
    and al: "smooth_event (gl_screen g) e" "pointer_small e" and st: "screen_step cm e (gl_screen g) = Inr t"
  shows "\<exists>c' new. linked clk (g\<lparr>gl_screen := t\<rparr>) c' i s im \<and> carries (g\<lparr>gl_screen := t\<rparr>) s im (ms @ new) \<and>
    shows_frames (g\<lparr>gl_screen := t\<rparr>) im (ms @ new) \<and>
    (desk_synced (gl_screen g) c \<longrightarrow> desk_synced t c')"
proof -
  let ?g = "g\<lparr>gl_screen := t\<rparr>"
  have ok: "screen_ok (gl_screen g)" "sc_device (gl_screen g) = Vncast c" "whole_sends (m_tx c)" "panel_image c im"
    using g(1) by (simp_all add: linked_def)
  obtain c' new where c': "sc_device t = Vncast c'" "writes c c' new" "framed (gl_screen g) c c' new"
    "desk_synced (gl_screen g) c \<longrightarrow> desk_synced t c'"
    using screen_step_desk [OF ok(1-3) al st] unfolding desk_step_def by blast
  have okt: "screen_ok t" using screen_step_ok [OF ok(1) smooth_event_ok [OF al(1)], of cm] st by simp
  have pi: "panel_image c' im" using c'(2) ok(4) by (simp add: writes_def same_panel_def panel_image_def)
  have conn: "linked clk ?g c' i s im"
    using g(1) c'(1,2) okt pi by (auto simp: linked_def writes_def whole_sends_def)
  have wr: "written (sc_device t) = written (sc_device (gl_screen g)) @ enc_all new"
    using c'(1,2) ok(2) by (simp add: writes_def)
  have fl: "in_flight ?g = in_flight g @ enc_all new"
    using g(2) wr by (simp add: in_flight_def carries_def)
  have car: "carries ?g s im (ms @ new)"
    using g(2) fl wr c'(2) frames_on_image [OF ok(4)]
    by (auto simp: carries_def writes_def partial_front_append)
  have op: "open_requests ?g = open_requests g" by (simp add: open_requests_def)
  have "fresh ?g im (ms @ new)" if f: "fresh g im ms"
    unfolding fresh_def
  proof (intro allI impI)
    fix p :: "int \<times> int" assume p: "in_rect 0 0 (fi_w im) (fi_h im) p"
    obtain x y where xy: "p = (x, y)" by (cases p)
    have "on_panel (gl_screen g) x y" using p xy image_on_panel [OF g(1)] by simp
    then have "shm_px c' x y = shm_px c x y \<or> (\<exists>f \<in> set (frames_of new). in_frame f p)"
      using c'(3) unfolding framed_def xy by blast
    moreover have "gl_tx g p = Some (shm_px c x y) \<or> asked_for g im p \<or> (\<exists>f \<in> set (frames_of ms). in_frame f p)"
      using f p ok(2) unfolding fresh_def xy by simp
    ultimately show "gl_tx ?g p = Some (shared_px (sc_device (gl_screen ?g)) p) \<or> asked_for ?g im p \<or>
        (\<exists>f \<in> set (frames_of (ms @ new)). in_frame f p)"
      using c'(1) by (auto simp: xy asked_for_def op)
  qed
  then have "shows_frames ?g im (ms @ new)" using g(3) by (auto simp: shows_frames_def whole_asked_def op)
  then show ?thesis using conn car c'(4) by blast
qed

text \<open>The view after the frames \<open>fs\<close>: only its sequence number and its requests have changed.\<close>

definition took_frames :: "frame_image \<Rightarrow> frame list \<Rightarrow> frame_view \<Rightarrow> frame_view \<Rightarrow> update_request list \<Rightarrow> bool" where
  "took_frames im fs v v' us \<longleftrightarrow>
     (\<exists>q b. v' = v\<lparr>fv_lastSeq := q, fv_pending_paint := b, fv_updates := fv_updates v @ us\<rparr> \<and>
        (layout_ok v \<longrightarrow> (\<forall>p. \<forall>f \<in> set fs. in_frame f p \<longrightarrow> list_ex (asks (draw_op v im) p) us)) \<and>
        (fv_lastSeq v = 0 \<and> fs \<noteq> [] \<longrightarrow> Update_all \<in> set us) \<and> (fs = [] \<longrightarrow> q = fv_lastSeq v))"

lemma took_framesD:
  assumes "took_frames im fs v v' us"
  shows "fv_img v' = fv_img v" "fv_updates v' = fv_updates v @ us" "fv_layoutValid v' = fv_layoutValid v"
    "tame v' = tame v" "draw_op v' im = draw_op v im" "fs = [] \<Longrightarrow> fv_lastSeq v' = fv_lastSeq v"
    "fs \<noteq> [] \<Longrightarrow> fv_lastSeq v = 0 \<Longrightarrow> Update_all \<in> set us"
    "layout_ok v \<Longrightarrow> f \<in> set fs \<Longrightarrow> in_frame f p \<Longrightarrow> list_ex (asks (draw_op v im) p) us"
proof -
  show "layout_ok v \<Longrightarrow> f \<in> set fs \<Longrightarrow> in_frame f p \<Longrightarrow> list_ex (asks (draw_op v im) p) us"
    using assms unfolding took_frames_def by blast
qed (use assms in \<open>auto simp: took_frames_def\<close>)

text \<open>What the server makes of the bytes that arrive, and what it tells the view.\<close>

lemma bytes_arrive:
  assumes g: "linked clk g c i s im" "carries g s im ms"
  obtains ms1 ms2 l' s' us where "ms = ms1 @ ms2"
    "cast_step dsync clk (gl_cast g) (Ca_data i (take n (in_flight g))) = Inr l'"
    "lc_objs l' i = Some s'" "lc_server l' = Some i" "cast_inv l'"
    "m_socket s' \<noteq> None" "unhurried clk s'" "unread s' @ drop n (in_flight g) = enc_all ms2" "partial_front (unread s') ms2"
    "took_frames im (frames_of ms1) (lc_view (gl_cast g)) (lc_view l') us"
proof -
  let ?l = "gl_cast g" and ?v = "lc_view (gl_cast g)" and ?b = "take n (in_flight g)"
  have inv: "cast_inv ?l" "lc_server ?l = Some i" "lc_objs ?l i = Some s" "m_socket s \<noteq> None" "unhurried clk s"
    "fv_img ?v = Some im" "tame ?v" "image_small im"
    using g(1) by (simp_all add: linked_def panel_image_def)
  have st: "unread s @ ?b @ drop n (in_flight g) = enc_all ms" "list_all c2s_wf ms" "list_all frame_or_cursor ms"
    "list_all (frame_on im) (frames_of ms)"
    using g(2) by (simp_all add: carries_def)
  obtain ms1 ms2 r where fd: "ms = ms1 @ ms2" "r @ drop n (in_flight g) = enc_all ms2" "partial_front r ms2"
    "feed dsync clk s ?b = set_unread r (foldl (handle_c2s dsync clk) s ms1)"
    "m_socket (foldl (handle_c2s dsync clk) s ms1) \<noteq> None"
    using feed_step [OF st(1,2) frames_keep_open [OF st(3)] inv(4)] by blast
  let ?s = "feed dsync clk s ?b"
  have h: "announces s ?s (frames_of ms1)" "unhurried clk ?s" "m_socket ?s \<noteq> None" "unread ?s = r"
    using handle_all_unhurried [of ms1 clk s dsync] fd st(3) inv(5) by simp_all
  obtain gs where gs: "sv_signals ?s = sv_signals s @ gs" "filter is_frame gs = map frame_signal (frames_of ms1)"
    "list_all plain_signal gs" using h(1) by (auto simp: announces_def)
  obtain w us where w: "view_frames (frames_of ms1) ?v = Inr w" "took_frames im (frames_of ms1) ?v w us"
    using view_frames_ok [OF inv(7,6,8), of "frames_of ms1"] st(4) fd(1) unfolding took_frames_def by auto
  let ?l1 = "?l\<lparr>lc_objs := (lc_objs ?l)(i \<mapsto> ?s)\<rparr>"
  have "fv_server ?v = Some i" using inv(1,2) by (simp add: cast_inv_def)
  then have "\<exists>l'. deliver i gs ?l1 = Inr l' \<and> lc_view l' = w"
    by (intro deliver_frames [OF gs(3,2)]) (use inv w in auto)
  then obtain l' where l': "deliver i gs ?l1 = Inr l'" "lc_view l' = w" by blast
  have cs: "cast_step dsync clk ?l (Ca_data i ?b) = Inr l'"
    using inv(3) gs(1) l'(1) by (simp add: on_server_def put_server_def)
  have "lc_objs l' i = Some ?s" "lc_server l' = Some i"
    using deliver_keeps [OF l'(1)] inv(2) by (simp_all add: keeps_def)
  moreover have "cast_inv l'" using cast_step_ok [OF inv(1), of "Ca_data i ?b" dsync clk] cs inv(3,4) by simp
  ultimately show thesis using that fd(1-3) cs h w(2) l'(2) by auto
qed

text \<open>The requests make up for the frames that are no longer on the way.\<close>

lemma shows_after_frames:
  assumes sh: "shows_frames g im (ms1 @ ms2)" and l: "cast_inv (gl_cast g)" "tame (lc_view (gl_cast g))"
    and tk: "took_frames im (frames_of ms1) (lc_view (gl_cast g)) (lc_view l') us"
    and seen: "gl_seen g \<le> length (fv_updates (lc_view (gl_cast g)))"
  shows "shows_frames (g\<lparr>gl_cast := l', gl_pos := k\<rparr>) im ms2"
proof -
  let ?g = "g\<lparr>gl_cast := l', gl_pos := k\<rparr>" and ?v = "lc_view (gl_cast g)"
  note tk' = took_framesD [OF tk]
  have op: "open_requests ?g = open_requests g @ us" using seen tk'(2) by (simp add: open_requests_def)
  have as: "asked_for ?g im p" if "asked_for g im p \<or> list_ex (asks (draw_op ?v im) p) us" for p
    using that unfolding asked_for_def op by (auto simp: tk'(5))
  have whole: "shows_frames ?g im ms2" if "whole_asked g \<or> Update_all \<in> set us"
  proof -
    have "whole_asked ?g" using that unfolding whole_asked_def op by auto
    then show ?thesis using whole_asked_all by (simp add: shows_frames_def fresh_def)
  qed
  consider "fv_lastSeq ?v = 0" "frames_of ms1 = []" | "fv_lastSeq ?v = 0" "frames_of ms1 \<noteq> []" | "whole_asked g"
    | "fv_layoutValid ?v" "fresh g im (ms1 @ ms2)" using sh by (auto simp: shows_frames_def)
  then show ?thesis
  proof cases
    case 1
    then show ?thesis using tk'(6) by (simp add: shows_frames_def)
  next
    case 4
    then have "layout_ok ?v" using l by (simp add: cast_inv_def view_inv_def tame_def)
    then have "fresh ?g im ms2"
      using 4(2) as tk'(8) unfolding fresh_def by (auto simp: Ball_def) blast+
    then show ?thesis using 4(1) tk'(3) by (auto simp: shows_frames_def)
  qed (use whole tk'(7) in blast)+
qed

lemma glass_deliver_inv:
  assumes g: "linked clk g c i s im" "carries g s im ms" "shows_frames g im ms"
  shows "\<exists>g' s' ms'. glass_step cm dsync clk g (Gl_deliver n) = Inr g' \<and> linked clk g' c i s' im \<and>
    carries g' s' im ms' \<and> shows_frames g' im ms' \<and> in_flight g' = drop n (in_flight g) \<and> gl_screen g' = gl_screen g"
proof -
  obtain ms1 ms2 l' s' us where l': "ms = ms1 @ ms2"
    "cast_step dsync clk (gl_cast g) (Ca_data i (take n (in_flight g))) = Inr l'"
    "lc_objs l' i = Some s'" "lc_server l' = Some i" "cast_inv l'" "m_socket s' \<noteq> None" "unhurried clk s'"
    "unread s' @ drop n (in_flight g) = enc_all ms2" "partial_front (unread s') ms2"
    "took_frames im (frames_of ms1) (lc_view (gl_cast g)) (lc_view l') us"
    by (rule bytes_arrive [OF g(1,2), of dsync n])
  let ?g = "g\<lparr>gl_cast := l', gl_pos := gl_pos g + length (take n (in_flight g))\<rparr>"
  have step: "glass_step cm dsync clk g (Gl_deliver n) = Inr ?g"
    using l'(2) g(1) by (simp add: Let_def linked_def)
  have fl: "in_flight ?g = drop n (in_flight g)" by (simp add: in_flight_def min_def add.commute)
  have conn: "linked clk ?g c i s' im" using g(1) l'(3-7) took_framesD(1-4) [OF l'(10)] by (simp add: linked_def)
  have "gl_pos g \<le> length (written (sc_device (gl_screen g)))" using g(2) by (simp add: carries_def)
  then have "gl_pos ?g \<le> length (written (sc_device (gl_screen ?g)))" by (simp add: in_flight_def)
  then have car: "carries ?g s' im ms2" using g(2) l'(1,8,9) unfolding carries_def fl by simp
  have "shows_frames ?g im ms2"
    using g(1,3) l'(1,10) by (intro shows_after_frames [of g im ms1 ms2 l' us]) (simp_all add: linked_def)
  then show ?thesis using step conn car fl by (intro exI [of _ ?g] exI [of _ s'] exI [of _ ms2]) simp
qed

text \<open>A fresh layout is tame, and so is a quarter turn.\<close>

lemma recalcLayout_fields [simp]:
  "fv_img (recalcLayout v) = fv_img v" "fv_size (recalcLayout v) = fv_size v" "fv_layoutValid (recalcLayout v)"
  "fv_rotation (recalcLayout v) = fv_rotation v" "fv_lastSeq (recalcLayout v) = fv_lastSeq v"
  "fv_updates (recalcLayout v) = fv_updates v" "fv_server (recalcLayout v) = fv_server v"
  by (auto simp: recalcLayout_def Let_def split: option.splits prod.splits)

lemma layout_bounds:
  assumes lay: "layout_ok v" and im: "fv_img v = Some im" "image_small im"
  shows "fv_scale v \<le> max (fst (fv_size v)) (snd (fv_size v))"
    "\<bar>fst (fv_drawn v)\<bar> \<le> max (fst (fv_size v)) (snd (fv_size v))"
    "\<bar>snd (fv_drawn v)\<bar> \<le> max (fst (fv_size v)) (snd (fv_size v))"
    "\<bar>fst (fv_offset v)\<bar> \<le> fst (fv_size v)" "\<bar>snd (fv_offset v)\<bar> \<le> snd (fv_size v)"
proof -
  let ?k = "fv_scale v" and ?w = "of_int (fi_w im) :: rat" and ?h = "of_int (fi_h im) :: rat"
  obtain W H where sz: "fv_size v = (W, H)" by (cases "fv_size v")
  have one: "1 \<le> ?w" "1 \<le> ?h" using im(2) by (simp_all add: image_small_def)
  have k: "0 < ?k" and d: "fv_drawn v = (?k * ?w, ?k * ?h)"
    using lay im(1) by (auto simp: layout_ok_def Let_def split: if_splits)
  have p: "?k \<le> ?k * ?w" "0 < ?k * ?w" "0 < ?k * ?h" using k one by simp_all
  have o: "sideways v \<Longrightarrow> ?k * ?h \<le> W \<and> ?k * ?w \<le> H \<and> fv_offset v = ((W - ?k * ?h) / 2, (H - ?k * ?w) / 2)"
    "\<not> sideways v \<Longrightarrow> ?k * ?w \<le> W \<and> ?k * ?h \<le> H \<and> fv_offset v = ((W - ?k * ?w) / 2, (H - ?k * ?h) / 2)"
    using lay im(1) sz by (auto simp: layout_ok_def Let_def)
  show "fv_scale v \<le> max (fst (fv_size v)) (snd (fv_size v))"
    "\<bar>fst (fv_drawn v)\<bar> \<le> max (fst (fv_size v)) (snd (fv_size v))"
    "\<bar>snd (fv_drawn v)\<bar> \<le> max (fst (fv_size v)) (snd (fv_size v))"
    "\<bar>fst (fv_offset v)\<bar> \<le> fst (fv_size v)" "\<bar>snd (fv_offset v)\<bar> \<le> snd (fv_size v)"
    using o p d by (cases "sideways v"; auto simp: sz max_def)+
qed

lemma recalcLayout_tame:
  assumes t: "tame v" and im: "fv_img v = Some im" "image_small im"
  shows "layout_ok (recalcLayout v)" "tame (recalcLayout v)"
proof -
  have "view_ok v" using t im by (simp add: view_ok_def tame_def image_small_def)
  then show l: "layout_ok (recalcLayout v)" by (rule recalcLayout_ok)
  note b = layout_bounds [OF l, of im]
  have m: "max (fst (fv_size v)) (snd (fv_size v)) \<le> 2 ^ 14" using t by (simp add: tame_def)
  have "fv_scale (recalcLayout v) \<le> 2 ^ 14 \<and> \<bar>fst (fv_drawn (recalcLayout v))\<bar> \<le> 2 ^ 14 \<and>
      \<bar>snd (fv_drawn (recalcLayout v))\<bar> \<le> 2 ^ 14"
    using b(1-3) m im by (auto elim!: order_trans)
  then show "tame (recalcLayout v)" using t im b(4,5)
    by (simp add: tame_def upright_def)
qed

lemma setRotation_upright:
  assumes "upright v" "90 dvd deg"
  shows "upright (setRotation deg v)"
proof -
  have "0 \<le> fv_rotation v \<and> fv_rotation v < 360" using assms(1) by (auto simp: upright_def)
  then have r: "0 \<le> fv_rotation (setRotation deg v)" "fv_rotation (setRotation deg v) < 360"
    using setRotation_range by blast+
  have m: "90 dvd Prelude.cmod a 360" if "90 dvd a" for a
    using that by (simp add: Prelude.cmod_def dvd_diff dvd_mult2)
  have "90 dvd Prelude.cmod (Prelude.cmod deg 360 + 360) 360"
    by (intro m dvd_add assms(2)) simp
  then have "90 dvd fv_rotation (setRotation deg v)"
    using assms(1) by (auto simp: setRotation_def request_update_def Let_def upright_def)
  then obtain j where "fv_rotation (setRotation deg v) = 90 * j" by (elim dvdE)
  moreover from this r have "j \<in> {0, 1, 2, 3}" by auto
  ultimately show ?thesis by (auto simp: upright_def)
qed

lemma image_op_draw [simp]:
  "image_op [draw_op v im] = Some (draw_op v im)" "image_op [Fill_white, draw_op v im] = Some (draw_op v im)"
  by (auto simp: image_op_def draw_op_def Let_def split: prod.splits)

lemma paint_view:
  assumes pt: "fv_paint objs v = (w, ops)" and v: "fv_img v = Some im" "tame v" "image_small im"
    and at: "fv_server v = Some i" "objs i = Some s" "m_socket s \<noteq> None"
  shows "fv_img w = Some im" "fv_lastSeq w = fv_lastSeq v" "fv_updates w = fv_updates v" "fv_layoutValid w" "tame w"
    and "fv_lastSeq v \<noteq> 0 \<Longrightarrow> image_op ops = Some (draw_op (if fv_layoutValid v then v else recalcLayout v) im)"
proof -
  define u where "u = (if fv_layoutValid v then v else recalcLayout v)"
  have uf: "fv_img u = Some im" "fv_lastSeq u = fv_lastSeq v" "fv_updates u = fv_updates v" "fv_layoutValid u"
    "fv_server u = fv_server v" "tame u"
    using v recalcLayout_tame [OF v(2,1,3)] by (simp_all add: u_def)
  have a: "attached objs u = Some s" using at uf(5) by (simp add: attached_def)
  have ct: "fv_img (close_timers u) = fv_img u" "fv_lastSeq (close_timers u) = fv_lastSeq u"
    "fv_updates (close_timers u) = fv_updates u" "fv_layoutValid (close_timers u) = fv_layoutValid u"
    "tame (close_timers u) = tame u"
    by (simp_all add: close_timers_def Let_def tame_def upright_def)
  have "w = u \<or> w = close_timers u" and
    drawn: "fv_lastSeq v \<noteq> 0 \<Longrightarrow> image_op ops = Some (draw_op u im)"
    using pt uf(1,2) a at(3) by (auto simp: fv_paint_def u_def [symmetric] Let_def split: if_splits)
  then show "fv_img w = Some im" "fv_lastSeq w = fv_lastSeq v" "fv_updates w = fv_updates v" "fv_layoutValid w" "tame w"
    using uf ct by auto
  show "fv_lastSeq v \<noteq> 0 \<Longrightarrow> image_op ops = Some (draw_op (if fv_layoutValid v then v else recalcLayout v) im)"
    using drawn by (simp add: u_def)
qed

lemma glass_paint_inv:
  assumes g: "linked clk g c i s im" "carries g s im ms" "shows_frames g im ms"
  shows "\<exists>g'. glass_step cm dsync clk g (Gl_paint extra) = Inr g' \<and> linked clk g' c i s im \<and>
    carries g' s im ms \<and> shows_frames g' im ms \<and> open_requests g' = [] \<and> \<not> gl_all g' \<and>
    in_flight g' = in_flight g \<and> gl_screen g' = gl_screen g \<and>
    fv_lastSeq (lc_view (gl_cast g')) = fv_lastSeq (lc_view (gl_cast g))"
proof -
  let ?l = "gl_cast g" and ?v = "lc_view (gl_cast g)"
  obtain w ops where pt: "fv_paint (lc_objs ?l) ?v = (w, ops)" by (cases "fv_paint (lc_objs ?l) ?v")
  have inv: "cast_inv ?l" "fv_server ?v = Some i"
    using g(1) by (simp_all add: linked_def cast_inv_def)
  have wf: "fv_img w = Some im" "fv_lastSeq w = fv_lastSeq ?v" "fv_updates w = fv_updates ?v" "fv_layoutValid w" "tame w"
    and drawn: "fv_lastSeq ?v \<noteq> 0 \<Longrightarrow> image_op ops = Some (draw_op (if fv_layoutValid ?v then ?v else recalcLayout ?v) im)"
    using paint_view [OF pt, of im i s] g(1) inv(2) by (auto simp: linked_def panel_image_def)
  let ?g = "g\<lparr>gl_cast := ?l\<lparr>lc_view := w\<rparr>, gl_seen := length (fv_updates w), gl_all := False,
    gl_tx := (\<lambda>p. if redrawn extra g ops p then map_option (\<lambda>_. shared_px (sc_device (gl_screen g)) p) (image_op ops)
      else gl_tx g p)\<rparr>"
  have step: "glass_step cm dsync clk g (Gl_paint extra) = Inr ?g" by (simp add: pt)
  have ci: "cast_inv (?l\<lparr>lc_view := w\<rparr>)" using cast_step_ok [OF inv(1), of Ca_paint dsync clk] by (simp add: pt)
  have conn: "linked clk ?g c i s im" using g(1) ci wf by (simp add: linked_def)
  have car: "carries ?g s im ms" using g(2) by (simp add: carries_def in_flight_def)
  have op: "open_requests ?g = []" by (simp add: open_requests_def)
  have "shows_frames ?g im ms"
  proof (cases "fv_lastSeq ?v = 0")
    case True
    then show ?thesis using wf by (simp add: shows_frames_def)
  next
    case False
    then have f: "fv_layoutValid ?v \<or> whole_asked g" "fresh g im ms" using g(3) by (auto simp: shows_frames_def)
    have "redrawn extra g ops p" if "asked_for g im p" for p
    proof (cases "fv_layoutValid ?v")
      case True
      then show ?thesis using that drawn [OF False] by (simp add: asked_for_def redrawn_def) blast
    next
      case nv: False
      then have "gl_all g \<or> Update_all \<in> set (open_requests g)" using f(1) by (simp add: whole_asked_def)
      then show ?thesis using drawn [OF False]
        by (auto simp: redrawn_def list_ex_iff intro: bexI [of _ Update_all])
    qed
    then have "fresh ?g im ms" using f(2) drawn [OF False] unfolding fresh_def by auto
    then show ?thesis using wf by (simp add: shows_frames_def)
  qed
  then show ?thesis using step conn car op wf(2)
    by (intro exI [of _ ?g]) (simp add: in_flight_def)
qed

lemma glass_rotate_inv:
  assumes g: "linked clk g c i s im" "carries g s im ms" "shows_frames g im ms" and deg: "90 dvd deg"
  shows "\<exists>g'. glass_step cm dsync clk g (Gl_rotate deg) = Inr g' \<and> linked clk g' c i s im \<and>
    carries g' s im ms \<and> shows_frames g' im ms \<and> gl_screen g' = gl_screen g"
proof -
  let ?v = "lc_view (gl_cast g)"
  let ?l = "gl_cast g\<lparr>lc_view := setRotation deg ?v\<rparr>"
  let ?g = "g\<lparr>gl_cast := ?l\<rparr>"
  have ci: "cast_inv ?l"
    using cast_step_ok [of "gl_cast g" "Ca_rotate deg" dsync clk] g(1) by (simp add: linked_def)
  have inv: "fv_img ?v = Some im" "tame ?v" using g(1) by (simp_all add: linked_def)
  have up: "upright (setRotation deg ?v)" using setRotation_upright inv(2) deg by (simp add: tame_def)
  have t: "tame (setRotation deg ?v)" using inv(2) up
    by (simp add: tame_def setRotation_def request_update_def Let_def)
  have conn: "linked clk ?g c i s im" using g(1) ci t
    by (simp add: linked_def) (simp add: setRotation_def request_update_def Let_def)
  have car: "carries ?g s im ms" using g(2) by (simp add: carries_def in_flight_def)
  have "shows_frames ?g im ms"
  proof (cases "setRotation deg ?v = ?v")
    case True
    then have "?g = g" by simp
    then show ?thesis using g(3) by simp
  next
    case False
    then have "fv_updates (setRotation deg ?v) = fv_updates ?v @ [Update_all]"
      by (auto simp: setRotation_def request_update_def Let_def split: if_splits)
    then have "whole_asked ?g" using g(1) by (simp add: whole_asked_def open_requests_def linked_def)
    then show ?thesis using whole_asked_all by (simp add: shows_frames_def fresh_def)
  qed
  then show ?thesis using conn car by (intro exI [of _ ?g]) simp
qed

lemma glass_resize_inv:
  assumes g: "linked clk g c i s im" "carries g s im ms" "shows_frames g im ms"
    and sz: "0 < fst sz" "fst sz \<le> 2 ^ 14" "0 < snd sz" "snd sz \<le> 2 ^ 14"
  shows "\<exists>g'. glass_step cm dsync clk g (Gl_resize sz) = Inr g' \<and> linked clk g' c i s im \<and>
    carries g' s im ms \<and> shows_frames g' im ms \<and> gl_screen g' = gl_screen g"
proof -
  let ?v = "lc_view (gl_cast g)"
  let ?l = "gl_cast g\<lparr>lc_view := geometryChange sz ?v\<rparr>"
  let ?g = "g\<lparr>gl_cast := ?l, gl_all := True\<rparr>"
  have ci: "cast_inv ?l"
    using cast_step_ok [of "gl_cast g" "Ca_resize sz" dsync clk] g(1) by (simp add: linked_def)
  have t: "tame (geometryChange sz ?v)" using g(1) sz
    by (simp add: linked_def tame_def geometryChange_def upright_def)
  have conn: "linked clk ?g c i s im" using g(1) ci t
    by (simp add: linked_def) (simp add: geometryChange_def)
  have car: "carries ?g s im ms" using g(2) by (simp add: carries_def in_flight_def)
  have "whole_asked ?g" by (simp add: whole_asked_def)
  then have "shows_frames ?g im ms" using whole_asked_all by (simp add: shows_frames_def fresh_def)
  then show ?thesis using conn car by (intro exI [of _ ?g]) simp
qed

section \<open>Runs\<close>

text \<open>The events of the middleware's side leave the screen alone and do not fail.\<close>

lemma glass_side_step:
  assumes inv: "glass_inv clk g" and e: "glass_side e"
  shows "\<exists>g'. glass_step cm dsync clk g e = Inr g' \<and> glass_inv clk g' \<and> gl_screen g' = gl_screen g"
proof -
  obtain c i s im ms where g: "linked clk g c i s im" "carries g s im ms" "shows_frames g im ms"
    using inv by (auto simp: glass_inv_def)
  have "\<exists>g' s' ms'. glass_step cm dsync clk g e = Inr g' \<and> linked clk g' c i s' im \<and> carries g' s' im ms' \<and>
      shows_frames g' im ms' \<and> gl_screen g' = gl_screen g"
  proof (cases e)
    case (Gl_deliver n)
    show ?thesis unfolding Gl_deliver using glass_deliver_inv [OF g, of cm dsync n] by blast
  next
    case (Gl_paint extra)
    show ?thesis unfolding Gl_paint using glass_paint_inv [OF g, of cm dsync extra] by blast
  next
    case (Gl_rotate deg)
    then have "90 dvd deg" using e by simp
    from glass_rotate_inv [OF g this, of cm dsync] show ?thesis unfolding Gl_rotate by blast
  next
    case (Gl_resize sz)
    then have "0 < fst sz" "fst sz \<le> 2 ^ 14" "0 < snd sz" "snd sz \<le> 2 ^ 14" using e by simp_all
    from glass_resize_inv [OF g this, of cm dsync] show ?thesis unfolding Gl_resize by blast
  qed (use e in simp)
  then obtain g' s' ms' where g': "glass_step cm dsync clk g e = Inr g'" "gl_screen g' = gl_screen g"
    and l: "linked clk g' c i s' im" "carries g' s' im ms'" "shows_frames g' im ms'" by (elim exE conjE)
  show ?thesis by (rule exI [of _ g']) (intro conjI g' glass_invI [OF l])
qed

definition glass_synced :: "glass \<Rightarrow> bool" where
  "glass_synced g \<longleftrightarrow> (case sc_device (gl_screen g) of Vncast c \<Rightarrow> desk_synced (gl_screen g) c | Appload a \<Rightarrow> False)"

lemma glass_step_ok:
  assumes inv: "glass_inv clk g" and al: "glass_allowed g e"
  shows "case glass_step cm dsync clk g e of
      Inl x \<Rightarrow> kernel_failure x
    | Inr g' \<Rightarrow> glass_inv clk g' \<and> (glass_synced g \<longrightarrow> glass_synced g')"
proof -
  obtain c i s im ms where g: "linked clk g c i s im" "carries g s im ms" "shows_frames g im ms"
    using inv by (auto simp: glass_inv_def)
  have syn: "glass_synced g' = glass_synced g" if "gl_screen g' = gl_screen g" for g'
    using that by (cases "sc_device (gl_screen g)") (simp_all add: glass_synced_def)
  have side: ?thesis if sd: "glass_side e"
  proof -
    obtain g' where g': "glass_step cm dsync clk g e = Inr g'" "glass_inv clk g'" "gl_screen g' = gl_screen g"
      using glass_side_step [OF inv sd, of cm dsync] by blast
    then show ?thesis using syn [OF g'(3)] by (simp del: glass_step.simps)
  qed
  show ?thesis
  proof (cases e)
    case (Gl_screen ev)
    then have ev: "smooth_event (gl_screen g) ev" "pointer_small ev" using al by simp_all
    have ok: "screen_ok (gl_screen g)" "sc_device (gl_screen g) = Vncast c" using g(1) by (simp_all add: linked_def)
    show ?thesis
    proof (cases "screen_step cm ev (gl_screen g)")
      case (Inl x)
      then show ?thesis using screen_step_ok [OF ok(1) smooth_event_ok [OF ev(1)], of cm] Gl_screen ev(1)
        by (auto simp: screen_failure_def)
    next
      case (Inr t)
      then obtain c' new where "linked clk (g\<lparr>gl_screen := t\<rparr>) c' i s im" "carries (g\<lparr>gl_screen := t\<rparr>) s im (ms @ new)"
        "shows_frames (g\<lparr>gl_screen := t\<rparr>) im (ms @ new)" "desk_synced (gl_screen g) c \<longrightarrow> desk_synced t c'"
        using glass_screen_inv [OF g ev Inr] by blast
      moreover from this(1) have "sc_device t = Vncast c'" by (simp add: linked_def)
      ultimately show ?thesis using Inr Gl_screen ok(2) by (auto simp: glass_synced_def intro: glass_invI)
    qed
  next
    case (Gl_deliver n)
    then show ?thesis by (intro side) simp
  next
    case (Gl_paint extra)
    then show ?thesis by (intro side) simp
  qed (use al in \<open>intro side; simp\<close>)+
qed

lemma glass_run_ok:
  "glass_inv clk g \<Longrightarrow> glass_legal cm dsync clk g es \<Longrightarrow>
     (case glass_run cm dsync clk g es of
        Inl x \<Rightarrow> kernel_failure x
      | Inr g' \<Rightarrow> glass_inv clk g' \<and> (glass_synced g \<longrightarrow> glass_synced g'))"
proof (induction es arbitrary: g)
  case (Cons e es)
  then have al: "glass_allowed g e" by simp
  show ?case
  proof (cases "glass_step cm dsync clk g e")
    case (Inl x)
    then show ?thesis using glass_step_ok [OF Cons.prems(1) al, of cm dsync] by simp
  next
    case (Inr g')
    then have "glass_inv clk g'" "glass_synced g \<longrightarrow> glass_synced g'" "glass_legal cm dsync clk g' es"
      using glass_step_ok [OF Cons.prems(1) al, of cm dsync] Cons.prems(2) by simp_all
    with Cons.IH [of g'] show ?thesis using Inr by (auto split: sum.splits)
  qed
qed simp

lemma glass_side_run:
  "glass_inv clk g \<Longrightarrow> list_all glass_side es \<Longrightarrow>
     \<exists>g'. glass_run cm dsync clk g es = Inr g' \<and> glass_inv clk g' \<and> gl_screen g' = gl_screen g"
proof (induction es arbitrary: g)
  case (Cons e es)
  then obtain g' where "glass_step cm dsync clk g e = Inr g'" "glass_inv clk g'" "gl_screen g' = gl_screen g"
    using glass_side_step [of clk g e cm dsync] by auto
  with Cons.IH [of g'] Cons.prems(2) show ?case by simp
qed simp

text \<open>With nothing on the way and nothing asked for, the item shows the shared memory.\<close>

lemma quiet_shows_shm:
  assumes g: "linked clk g c i s im" "carries g s im ms" "shows_frames g im ms"
    and q: "open_requests g = []" "\<not> gl_all g" "in_flight g = []" "fv_lastSeq (lc_view (gl_cast g)) \<noteq> 0"
    and p: "on_panel (gl_screen g) x y"
  shows "gl_tx g (x, y) = Some (shm_px c x y)"
proof -
  have "unread s = enc_all ms" "partial_front (unread s) ms" using g(2) q(3) by (auto simp: carries_def)
  then have "ms = []" using partial_front_all by simp
  then have "fresh g im []" using g(3) q(4) by (simp add: shows_frames_def)
  moreover have "in_rect 0 0 (fi_w im) (fi_h im) (x, y)" using p image_on_panel [OF g(1)] by simp
  ultimately show ?thesis using q(1,2) g(1) by (auto simp: fresh_def asked_for_def linked_def)
qed

text \<open>The item shows the desktop: every panel cell the colour of the source pixel that belongs there.\<close>

fun device_px :: "device \<Rightarrow> bytes \<Rightarrow> bytes" where
  "device_px (Vncast c) = conv_pixel c"
| "device_px (Appload a) = id"

definition shows_desktop :: "glass \<Rightarrow> bool" where
  "shows_desktop g \<longleftrightarrow> (let s = gl_screen g in
     \<forall>col row. on_panel s col row \<and> in_source s (shown_at s col row) \<longrightarrow>
       gl_tx g (col, row) = Some (device_px (sc_device s) (src_px s (shown_at s col row))))"

definition caught_up :: "glass \<Rightarrow> bool" where
  "caught_up g \<longleftrightarrow> in_flight g = [] \<and> fv_lastSeq (lc_view (gl_cast g)) \<noteq> 0"

lemma glass_run_append:
  "glass_run cm dsync clk g (es @ fs) = bindE (glass_run cm dsync clk g es) (\<lambda>g'. glass_run cm dsync clk g' fs)"
  by (induction es arbitrary: g) (simp_all add: res_simps)

definition repaint_due :: "int \<Rightarrow> screen \<Rightarrow> bool" where
  "repaint_due now s \<longleftrightarrow> has_update (update_info s) \<and> due s - now < ns_per_ms"

lemma glass_catches_up:
  assumes inv: "glass_inv clk g" "glass_synced g" and d: "repaint_due now (gl_screen g)" and es: "list_all glass_side es"
  shows "case glass_run cm dsync clk g (Gl_screen (Ev_tick now) # es @ [Gl_paint extra]) of
      Inl x \<Rightarrow> kernel_failure x
    | Inr g' \<Rightarrow> glass_inv clk g' \<and> (caught_up g' \<longrightarrow> shows_desktop g')"
proof (cases "glass_step cm dsync clk g (Gl_screen (Ev_tick now))")
  case (Inl x)
  then show ?thesis using glass_step_ok [OF inv(1), of "Gl_screen (Ev_tick now)" cm dsync] by simp
next
  case (Inr g1)
  obtain c i s im ms where g: "linked clk g c i s im"
    using inv(1) by (auto simp: glass_inv_def)
  have ok: "screen_ok (gl_screen g)" "sc_device (gl_screen g) = Vncast c" using g by (simp_all add: linked_def)
  have i1: "glass_inv clk g1" using glass_step_ok [OF inv(1), of "Gl_screen (Ev_tick now)" cm dsync] Inr by simp
  obtain t where t: "repaint cm now (gl_screen g) = Inr t" "g1 = g\<lparr>gl_screen := t\<rparr>"
    using Inr d by (auto simp: repaint_due_def event_loop_timing res_simps)
  obtain c' where c': "sc_device t = Vncast c'" "\<forall>col row. on_panel t col row \<and> in_source t (shown_at t col row) \<longrightarrow>
       shm_px c' col row = conv_pixel c' (src_px t (shown_at t col row))"
    using repaint_desk [OF ok t(1)] inv(2) ok(2) by (auto simp: glass_synced_def)
  obtain g2 where g2: "glass_run cm dsync clk g1 es = Inr g2" "glass_inv clk g2" "gl_screen g2 = t"
    using glass_side_run [OF i1 es, of cm dsync] t(2) by auto
  then obtain c2 j s2 im2 ms2 where h: "linked clk g2 c2 j s2 im2" "carries g2 s2 im2 ms2" "shows_frames g2 im2 ms2"
    by (auto simp: glass_inv_def)
  obtain g3 where g3: "glass_step cm dsync clk g2 (Gl_paint extra) = Inr g3" "linked clk g3 c2 j s2 im2"
    "carries g3 s2 im2 ms2" "shows_frames g3 im2 ms2" "open_requests g3 = []" "\<not> gl_all g3" "gl_screen g3 = gl_screen g2"
    using glass_paint_inv [OF h, of cm dsync extra] by blast
  have "c2 = c'" using h(1) g2(3) c'(1) by (simp add: linked_def)
  then have "shows_desktop g3" if "caught_up g3"
    using quiet_shows_shm [OF g3(2-6)] that c' g2(3) g3(7) by (simp add: caught_up_def shows_desktop_def Let_def)
  moreover have "glass_run cm dsync clk g (Gl_screen (Ev_tick now) # es @ [Gl_paint extra]) = Inr g3"
    using Inr g2(1) g3(1) by (simp add: glass_run_append del: glass_step.simps)
  moreover have "glass_inv clk g3" by (rule glass_invI [OF g3(2-4)])
  ultimately show ?thesis by (simp del: glass_run.simps)
qed

end
