(* ===== verification/GlassSession.thy ===== *)
theory GlassSession
  imports Glass
begin

text \<open>
  How a session reaches the invariant of \<open>Glass\<close> (connection, hello and acknowledgement, the first
  update of the desktop), and the one thing it depends on: a frame that the server's frame-rate cap
  drops is forgotten by everybody, so its pixels stay stale.
\<close>

section \<open>How a session begins\<close>

text \<open>The first update of the desktop covers all of it.\<close>

lemma first_update_syncs:
  assumes d: "panel_ok c" and sz: "0 < w" "w \<le> 4096" "0 < h" "h \<le> 4096" and b: "length b = nat w * nat h * 2"
  shows "\<exists>s1 s2. screen_step cm (Ev_framebuffer w h) (screen_new env (Vncast c) vnc orient) = Inr s1 \<and>
    screen_step cm (Ev_painted b 0 0 w h) s1 = Inr s2 \<and> screen_ok s2 \<and> sc_device s2 = Vncast c \<and> desk_synced s2 c"
proof -
  let ?s0 = "screen_new env (Vncast c) vnc orient"
  have ok0: "screen_ok ?s0" by (rule screen_new_ok) (simp add: d)
  have f0: "\<not> has_update (update_info ?s0)" "sc_device ?s0 = Vncast c"
    by (simp_all add: screen_new_def Let_def split: prod.splits)
  let ?t0 = "?s0\<lparr>vnc_client := (vnc_client ?s0)\<lparr>rfb_width := w, rfb_height := h\<rparr>\<rparr>"
  have okt: "screen_ok ?t0" using ok0 by (simp add: screen_ok_def)
  obtain s1 where s1: "create_framebuf ?t0 = Inr s1" using sz by (auto simp: create_framebuf_def Let_def)
  have f1: "src_width s1 = w" "src_height s1 = h" "update_info s1 = update_info ?s0" "sc_device s1 = Vncast c"
    using s1 sz f0(2) by (auto simp: create_framebuf_def Let_def)
  have ok1: "screen_ok s1" using create_framebuf_ok [OF okt] s1 sz by simp
  let ?t1 = "s1\<lparr>src_buffer := b\<rparr>"
  have okb: "screen_ok ?t1" using ok1 b sz by (simp add: screen_ok_def f1)
  have r: "rect_ok 0 0 w h" using sz by (simp add: rect_ok_def)
  let ?s2 = "?t1\<lparr>update_info := \<lparr>ui_x = 0, ui_y = 0, ui_w = w, ui_h = h, has_update = True\<rparr>\<rparr>"
  have s2: "commit_updates cm 0 0 w h ?t1 = Inr ?s2" using f0(1) f1(3) by (simp add: commit_updates_def Let_def)
  have "screen_ok ?s2" using commit_updates_spec [OF okb r, of cm] s2 by simp
  moreover have "desk_synced ?s2 c" by (simp add: desk_synced_def in_pending_def in_source_def f1)
  ultimately show ?thesis using s1 s2 f1(4) by (intro exI [of _ s1] exI [of _ ?s2]) simp
qed

text \<open>A client connects to the server of the launcher and says hello.\<close>

lemma onNewConnection_signals:
  "m_socket s = None \<Longrightarrow> sv_signals (onNewConnection s) = sv_signals s @ [ClientConnected]"
  by (simp add: onNewConnection_def emit_def)

definition after_hello :: "bool \<Rightarrow> hello_c2s \<Rightarrow> server \<Rightarrow> server" where
  "after_hello dsync m s = set_unread [] (handleHello dsync m (onNewConnection s))"

lemma connect_and_hello:
  assumes l: "cast_inv l" "lc_server l = Some i" "lc_objs l i = Some s" "m_socket s = None" and m: "m = hello_msg fps"
  shows "\<exists>l1 l2 s2. cast_step dsync clk l (Ca_connect i) = Inr l1 \<and>
    cast_step dsync clk l1 (Ca_data i (enc_hello m)) = Inr l2 \<and> cast_inv l2 \<and> lc_server l2 = Some i \<and>
    lc_objs l2 i = Some s2 \<and> m_socket s2 \<noteq> None \<and> unread s2 = [] \<and> m_fps_cap s2 = fps \<and>
    m_min_period_ms s2 = (if fps = 0 then 0 else uint (1000 div fps)) \<and> m_last_emit_ms s2 = 0 \<and>
    lc_view l2 = rebuildImage ((lc_objs l)(i \<mapsto> onNewConnection s)) (lc_view l)"
proof -
  have inv: "server_inv s" "m_server s" "fv_server (lc_view l) = Some i"
    using l by (auto simp: cast_inv_def objs_inv_def)
  let ?s1 = "onNewConnection s"
  have c1: "cast_enabled l (Ca_connect i)" using l inv by simp
  have sg1: "sv_signals ?s1 = sv_signals s @ [ClientConnected]" by (rule onNewConnection_signals) (rule l)
  let ?l0 = "l\<lparr>lc_objs := (lc_objs l)(i \<mapsto> ?s1)\<rparr>"
  let ?l1 = "(setStatus Vnsee_connected ?l0)\<lparr>lc_view := rebuildImage ((lc_objs l)(i \<mapsto> ?s1)) (lc_view l)\<rparr>"
  have e1: "cast_step dsync clk l (Ca_connect i) = Inr ?l1"
    using l(3) sg1 inv(3) by (simp add: on_server_def put_server_def)
  have i1: "cast_inv ?l1" using cast_step_ok [OF l(1) c1, of dsync clk] e1 by simp
  have o1: "lc_objs ?l1 i = Some ?s1" "lc_server ?l1 = Some i" "lc_view ?l1 = rebuildImage ((lc_objs l)(i \<mapsto> ?s1)) (lc_view l)"
    using l(2) by simp_all
  have k1: "m_socket ?s1 \<noteq> None" "unread ?s1 = []" using l(4) by (simp_all add: onNewConnection_def emit_def unread_def)
  have wf: "c2s_wf (C2S_Hello m)" "keeps_open (C2S_Hello m)" by (simp_all add: m hello_msg_def)
  have fd: "feed dsync clk ?s1 (enc_hello m) = set_unread [] (handleHello dsync m ?s1)"
    using feed_messages [of ?s1 "[enc_hello m]" "[C2S_Hello m]" dsync clk] k1 wf by (simp add: partial_front_def)
  let ?s2 = "set_unread [] (handleHello dsync m ?s1)"
  have acc: "accepted (ack_of t m) \<noteq> 0" for t using m by (simp add: ack_of_def Let_def hello_msg_def)
  have f2: "m_socket ?s2 \<noteq> None" "m_fps_cap ?s2 = fps" "m_min_period_ms ?s2 = (if fps = 0 then 0 else uint (1000 div fps))"
    "m_last_emit_ms ?s2 = 0" "sv_signals ?s2 = sv_signals ?s1 @ [CursorChanged, LastFrameModeChanged]"
    using k1(1) acc m by (auto simp: handleHello_def Let_def set_unread_def sock_write_def emit_def hello_msg_def)
  have sv: "Option.bind (lc_server ?l1) (lc_objs ?l1) \<noteq> None" by (simp add: o1)
  let ?l2 = "?l1\<lparr>lc_objs := (lc_objs ?l1)(i \<mapsto> ?s2)\<rparr>"
  have e2: "cast_step dsync clk ?l1 (Ca_data i (enc_hello m)) = Inr ?l2"
    using o1 fd f2(5) by (simp add: on_server_def put_server_def)
  have "cast_enabled ?l1 (Ca_data i (enc_hello m))" using o1 k1 by simp
  then have i2: "cast_inv ?l2" using cast_step_ok [OF i1, of "Ca_data i (enc_hello m)" dsync clk] e2 by simp
  have "unread ?s2 = []" using f2(1) by simp
  with e1 e2 i2 o1 f2 show ?thesis by (intro exI [of _ ?l1] exI [of _ ?l2] exI [of _ ?s2]) simp
qed

text \<open>
  vnsee connects to the server that the launcher has started, both complete the handshake, and the
  library announces and paints the desktop for the first time: then the invariant holds and the
  desktop is in step with the shared memory, whatever the item showed before.
\<close>

definition glass_start :: "screen \<Rightarrow> launcher \<Rightarrow> (int \<times> int \<Rightarrow> bytes option) \<Rightarrow> glass" where
  "glass_start s l tx =
     \<lparr>gl_screen = s, gl_cast = l, gl_pos = length (written (sc_device s)),
      gl_seen = length (fv_updates (lc_view l)), gl_all = False, gl_tx = tx\<rparr>"

lemma rebuilt_image:
  assumes "server_inv s" "m_server s" "fv_server v = Some i" "objs i = Some s"
  shows "\<exists>im. fv_img (rebuildImage objs v) = Some im \<and> fi_owner im = i \<and> fi_w im = sv_w s \<and> fi_h im = sv_h s \<and>
    fi_stride im = sv_stride s \<and> bytes_of_format (fi_format im) = int (bytes_per_pixel (sv_format s))"
  using assms by (auto simp: rebuildImage_def attached_def Let_def server_inv_def format_fits_def bytes_per_pixel_def)

lemma rebuild_tame: "tame (rebuildImage objs v) = tame v" "fv_lastSeq (rebuildImage objs v) = fv_lastSeq v"
  by (auto simp: rebuildImage_def Let_def tame_def upright_def split: option.splits)

lemma glass_begins:
  assumes mw: "cast_inv l" "lc_server l = Some i" "lc_objs l i = Some s" "m_socket s = None"
    and item: "fv_lastSeq (lc_view l) = 0" "tame (lc_view l)"
    and sh: "shm_name_ok (sv_shmName s)" "shares_shm os s"
    and cl: "rx_stream (m_rx c) = enc_ack (ack_of s (hello_msg (env_fps env)))" "m_out c = []"
      "handshake os env c = Inr c'" "whole_sends (m_tx c)"
    and clk: "env_fps env = 0 \<or> (\<forall>k. uint (1000 div env_fps env) \<le> clk (Suc k) - clk k)"
    and lib: "0 < w" "w \<le> 4096" "0 < h" "h \<le> 4096" "length b = nat w * nat h * 2"
  shows "\<exists>l1 l2 s1 s2. cast_step dsync clk l (Ca_connect i) = Inr l1 \<and>
    cast_step dsync clk l1 (Ca_data i (m_out c')) = Inr l2 \<and>
    screen_step cm (Ev_framebuffer w h) (screen_new env (Vncast c') vnc orient) = Inr s1 \<and>
    screen_step cm (Ev_painted b 0 0 w h) s1 = Inr s2 \<and>
    glass_inv clk (glass_start s2 l2 tx) \<and> glass_synced (glass_start s2 l2 tx)"
proof -
  have si: "server_inv s" "m_server s" "fv_server (lc_view l) = Some i"
    using mw by (auto simp: cast_inv_def objs_inv_def)
  note geo = session_geometry [OF cl(1,3)] and ag = ack_of_geometry [OF si(1,2)]
  have pok: "panel_ok c'" by (rule session_panel_ok [OF si(1,2) sh cl(1,3)])
  have out: "m_out c' = enc_hello (hello_msg (env_fps env))" using geo(5) cl(2) by simp
  obtain s1 s2 where s: "screen_step cm (Ev_framebuffer w h) (screen_new env (Vncast c') vnc orient) = Inr s1"
    "screen_step cm (Ev_painted b 0 0 w h) s1 = Inr s2" "screen_ok s2" "sc_device s2 = Vncast c'" "desk_synced s2 c'"
    using first_update_syncs [OF pok lib, of cm env vnc orient] by blast
  obtain l1 l2 t where l: "cast_step dsync clk l (Ca_connect i) = Inr l1"
    "cast_step dsync clk l1 (Ca_data i (m_out c')) = Inr l2" "cast_inv l2" "lc_server l2 = Some i"
    "lc_objs l2 i = Some t" "m_socket t \<noteq> None" "unread t = []" "m_fps_cap t = env_fps env"
    "m_min_period_ms t = (if env_fps env = 0 then 0 else uint (1000 div env_fps env))" "m_last_emit_ms t = 0"
    "lc_view l2 = rebuildImage ((lc_objs l)(i \<mapsto> onNewConnection s)) (lc_view l)"
    unfolding out using connect_and_hello [OF mw refl, of dsync clk "env_fps env"] by blast
  have nc: "server_inv (onNewConnection s)" "m_server (onNewConnection s)" "sv_w (onNewConnection s) = sv_w s"
    "sv_h (onNewConnection s) = sv_h s" "sv_stride (onNewConnection s) = sv_stride s"
    "sv_format (onNewConnection s) = sv_format s"
    using si by (auto simp: onNewConnection_def emit_def server_inv_def format_fits_def)
  obtain im where im: "fv_img (lc_view l2) = Some im" "fi_w im = sv_w s" "fi_h im = sv_h s" "fi_stride im = sv_stride s"
    "bytes_of_format (fi_format im) = int (bytes_per_pixel (sv_format s))"
    using rebuilt_image [OF nc(1,2) si(3), of "(lc_objs l)(i \<mapsto> onNewConnection s)"] nc l(11) by auto
  have pi: "panel_image c' im" using im geo ag by (simp add: panel_image_def image_small_def)
  have hurry: "unhurried clk t" using clk l(8-10) by (auto simp: unhurried_def)
  let ?g = "glass_start s2 l2 tx"
  have wt: "whole_sends (m_tx c')" using cl(4) handshake_tx [OF cl(3)] by (auto simp: whole_sends_def)
  have "linked clk ?g c' i t im"
    using s(3,4) wt l(3-6) hurry im(1) pi item(2) rebuild_tame(1) l(11) by (simp add: linked_def glass_start_def)
  moreover have "carries ?g t im []" using l(7) by (simp add: carries_def glass_start_def in_flight_def partial_front_def)
  moreover have "shows_frames ?g im []" using item(1) rebuild_tame(2) l(11) by (simp add: shows_frames_def glass_start_def)
  ultimately have "glass_inv clk ?g" by (rule glass_invI)
  moreover have "glass_synced ?g" using s(4,5) by (simp add: glass_synced_def glass_start_def)
  ultimately show ?thesis using l(1,2) s(1,2) by blast
qed

text \<open>
  The number of the last frame survives the client it came from: the item of a second session draws the
  shared memory as soon as the client is connected, before that client has sent any frame.
\<close>

lemma stale_picture_shown:
  assumes mw: "cast_inv l" "lc_server l = Some i" "lc_objs l i = Some s" "m_socket s = None"
    and old: "fv_lastSeq (lc_view l) \<noteq> 0"
  shows "\<exists>l' im. cast_step dsync clk l (Ca_connect i) = Inr l' \<and> fi_owner im = i \<and>
    (\<exists>fill v. snd (fv_paint (lc_objs l') (lc_view l')) = fill @ [draw_op v im])"
proof -
  have si: "server_inv s" "m_server s" "fv_server (lc_view l) = Some i" using mw by (auto simp: cast_inv_def objs_inv_def)
  obtain l1 where l1: "cast_step dsync clk l (Ca_connect i) = Inr l1" "lc_objs l1 = (lc_objs l)(i \<mapsto> onNewConnection s)"
    "lc_view l1 = rebuildImage ((lc_objs l)(i \<mapsto> onNewConnection s)) (lc_view l)"
    using mw(3) si(3) onNewConnection_signals [OF mw(4)] by (simp add: on_server_def put_server_def)
  have nc: "server_inv (onNewConnection s)" "m_server (onNewConnection s)" "m_socket (onNewConnection s) \<noteq> None"
    using si mw(4) by (auto simp: onNewConnection_def emit_def server_inv_def format_fits_def)
  obtain im where im: "fv_img (lc_view l1) = Some im" "fi_owner im = i"
    using rebuilt_image [OF nc(1,2) si(3), of "(lc_objs l)(i \<mapsto> onNewConnection s)"] l1(3) by auto
  have f: "fv_server (lc_view l1) = Some i" "fv_lastSeq (lc_view l1) \<noteq> 0" "\<not> fv_layoutValid (lc_view l1)"
    using si(3) old rebuild_tame(2) rebuild_fields
    by (auto simp: l1(3)) (auto simp: rebuildImage_def Let_def split: option.splits if_splits)
  have r: "fv_server (recalcLayout v) = fv_server v" "fv_lastSeq (recalcLayout v) = fv_lastSeq v" "fv_img (recalcLayout v) = fv_img v" for v
    by (auto simp: recalcLayout_def Let_def split: option.splits prod.splits)
  have "attached (lc_objs l1) (recalcLayout (lc_view l1)) = Some (onNewConnection s)" by (simp add: attached_def r f l1(2))
  then show ?thesis using l1(1) im f nc(3) by (auto simp: fv_paint_def Let_def r)
qed

section \<open>A frame that the cap drops\<close>

text \<open>A frame that comes too early for the cap, on a connection with nothing else on the way.\<close>

definition comes_early :: "(nat \<Rightarrow> int) \<Rightarrow> server \<Rightarrow> frame \<Rightarrow> bool" where
  "comes_early clk s f \<longleftrightarrow> frame_header f = mk_header FrameTag \<and> \<not> small_rect f \<and> 0 < m_fps_cap s \<and>
     0 < m_min_period_ms s \<and> m_last_emit_ms s \<noteq> 0 \<and> clk (sv_ticks s) - m_last_emit_ms s < m_min_period_ms s"

definition at_rest :: "glass \<Rightarrow> nat \<Rightarrow> server \<Rightarrow> bool" where
  "at_rest g i s \<longleftrightarrow> lc_server (gl_cast g) = Some i \<and> lc_objs (gl_cast g) i = Some s \<and> m_socket s \<noteq> None \<and>
     unread s = [] \<and> open_requests g = [] \<and> \<not> gl_all g \<and> gl_pos g \<le> length (written (sc_device (gl_screen g)))"

text \<open>Only deliveries, and paints in which Qt redraws no more than it was asked to.\<close>

fun idle_event :: "glass_event \<Rightarrow> bool" where
  "idle_event (Gl_deliver n) \<longleftrightarrow> True"
| "idle_event (Gl_paint extra) \<longleftrightarrow> extra = (\<lambda>_. False)"
| "idle_event e \<longleftrightarrow> False"

lemma feed_early:
  assumes f: "comes_early clk s f" and s: "m_socket s \<noteq> None" "unread s = []"
  shows "\<exists>s'. feed dsync clk s (enc_frame f) = s' \<and> sv_signals s' = sv_signals s \<and> m_socket s' \<noteq> None \<and> unread s' = []"
proof -
  have "feed dsync clk s (enc_frame f) = set_unread [] (handleFrame clk f s)"
    using feed_messages [of s "[enc_frame f]" "[C2S_Frame f]" dsync clk] f s
    by (simp add: partial_front_def comes_early_def)
  moreover have "handleFrame clk f s = s\<lparr>sv_ticks := sv_ticks s + 1\<rparr>"
    using f by (simp add: handleFrame_def comes_early_def Let_def)
  ultimately show ?thesis using s by (simp add: set_unread_def) (simp add: unread_def split: option.splits)
qed

lemma feed_nothing: "unread s = [] \<Longrightarrow> feed dsync clk s [] = s"
  by (cases "m_socket s") (simp_all add: feed_def sock_arrive_def unread_def onSocketReadyRead.simps)

lemma deliver_quietly:
  assumes r: "at_rest g i s" and fd: "feed dsync clk s (take n (in_flight g)) = s'"
    and s': "sv_signals s' = sv_signals s" "m_socket s' \<noteq> None" "unread s' = []"
  shows "\<exists>g'. glass_step cm dsync clk g (Gl_deliver n) = Inr g' \<and> at_rest g' i s' \<and> gl_tx g' = gl_tx g \<and>
    in_flight g' = drop n (in_flight g) \<and> gl_screen g' = gl_screen g"
proof -
  let ?l = "gl_cast g" and ?b = "take n (in_flight g)"
  let ?l' = "?l\<lparr>lc_objs := (lc_objs ?l)(i \<mapsto> s')\<rparr>"
  let ?g = "g\<lparr>gl_cast := ?l', gl_pos := gl_pos g + length ?b\<rparr>"
  have cs: "cast_step dsync clk ?l (Ca_data i ?b) = Inr ?l'"
    using r fd s'(1) by (simp add: at_rest_def on_server_def put_server_def)
  have "glass_step cm dsync clk g (Gl_deliver n) = Inr ?g"
    using r cs by (simp add: at_rest_def Let_def)
  moreover have "gl_pos ?g \<le> length (written (sc_device (gl_screen ?g)))"
    using r by (auto simp: at_rest_def in_flight_def min_def)
  then have "at_rest ?g i s'" using r s' by (simp add: at_rest_def open_requests_def)
  moreover have "in_flight ?g = drop n (in_flight g)" by (simp add: in_flight_def min_def add.commute)
  ultimately show ?thesis by (intro exI [of _ ?g]) simp
qed

lemma fv_paint_updates: "fv_updates (fst (fv_paint objs v)) = fv_updates v"
  by (auto simp: fv_paint_def close_timers_def Let_def split: option.splits)

lemma paint_quietly:
  assumes r: "at_rest g i s" and e: "extra = (\<lambda>_. False)"
  shows "\<exists>g'. glass_step cm dsync clk g (Gl_paint extra) = Inr g' \<and> at_rest g' i s \<and> gl_tx g' = gl_tx g \<and>
    in_flight g' = in_flight g \<and> gl_screen g' = gl_screen g"
proof -
  have "\<not> redrawn extra g ops p" for ops p using r e by (auto simp: redrawn_def at_rest_def split: option.splits)
  then show ?thesis using r
    by (simp add: Let_def at_rest_def in_flight_def) (simp add: open_requests_def)
qed

lemma idle_run:
  "at_rest g i s \<Longrightarrow> in_flight g = [] \<Longrightarrow> list_all idle_event es \<Longrightarrow>
     \<exists>g'. glass_run cm dsync clk g es = Inr g' \<and> gl_tx g' = gl_tx g \<and> gl_screen g' = gl_screen g \<and>
       in_flight g' = [] \<and> open_requests g' = []"
proof (induction es arbitrary: g)
  case (Cons e es)
  have "\<exists>g'. glass_step cm dsync clk g e = Inr g' \<and> at_rest g' i s \<and> gl_tx g' = gl_tx g \<and>
      in_flight g' = [] \<and> gl_screen g' = gl_screen g"
  proof (cases e)
    case (Gl_deliver n)
    have "unread s = []" "m_socket s \<noteq> None" using Cons.prems(1) by (simp_all add: at_rest_def)
    then show ?thesis
      using deliver_quietly [OF Cons.prems(1), of dsync clk n s cm] feed_nothing [of s dsync clk] Cons.prems(2) Gl_deliver
      by (auto simp del: glass_step.simps)
  next
    case (Gl_paint extra)
    then show ?thesis using paint_quietly [OF Cons.prems(1), of extra cm dsync clk] Cons.prems(2,3)
      by (auto simp del: glass_step.simps)
  qed (use Cons.prems in auto)
  then obtain g' where g': "glass_step cm dsync clk g e = Inr g'" "at_rest g' i s" "gl_tx g' = gl_tx g" "in_flight g' = []"
    "gl_screen g' = gl_screen g" by blast
  with Cons.IH [of g'] Cons.prems(3) show ?case by simp
qed (simp add: at_rest_def)

text \<open>The frame has gone through the server, and nothing that happens in the middleware shows its pixels.\<close>

lemma early_frame_lost:
  assumes r: "at_rest g i s" and f: "comes_early clk s f" "in_flight g = enc_frame f" and es: "list_all idle_event es"
  shows "\<exists>g'. glass_run cm dsync clk g (Gl_deliver 32 # es) = Inr g' \<and> gl_tx g' = gl_tx g \<and>
    gl_screen g' = gl_screen g \<and> in_flight g' = [] \<and> open_requests g' = []"
proof -
  have s: "m_socket s \<noteq> None" "unread s = []" using r by (simp_all add: at_rest_def)
  have len: "length (enc_frame f) = 32" by (rule frame_codec.enc_size) simp
  obtain s' where s': "feed dsync clk s (take 32 (in_flight g)) = s'" "sv_signals s' = sv_signals s" "m_socket s' \<noteq> None"
    "unread s' = []" using feed_early [OF f(1) s, of dsync] len f(2) by auto
  obtain g1 where g1: "glass_step cm dsync clk g (Gl_deliver 32) = Inr g1" "at_rest g1 i s'" "gl_tx g1 = gl_tx g"
    "in_flight g1 = []" "gl_screen g1 = gl_screen g" using deliver_quietly [OF r s', of cm] len f(2) by auto
  show ?thesis using idle_run [OF g1(2,4) es, of cm dsync clk] g1 by simp
qed

end
