(* ===== verification/FbManagement.thy ===== *)
theory FbManagement
  imports FbController
begin

text \<open>
  The framebuffer manager of the middleware (\<open>src/middleware/extension/src/qtfb/fbmanagement.h\<close>,
  \<open>fbmanagement.cpp\<close>) and the calls of \<open>FBController.cpp\<close> into it: clients that share a backend
  (a shared memory with its image), the items that show one, the queue of calls the manager
  posts to the GUI thread, the global mutex. Connections, items and images are numbered in the
  order they are made; an item or a connection that is gone is absent from its map, and using it
  is the error \<open>Dangling\<close>.

  One event is one atomic step of one thread. The two places where a thread can wait while others
  run are explicit: a closing client that holds the mutex until the item is not mid-paint
  (\<open>closing\<close>), and the GUI thread that needs the mutex to forward input (\<open>gui_waits\<close>).
\<close>

section \<open>State\<close>

record backend =
  shmKey :: int
  shmType :: int
  shmSize :: int
  be_image :: fb_image
  be_connections :: "nat list"

record thread =
  fbKey :: int
  exiting :: bool

datatype queued = Q_associated nat int | Q_update nat "int \<times> int \<times> int \<times> int" | Q_refresh nat int | Q_full nat

record fbm =
  framebuffers :: "int \<rightharpoonup> nat"
  backends :: "int \<rightharpoonup> backend"
  threads :: "nat \<rightharpoonup> thread"
  controllers :: "nat \<rightharpoonup> controller"
  queue :: "queued list"
  closing :: "(nat \<times> nat option \<times> fb_image) option"
  gui_waits :: "(int \<times> user_input) option"
  deleted :: "nat list"
  next_conn :: nat
  next_ctl :: nat
  next_image :: nat
  sent :: "(nat \<times> server_msg) list"
  emitted :: "(nat \<times> fb_signal) list"

definition fbm_init :: fbm where
  "fbm_init = \<lparr>framebuffers = Map.empty, backends = Map.empty, threads = Map.empty,
     controllers = Map.empty, queue = [], closing = None, gui_waits = None, deleted = [],
     next_conn = 0, next_ctl = 0, next_image = 0, sent = [], emitted = []\<rparr>"

section \<open>Items\<close>

definition update_controller :: "nat \<Rightarrow> (controller \<Rightarrow> controller) \<Rightarrow> fbm \<Rightarrow> fbm" where
  "update_controller k f s =
     (case controllers s k of None \<Rightarrow> s | Some c \<Rightarrow> s\<lparr>controllers := (controllers s)(k \<mapsto> f c)\<rparr>)"

definition associateSHM :: "nat \<Rightarrow> fb_image option \<Rightarrow> fbm \<Rightarrow> fbm" where
  "associateSHM k im s =
     (case controllers s k of
        None \<Rightarrow> s
      | Some c \<Rightarrow> (update_controller k (\<lambda>c. c\<lparr>fb_image := im\<rparr>) s)
          \<lparr>queue := queue s @ [Q_associated k (framebufferID c)]\<rparr>)"

definition tryToMatchUp :: "int \<Rightarrow> fbm \<Rightarrow> fbm" where
  "tryToMatchUp key s =
     (case (backends s key, framebuffers s key) of
        (Some b, Some k) \<Rightarrow> associateSHM k (Some (be_image b)) s
      | _ \<Rightarrow> s)"

definition registerController :: "int \<Rightarrow> nat \<Rightarrow> fbm \<Rightarrow> fbm" where
  "registerController key k s =
     (if key = -1 then s
      else if framebuffers s key \<noteq> None then s
      else tryToMatchUp key (s\<lparr>framebuffers := (framebuffers s)(key \<mapsto> k)\<rparr>))"

definition unregisterController :: "int \<Rightarrow> fbm \<Rightarrow> fbm" where
  "unregisterController key s = s\<lparr>framebuffers := (framebuffers s)(key := None)\<rparr>"

definition isControllerAssociated :: "int \<Rightarrow> fbm \<Rightarrow> bool" where
  "isControllerAssociated key s \<longleftrightarrow> backends s key \<noteq> None"

definition setFramebufferID :: "nat \<Rightarrow> int \<Rightarrow> fbm \<Rightarrow> fbm" where
  "setFramebufferID k fbId s =
     (case controllers s k of
        None \<Rightarrow> s
      | Some c \<Rightarrow>
          let s1 = (if framebufferID c \<noteq> fbId then unregisterController (framebufferID c) s else s) in
          registerController fbId k (update_controller k (\<lambda>c. c\<lparr>framebufferID := fbId\<rparr>) s1))"

definition destroyController :: "nat \<Rightarrow> fbm \<Rightarrow> fbm" where
  "destroyController k s =
     (case controllers s k of
        None \<Rightarrow> s
      | Some c \<Rightarrow> let s1 = unregisterController (framebufferID c) s in
          s1\<lparr>controllers := (controllers s1)(k := None)\<rparr>)"

section \<open>Shared memory\<close>

record shm_io =
  sio_rand :: int
  sio_shm_open :: bool
  sio_ftruncate :: bool
  sio_mmap :: bool

definition bytes_of_type :: "int \<Rightarrow> int option" where
  "bytes_of_type t =
     (if t = 0 then Some 2
      else if t = 1 \<or> t = 4 then Some 3
      else if t = 2 \<or> t = 5 then Some 4
      else if t = 3 \<or> t = 6 then Some 2
      else None)"

text \<open>\<open>mmap\<close> refuses an empty mapping. \<open>i\<close> is the identity of the new image.\<close>

definition createSHM :: "shm_io \<Rightarrow> nat \<Rightarrow> int \<Rightarrow> int \<Rightarrow> int \<Rightarrow> backend option res" where
  "createSHM io i type width height =
     (case bytes_of_type type of
        None \<Rightarrow> Inr None
      | Some n \<Rightarrow>
          bindE (ckint (height * width)) (\<lambda>a.
          bindE (ckint (a * n)) (\<lambda>size.
          bindE (ckint (n * width)) (\<lambda>bpl.
            if \<not> sio_shm_open io \<or> \<not> sio_ftruncate io \<or> size = 0 \<or> \<not> sio_mmap io then Inr None
            else Inr (Some \<lparr>shmKey = sio_rand io AND 0x7FFFFFFF, shmType = type, shmSize = size,
                   be_image = \<lparr>img_id = i, img_w = width, img_h = height\<rparr>, be_connections = []\<rparr>)))))"

definition createDefaultSHM :: "shm_io \<Rightarrow> nat \<Rightarrow> int \<Rightarrow> backend option res" where
  "createDefaultSHM io i type =
     (if type = 0 then createSHM io i type RM2_WIDTH RM2_HEIGHT
      else if type \<in> {1, 2, 3} then createSHM io i type RMPP_WIDTH RMPP_HEIGHT
      else if type \<in> {4, 5, 6} then createSHM io i type RMPPM_WIDTH RMPPM_HEIGHT
      else createSHM io i type (-1) (-1))"

section \<open>Messages\<close>

definition fb_send :: "nat \<Rightarrow> server_msg \<Rightarrow> fbm \<Rightarrow> fbm" where
  "fb_send c m s = s\<lparr>sent := sent s @ [(c, m)]\<rparr>"

definition set_thread :: "nat \<Rightarrow> (thread \<Rightarrow> thread) \<Rightarrow> fbm \<Rightarrow> fbm" where
  "set_thread c f s = (case threads s c of None \<Rightarrow> s | Some t \<Rightarrow> s\<lparr>threads := (threads s)(c \<mapsto> f t)\<rparr>)"

text \<open>\<open>custom\<close> is the size of a custom initialization. The result says whether it went well.\<close>

definition handleInitialize ::
  "shm_io \<Rightarrow> nat \<Rightarrow> int \<Rightarrow> nat \<Rightarrow> (nat \<times> nat) option \<Rightarrow> fbm \<Rightarrow> (bool \<times> fbm) res" where
  "handleInitialize io c key type custom s0 =
     (let s = set_thread c (\<lambda>t. t\<lparr>fbKey := key\<rparr>) s0 in
      case backends s key of
        Some b \<Rightarrow>
          if shmType b \<noteq> int type then Inr (False, s)
          else if (case custom of None \<Rightarrow> False
                   | Some (w, h) \<Rightarrow> img_w (be_image b) \<noteq> int w \<or> img_h (be_image b) \<noteq> int h) then Inr (False, s)
          else Inr (True, (fb_send c (Init_response (shmKey b) (shmSize b)) s)
                 \<lparr>backends := (backends s)(key \<mapsto> b\<lparr>be_connections := be_connections b @ [c]\<rparr>)\<rparr>)
      | None \<Rightarrow>
          bindE (case custom of
                   Some (w, h) \<Rightarrow> createSHM io (next_image s) (int type) (int w) (int h)
                 | None \<Rightarrow> createDefaultSHM io (next_image s) (int type)) (\<lambda>r.
          case r of
            None \<Rightarrow> Inr (False, s)
          | Some b \<Rightarrow>
              Inr (True, tryToMatchUp key ((fb_send c (Init_response (shmKey b) (shmSize b)) s)
                \<lparr>backends := (backends s)(key \<mapsto> b\<lparr>be_connections := [c]\<rparr>),
                 next_image := next_image s + 1\<rparr>))))"

definition post :: "queued list \<Rightarrow> fbm \<Rightarrow> fbm" where
  "post q s = s\<lparr>queue := queue s @ q\<rparr>"

definition handleUpdateRegion :: "nat \<Rightarrow> int \<Rightarrow> int \<times> int \<times> int \<times> int \<Rightarrow> fbm \<Rightarrow> bool \<times> fbm" where
  "handleUpdateRegion k type rect s =
     (True, if type = UPDATE_ALL then post [Q_update k (0, 0, 0, 0)] s
            else if type = UPDATE_PARTIAL then post [Q_update k rect] s else s)"

definition invokeOnConnectedFramebuffer :: "nat \<Rightarrow> (nat \<Rightarrow> fbm \<Rightarrow> bool \<times> fbm) \<Rightarrow> fbm \<Rightarrow> bool \<times> fbm" where
  "invokeOnConnectedFramebuffer c consumer s =
     (case threads s c of
        None \<Rightarrow> (False, s)
      | Some t \<Rightarrow>
          if fbKey t = -1 then (False, s)
          else case framebuffers s (fbKey t) of
                 None \<Rightarrow> (True, s)
               | Some k \<Rightarrow> if controllers s k = None then (True, s) else consumer k s)"

text \<open>One pass of a client's loop; an error or the wish to end makes the thread exit its loop.\<close>

definition client_message :: "shm_io \<Rightarrow> nat \<Rightarrow> client_msg \<Rightarrow> fbm \<Rightarrow> fbm res" where
  "client_message io c m s =
     bindE (case m of
        Init key type \<Rightarrow> handleInitialize io c key type None s
      | Custom_init key type w h \<Rightarrow> handleInitialize io c key type (Some (w, h)) s
      | Update_region type x y w h \<Rightarrow>
          Inr (invokeOnConnectedFramebuffer c (\<lambda>k. handleUpdateRegion k type (x, y, w, h)) s)
      | Terminate \<Rightarrow> Inr (False, s)
      | Set_refresh_mode refresh \<Rightarrow>
          Inr (invokeOnConnectedFramebuffer c (\<lambda>k s.
            if refresh > 4 \<or> refresh < 0 then (False, s) else (True, post [Q_refresh k refresh] s)) s)
      | Request_full_refresh \<Rightarrow>
          Inr (invokeOnConnectedFramebuffer c (\<lambda>k s. (True, post [Q_full k] s)) s)
      | Other t \<Rightarrow> Inr (False, s)) (\<lambda>(ok, s').
     Inr (if ok then s' else set_thread c (\<lambda>t. t\<lparr>exiting := True\<rparr>) s'))"

section \<open>Closing a connection\<close>

text \<open>
  With the mutex: the connection leaves its backend, and a backend without connections leaves
  the map. \<open>close_begin\<close> then waits in \<open>closing\<close> if an item may be painting the image.
\<close>

definition end_thread :: "nat \<Rightarrow> fbm \<Rightarrow> fbm" where
  "end_thread c s = s\<lparr>threads := (threads s)(c := None)\<rparr>"

definition close_begin :: "nat \<Rightarrow> fbm \<Rightarrow> fbm" where
  "close_begin c s =
     (case threads s c of
        None \<Rightarrow> s
      | Some t \<Rightarrow>
          (case (if fbKey t \<noteq> -1 then backends s (fbKey t) else None) of
             None \<Rightarrow> end_thread c s
           | Some b \<Rightarrow>
               let rest = remove1 c (be_connections b) in
               if rest \<noteq> []
               then end_thread c (s\<lparr>backends := (backends s)(fbKey t \<mapsto> b\<lparr>be_connections := rest\<rparr>)\<rparr>)
               else s\<lparr>backends := (backends s)(fbKey t := None),
                      closing := Some (c, framebuffers s (fbKey t), be_image b)\<rparr>))"

text \<open>The wait is over when there is no item, or it is gone, or it is not mid-paint.\<close>

definition close_end :: "nat \<Rightarrow> fb_image \<Rightarrow> fbm \<Rightarrow> fbm" where
  "close_end c im s = end_thread c (s\<lparr>closing := None, deleted := deleted s @ [img_id im]\<rparr>)"

definition close_poll :: "fbm \<Rightarrow> fbm" where
  "close_poll s =
     (case closing s of
        None \<Rightarrow> s
      | Some (c, None, im) \<Rightarrow> close_end c im s
      | Some (c, Some k, im) \<Rightarrow>
          (case controllers s k of
             None \<Rightarrow> close_end c im s
           | Some ct \<Rightarrow> if isMidPaint ct then s else close_end c im (associateSHM k None s)))"

section \<open>The GUI thread\<close>

fun forward_all :: "user_input \<Rightarrow> nat list \<Rightarrow> fbm \<Rightarrow> fbm res" where
  "forward_all i [] s = Inr s"
| "forward_all i (c # cs) s =
     (if threads s c = None then Inl (Undefined Dangling)
      else forward_all i cs (fb_send c (User_input i) s))"

definition forwardUserInput :: "int \<Rightarrow> user_input \<Rightarrow> fbm \<Rightarrow> fbm res" where
  "forwardUserInput key i s =
     (if closing s \<noteq> None then Inr (s\<lparr>gui_waits := Some (key, i)\<rparr>)
      else case backends s key of
             None \<Rightarrow> Inr s
           | Some b \<Rightarrow> forward_all i (be_connections b) s)"

definition image_deleted :: "controller \<Rightarrow> fbm \<Rightarrow> bool" where
  "image_deleted c s \<longleftrightarrow> (case fb_image c of None \<Rightarrow> False | Some im \<Rightarrow> img_id im \<in> set (deleted s))"

text \<open>An update of an item reads its image when it scales; \<open>sz\<close> gives the size of each item.\<close>

definition item_update ::
  "(nat \<Rightarrow> rat \<times> rat) \<Rightarrow> nat \<Rightarrow> (controller \<Rightarrow> (controller \<times> fb_signal list) res) \<Rightarrow> fbm \<Rightarrow> fbm res" where
  "item_update sz k f s =
     (case controllers s k of
        None \<Rightarrow> Inr s
      | Some c \<Rightarrow>
          if allowScaling c \<and> image_deleted c s then Inl (Undefined Dangling)
          else bindE (f c) (\<lambda>(c', g).
            Inr (s\<lparr>controllers := (controllers s)(k \<mapsto> c'), emitted := emitted s @ map (Pair k) g\<rparr>)))"

fun run_queued :: "(nat \<Rightarrow> rat \<times> rat) \<Rightarrow> queued \<Rightarrow> fbm \<Rightarrow> fbm res" where
  "run_queued sz (Q_associated k key) s =
     (if \<not> isControllerAssociated key s
      then let s1 = update_controller k (\<lambda>c. c\<lparr>fb_image := None\<rparr>) s in
           item_update sz k (setActive (fst (sz k)) (snd (sz k)) False) s1
      else item_update sz k (\<lambda>c. setActive (fst (sz k)) (snd (sz k)) (fb_image c \<noteq> None) c) s)"
| "run_queued sz (Q_update k rect) s = item_update sz k (markedUpdate (fst (sz k)) (snd (sz k)) rect) s"
| "run_queued sz (Q_refresh k m) s =
     (case controllers s k of
        None \<Rightarrow> Inr s
      | Some c \<Rightarrow> (case setRefreshMode m c of (c', g) \<Rightarrow>
          Inr (s\<lparr>controllers := (controllers s)(k \<mapsto> c'), emitted := emitted s @ map (Pair k) g\<rparr>)))"
| "run_queued sz (Q_full k) s =
     (if controllers s k = None then Inr s else Inr (s\<lparr>emitted := emitted s @ [(k, RequestFullRefresh)]\<rparr>))"

definition paint_item :: "nat \<Rightarrow> fbm \<Rightarrow> fbm res" where
  "paint_item k s =
     (case controllers s k of
        None \<Rightarrow> Inr s
      | Some c \<Rightarrow>
          if active c \<and> image_deleted c s then Inl (Undefined Dangling)
          else Inr (s\<lparr>controllers := (controllers s)(k \<mapsto> fst (paint c))\<rparr>))"

section \<open>The machine\<close>

datatype fb_event =
    Ev_accept
  | Ev_message nat shm_io client_msg
  | Ev_hangup nat
  | Ev_close nat
  | Ev_poll
  | Ev_new_item bool
  | Ev_set_id nat int
  | Ev_set_scaling nat bool
  | Ev_destroy nat
  | Ev_queue
  | Ev_paint nat
  | Ev_input nat user_input
  | Ev_resume

fun fb_step :: "(nat \<Rightarrow> rat \<times> rat) \<Rightarrow> fb_event \<Rightarrow> fbm \<Rightarrow> fbm res" where
  "fb_step sz Ev_accept s =
     Inr (s\<lparr>threads := (threads s)(next_conn s \<mapsto> \<lparr>fbKey = -1, exiting = False\<rparr>),
            next_conn := next_conn s + 1\<rparr>)"
| "fb_step sz (Ev_message c io m) s = client_message io c m s"
| "fb_step sz (Ev_hangup c) s = Inr (set_thread c (\<lambda>t. t\<lparr>exiting := True\<rparr>) s)"
| "fb_step sz (Ev_close c) s = Inr (close_begin c s)"
| "fb_step sz Ev_poll s = Inr (close_poll s)"
| "fb_step sz (Ev_new_item mid) s =
     Inr (s\<lparr>controllers := (controllers s)(next_ctl s \<mapsto> controller_new mid), next_ctl := next_ctl s + 1\<rparr>)"
| "fb_step sz (Ev_set_id k key) s = Inr (setFramebufferID k key s)"
| "fb_step sz (Ev_set_scaling k a) s = Inr (update_controller k (setAllowScaling a) s)"
| "fb_step sz (Ev_destroy k) s = Inr (destroyController k s)"
| "fb_step sz Ev_queue s =
     (case queue s of [] \<Rightarrow> Inr s | q # qs \<Rightarrow> run_queued sz q (s\<lparr>queue := qs\<rparr>))"
| "fb_step sz (Ev_paint k) s = paint_item k s"
| "fb_step sz (Ev_input k i) s =
     (case controllers s k of
        None \<Rightarrow> Inr s
      | Some c \<Rightarrow> if framebufferID c \<noteq> -1 then forwardUserInput (framebufferID c) i s else Inr s)"
| "fb_step sz Ev_resume s =
     (case gui_waits s of None \<Rightarrow> Inr s | Some (key, i) \<Rightarrow> forwardUserInput key i (s\<lparr>gui_waits := None\<rparr>))"

text \<open>
  Who can run when: a thread that holds the mutex keeps others from taking it, and the GUI
  thread does nothing else while it waits for it.
\<close>

fun is_init :: "client_msg \<Rightarrow> bool" where
  "is_init (Init key type) = True"
| "is_init (Custom_init key type w h) = True"
| "is_init _ = False"

fun fb_enabled :: "fbm \<Rightarrow> fb_event \<Rightarrow> bool" where
  "fb_enabled s Ev_accept \<longleftrightarrow> True"
| "fb_enabled s (Ev_message c io m) \<longleftrightarrow>
     (\<exists>t. threads s c = Some t \<and> \<not> exiting t) \<and> (is_init m \<longrightarrow> closing s = None)"
| "fb_enabled s (Ev_hangup c) \<longleftrightarrow> (\<exists>t. threads s c = Some t \<and> \<not> exiting t)"
| "fb_enabled s (Ev_close c) \<longleftrightarrow> (\<exists>t. threads s c = Some t \<and> exiting t) \<and> closing s = None"
| "fb_enabled s Ev_poll \<longleftrightarrow> closing s \<noteq> None"
| "fb_enabled s Ev_resume \<longleftrightarrow> gui_waits s \<noteq> None \<and> closing s = None"
| "fb_enabled s e \<longleftrightarrow> gui_waits s = None"

end
