(* ===== verification/FbSafety.thy ===== *)
theory FbSafety
  imports FbManagement
begin

text \<open>
  What keeps the framebuffer manager safe, and where it is not. If every client initializes at
  most once, with a key other than -1, and every item is given one identifier that no other
  item has, then no connection and no image is used after it is gone, whatever the threads do
  and in whatever order (\<open>fb_step_defined\<close>). Both conditions are needed: concrete runs break the
  conclusion without them. Independently of them the manager can deadlock.
\<close>

section \<open>The invariant\<close>

text \<open>What the invariant sees of an item.\<close>

definition item :: "fbm \<Rightarrow> nat \<Rightarrow> (int \<times> fb_image option) option" where
  "item s k = map_option (\<lambda>c. (framebufferID c, fb_image c)) (controllers s k)"

lemma item_fields [simp]:
  "item (s\<lparr>framebuffers := v0\<rparr>) = item s"
  "item (s\<lparr>backends := v1\<rparr>) = item s"
  "item (s\<lparr>threads := v2\<rparr>) = item s"
  "item (s\<lparr>queue := v3\<rparr>) = item s"
  "item (s\<lparr>closing := v4\<rparr>) = item s"
  "item (s\<lparr>gui_waits := v5\<rparr>) = item s"
  "item (s\<lparr>deleted := v6\<rparr>) = item s"
  "item (s\<lparr>next_conn := v7\<rparr>) = item s"
  "item (s\<lparr>next_ctl := v8\<rparr>) = item s"
  "item (s\<lparr>next_image := v9\<rparr>) = item s"
  "item (s\<lparr>sent := v10\<rparr>) = item s"
  "item (s\<lparr>emitted := v11\<rparr>) = item s"
  by (simp_all add: item_def fun_eq_iff)

text \<open>What it sees of a connection: its key while its thread runs.\<close>

definition conn_key :: "fbm \<Rightarrow> nat \<Rightarrow> int option" where
  "conn_key s c = map_option fbKey (threads s c)"

lemma conn_key_fields [simp]:
  "conn_key (s\<lparr>framebuffers := v0\<rparr>) = conn_key s"
  "conn_key (s\<lparr>backends := v1\<rparr>) = conn_key s"
  "conn_key (s\<lparr>controllers := v2\<rparr>) = conn_key s"
  "conn_key (s\<lparr>queue := v3\<rparr>) = conn_key s"
  "conn_key (s\<lparr>closing := v4\<rparr>) = conn_key s"
  "conn_key (s\<lparr>gui_waits := v5\<rparr>) = conn_key s"
  "conn_key (s\<lparr>deleted := v6\<rparr>) = conn_key s"
  "conn_key (s\<lparr>next_conn := v7\<rparr>) = conn_key s"
  "conn_key (s\<lparr>next_ctl := v8\<rparr>) = conn_key s"
  "conn_key (s\<lparr>next_image := v9\<rparr>) = conn_key s"
  "conn_key (s\<lparr>sent := v10\<rparr>) = conn_key s"
  "conn_key (s\<lparr>emitted := v11\<rparr>) = conn_key s"
  by (simp_all add: conn_key_def fun_eq_iff)

lemma conn_key_None: "conn_key s c = None \<longleftrightarrow> threads s c = None"
  by (simp add: conn_key_def)

definition conns_ok :: "fbm \<Rightarrow> bool" where
  "conns_ok s \<longleftrightarrow>
     (\<forall>key b. backends s key = Some b \<longrightarrow> key \<noteq> -1 \<and> distinct (be_connections b) \<and>
        (\<forall>c \<in> set (be_connections b). conn_key s c = Some key)) \<and>
     (\<forall>c ko im. closing s = Some (c, ko, im) \<longrightarrow>
        (\<forall>key b. backends s key = Some b \<longrightarrow> c \<notin> set (be_connections b))) \<and>
     (\<forall>c \<ge> next_conn s. conn_key s c = None)"

definition images_ok :: "fbm \<Rightarrow> bool" where
  "images_ok s \<longleftrightarrow>
     (\<forall>key b. backends s key = Some b \<longrightarrow>
        img_id (be_image b) < next_image s \<and> img_id (be_image b) \<notin> set (deleted s)) \<and>
     (\<forall>key b key' b'. backends s key = Some b \<and> backends s key' = Some b' \<and>
        img_id (be_image b) = img_id (be_image b') \<longrightarrow> key = key') \<and>
     (\<forall>i \<in> set (deleted s). i < next_image s) \<and>
     (\<forall>c ko im. closing s = Some (c, ko, im) \<longrightarrow> img_id im < next_image s \<and> img_id im \<notin> set (deleted s) \<and>
        (\<forall>key b. backends s key = Some b \<longrightarrow> img_id (be_image b) \<noteq> img_id im))"

definition items_ok :: "fbm \<Rightarrow> bool" where
  "items_ok s \<longleftrightarrow>
     (\<forall>k key imo. item s k = Some (key, imo) \<longrightarrow>
        k < next_ctl s \<and> (key \<noteq> -1 \<longrightarrow> framebuffers s key = Some k) \<and>
        (\<forall>im. imo = Some im \<longrightarrow> key \<noteq> -1 \<and>
           ((\<exists>b. backends s key = Some b \<and> be_image b = im) \<or> (\<exists>c. closing s = Some (c, Some k, im))))) \<and>
     (\<forall>key k. framebuffers s key = Some k \<longrightarrow> key \<noteq> -1 \<and> (\<exists>imo. item s k = Some (key, imo)))"

definition fb_inv :: "fbm \<Rightarrow> bool" where
  "fb_inv s \<longleftrightarrow> conns_ok s \<and> images_ok s \<and> items_ok s"

lemma fb_invD: "fb_inv s \<Longrightarrow> conns_ok s" "fb_inv s \<Longrightarrow> images_ok s" "fb_inv s \<Longrightarrow> items_ok s"
  by (simp_all add: fb_inv_def)

text \<open>The rest of the state does not matter.\<close>

lemma conns_ok_cong:
  "conns_ok s \<Longrightarrow> backends s' = backends s \<Longrightarrow> conn_key s' = conn_key s \<Longrightarrow> closing s' = closing s \<Longrightarrow>
   next_conn s' = next_conn s \<Longrightarrow> conns_ok s'"
  by (simp only: conns_ok_def)

lemma images_ok_cong:
  "images_ok s \<Longrightarrow> backends s' = backends s \<Longrightarrow> next_image s' = next_image s \<Longrightarrow>
   closing s' = closing s \<Longrightarrow> deleted s' = deleted s \<Longrightarrow> images_ok s'"
  by (simp only: images_ok_def)

lemma items_ok_cong:
  "items_ok s \<Longrightarrow> backends s' = backends s \<Longrightarrow> item s' = item s \<Longrightarrow> closing s' = closing s \<Longrightarrow>
   framebuffers s' = framebuffers s \<Longrightarrow> next_ctl s' = next_ctl s \<Longrightarrow> items_ok s'"
  by (simp only: items_ok_def)

lemma fb_inv_cong:
  assumes "fb_inv s" "backends s' = backends s" "conn_key s' = conn_key s"
    "item s' = item s" "framebuffers s' = framebuffers s" "closing s' = closing s" "deleted s' = deleted s"
    "next_conn s' = next_conn s" "next_ctl s' = next_ctl s" "next_image s' = next_image s"
  shows "fb_inv s'"
  using fb_invD [OF assms(1)] assms(2-) conns_ok_cong [of s s'] images_ok_cong [of s s'] items_ok_cong [of s s']
  by (simp add: fb_inv_def)

text \<open>Elimination and introduction of its parts.\<close>

lemma conns_okD:
  assumes "conns_ok s"
  shows "backends s key = Some b \<Longrightarrow> key \<noteq> -1"
    and "backends s key = Some b \<Longrightarrow> distinct (be_connections b)"
    and "backends s key = Some b \<Longrightarrow> c \<in> set (be_connections b) \<Longrightarrow> conn_key s c = Some key"
    and "closing s = Some (c, ko, im) \<Longrightarrow> backends s key = Some b \<Longrightarrow> c \<notin> set (be_connections b)"
    and "next_conn s \<le> c \<Longrightarrow> conn_key s c = None"
  using assms unfolding conns_ok_def by blast+

lemma conns_okI:
  assumes "\<And>key b. backends s key = Some b \<Longrightarrow> key \<noteq> -1"
    and "\<And>key b. backends s key = Some b \<Longrightarrow> distinct (be_connections b)"
    and "\<And>key b c. backends s key = Some b \<Longrightarrow> c \<in> set (be_connections b) \<Longrightarrow> conn_key s c = Some key"
    and "\<And>key b c ko im. closing s = Some (c, ko, im) \<Longrightarrow> backends s key = Some b \<Longrightarrow> c \<notin> set (be_connections b)"
    and "\<And>c. next_conn s \<le> c \<Longrightarrow> conn_key s c = None"
  shows "conns_ok s"
  using assms unfolding conns_ok_def by blast

lemma images_okD:
  assumes "images_ok s"
  shows "backends s key = Some b \<Longrightarrow> img_id (be_image b) < next_image s"
    and "backends s key = Some b \<Longrightarrow> img_id (be_image b) \<notin> set (deleted s)"
    and "backends s key = Some b \<Longrightarrow> backends s key' = Some b' \<Longrightarrow>
      img_id (be_image b) = img_id (be_image b') \<Longrightarrow> key = key'"
    and "i \<in> set (deleted s) \<Longrightarrow> i < next_image s"
    and "closing s = Some (c, ko, im) \<Longrightarrow> img_id im < next_image s"
    and "closing s = Some (c, ko, im) \<Longrightarrow> img_id im \<notin> set (deleted s)"
    and "closing s = Some (c, ko, im) \<Longrightarrow> backends s key = Some b \<Longrightarrow> img_id (be_image b) \<noteq> img_id im"
  using assms unfolding images_ok_def by blast+

lemma images_okI:
  assumes "\<And>key b. backends s key = Some b \<Longrightarrow> img_id (be_image b) < next_image s"
    and "\<And>key b. backends s key = Some b \<Longrightarrow> img_id (be_image b) \<notin> set (deleted s)"
    and "\<And>key b key' b'. backends s key = Some b \<Longrightarrow> backends s key' = Some b' \<Longrightarrow>
      img_id (be_image b) = img_id (be_image b') \<Longrightarrow> key = key'"
    and "\<And>i. i \<in> set (deleted s) \<Longrightarrow> i < next_image s"
    and "\<And>c ko im. closing s = Some (c, ko, im) \<Longrightarrow> img_id im < next_image s"
    and "\<And>c ko im. closing s = Some (c, ko, im) \<Longrightarrow> img_id im \<notin> set (deleted s)"
    and "\<And>c ko im key b. closing s = Some (c, ko, im) \<Longrightarrow> backends s key = Some b \<Longrightarrow> img_id (be_image b) \<noteq> img_id im"
  shows "images_ok s"
  using assms unfolding images_ok_def by blast

lemma items_okD:
  assumes "items_ok s"
  shows "item s k = Some (key, imo) \<Longrightarrow> k < next_ctl s"
    and "item s k = Some (key, imo) \<Longrightarrow> key \<noteq> -1 \<Longrightarrow> framebuffers s key = Some k"
    and "item s k = Some (key, Some im) \<Longrightarrow> key \<noteq> -1"
    and "item s k = Some (key, Some im) \<Longrightarrow>
      (\<exists>b. backends s key = Some b \<and> be_image b = im) \<or> (\<exists>c. closing s = Some (c, Some k, im))"
    and "framebuffers s key = Some k \<Longrightarrow> key \<noteq> -1"
    and "framebuffers s key = Some k \<Longrightarrow> \<exists>imo. item s k = Some (key, imo)"
  using assms unfolding items_ok_def by blast+

lemma items_okI:
  assumes "\<And>k key imo. item s k = Some (key, imo) \<Longrightarrow> k < next_ctl s"
    and "\<And>k key imo. item s k = Some (key, imo) \<Longrightarrow> key \<noteq> -1 \<Longrightarrow> framebuffers s key = Some k"
    and "\<And>k key im. item s k = Some (key, Some im) \<Longrightarrow> key \<noteq> -1"
    and "\<And>k key im. item s k = Some (key, Some im) \<Longrightarrow>
      (\<exists>b. backends s key = Some b \<and> be_image b = im) \<or> (\<exists>c. closing s = Some (c, Some k, im))"
    and "\<And>k key. framebuffers s key = Some k \<Longrightarrow> key \<noteq> -1"
    and "\<And>k key. framebuffers s key = Some k \<Longrightarrow> \<exists>imo. item s k = Some (key, imo)"
  shows "items_ok s"
  using assms unfolding items_ok_def by blast

definition single_use :: "fbm \<Rightarrow> fb_event \<Rightarrow> bool" where
  "single_use s e \<longleftrightarrow>
     (case e of
        Ev_message c io (Init key type) \<Rightarrow> conn_key s c = Some (-1) \<and> key \<noteq> -1
      | Ev_message c io (Custom_init key type w h) \<Rightarrow>
          conn_key s c = Some (-1) \<and> key \<noteq> -1 \<and> int w * int h * 4 \<le> INT_MAX \<and> int w * 4 \<le> INT_MAX
      | Ev_set_id k key \<Rightarrow> map_option fst (item s k) = Some (-1) \<and> key \<noteq> -1 \<and> framebuffers s key = None
      | _ \<Rightarrow> True)"

section \<open>Preservation\<close>

lemma item_update_controller:
  "item (update_controller k f s) k' =
     (if k' = k then map_option (\<lambda>c. (framebufferID (f c), fb_image (f c))) (controllers s k) else item s k')"
  by (auto simp: item_def update_controller_def split: option.splits)

lemma update_controller_fields [simp]:
  "backends (update_controller k f s) = backends s" "threads (update_controller k f s) = threads s"
  "framebuffers (update_controller k f s) = framebuffers s" "closing (update_controller k f s) = closing s"
  "deleted (update_controller k f s) = deleted s" "next_conn (update_controller k f s) = next_conn s"
  "next_ctl (update_controller k f s) = next_ctl s" "next_image (update_controller k f s) = next_image s"
  "queue (update_controller k f s) = queue s" "gui_waits (update_controller k f s) = gui_waits s"
  by (simp_all add: update_controller_def split: option.splits)

lemma associateSHM_fields [simp]:
  "backends (associateSHM k im s) = backends s" "threads (associateSHM k im s) = threads s"
  "framebuffers (associateSHM k im s) = framebuffers s" "closing (associateSHM k im s) = closing s"
  "deleted (associateSHM k im s) = deleted s" "next_conn (associateSHM k im s) = next_conn s"
  "next_ctl (associateSHM k im s) = next_ctl s" "next_image (associateSHM k im s) = next_image s"
  by (simp_all add: associateSHM_def split: option.splits)

lemma item_associateSHM:
  "item (associateSHM k im s) k' =
     (if k' = k then map_option (\<lambda>(key, _). (key, im)) (item s k) else item s k')"
  by (auto simp: item_def associateSHM_def update_controller_def split: option.splits)

lemma set_thread_fields [simp]:
  "backends (set_thread c f s) = backends s" "item (set_thread c f s) = item s"
  "framebuffers (set_thread c f s) = framebuffers s" "closing (set_thread c f s) = closing s"
  "deleted (set_thread c f s) = deleted s" "next_conn (set_thread c f s) = next_conn s"
  "next_ctl (set_thread c f s) = next_ctl s" "next_image (set_thread c f s) = next_image s"
  "controllers (set_thread c f s) = controllers s"
  by (simp_all add: set_thread_def item_def fun_eq_iff split: option.splits)

lemma threads_set_thread:
  "threads (set_thread c f s) c' = (if c' = c then map_option f (threads s c) else threads s c')"
  by (simp add: set_thread_def split: option.splits)

lemma conn_key_set_thread:
  "conn_key (set_thread c f s) c' = (if c' = c then map_option (\<lambda>t. fbKey (f t)) (threads s c) else conn_key s c')"
  by (auto simp: conn_key_def threads_set_thread option.map_comp comp_def)

lemma fb_inv_set_exiting: "fb_inv s \<Longrightarrow> fb_inv (set_thread c (\<lambda>t. t\<lparr>exiting := True\<rparr>) s)"
  by (rule fb_inv_cong [of s]) (auto simp: fun_eq_iff conn_key_set_thread, simp add: conn_key_def)

text \<open>An initialization, for a thread whose key is still -1.\<close>

lemma fb_inv_set_key:
  assumes inv: "fb_inv s" and c: "conn_key s c = Some (-1)"
  shows "fb_inv (set_thread c (\<lambda>t. t\<lparr>fbKey := key\<rparr>) s)"
proof -
  note C = conns_okD [OF fb_invD(1) [OF inv]]
  have n: "c \<notin> set (be_connections b)" if "backends s key' = Some b" for key' b
    using C(1,3) [OF that] c by fastforce
  have "conns_ok (set_thread c (\<lambda>t. t\<lparr>fbKey := key\<rparr>) s)"
  proof (rule conns_okI; simp only: set_thread_fields)
    show "conn_key (set_thread c (\<lambda>t. t\<lparr>fbKey := key\<rparr>) s) c' = Some key'"
      if "backends s key' = Some b" "c' \<in> set (be_connections b)" for key' b c'
      using C(3) [OF that] n [OF that(1)] that(2) by (auto simp: conn_key_set_thread)
    show "conn_key (set_thread c (\<lambda>t. t\<lparr>fbKey := key\<rparr>) s) c' = None" if "next_conn s \<le> c'" for c'
      using C(5) [OF that] c by (auto simp: conn_key_set_thread)
  qed (fact C)+
  moreover have "images_ok (set_thread c (\<lambda>t. t\<lparr>fbKey := key\<rparr>) s)" "items_ok (set_thread c (\<lambda>t. t\<lparr>fbKey := key\<rparr>) s)"
    by (rule images_ok_cong [OF fb_invD(2) [OF inv]] items_ok_cong [OF fb_invD(3) [OF inv]]; simp)+
  ultimately show ?thesis by (simp add: fb_inv_def)
qed

lemma createSHM_result:
  "createSHM io i type w h = Inr (Some b) \<Longrightarrow>
     be_image b = \<lparr>img_id = i, img_w = w, img_h = h\<rparr> \<and> be_connections b = []"
  by (auto simp: createSHM_def res_simps split: option.splits if_splits)

lemma createDefaultSHM_result:
  "createDefaultSHM io i type = Inr (Some b) \<Longrightarrow> img_id (be_image b) = i \<and> be_connections b = []"
  by (auto simp: createDefaultSHM_def dest!: createSHM_result split: if_splits)

text \<open>A new backend under a free key.\<close>

text \<open>An item is given an image of its own backend, or loses its image.\<close>

lemma item_associateD:
  "item (associateSHM k im s) k' = Some (key, imo) \<Longrightarrow>
     (k' = k \<and> imo = im \<and> (\<exists>o'. item s k = Some (key, o'))) \<or> (k' \<noteq> k \<and> item s k' = Some (key, imo))"
  by (auto simp: item_associateSHM split: if_splits)

lemma item_associate_ex:
  "item s k' = Some (key, imo) \<Longrightarrow> \<exists>o'. item (associateSHM k im s) k' = Some (key, o')"
  by (auto simp: item_associateSHM)

lemma items_ok_associate:
  assumes ok: "items_ok s" and im: "\<And>key o' i. item s k = Some (key, o') \<Longrightarrow> im = Some i \<Longrightarrow>
      key \<noteq> -1 \<and> (\<exists>b. backends s key = Some b \<and> be_image b = i)"
  shows "items_ok (associateSHM k im s)"
proof (rule items_okI)
  note T = items_okD [OF ok]
  fix k' key imo assume i: "item (associateSHM k im s) k' = Some (key, imo)"
  from item_associateD [OF this] obtain o' where o: "item s k' = Some (key, o')"
    "(k' = k \<and> imo = im) \<or> (k' \<noteq> k \<and> o' = imo)" by blast
  show "k' < next_ctl (associateSHM k im s)" using T(1) [OF o(1)] by simp
  show "key \<noteq> -1 \<Longrightarrow> framebuffers (associateSHM k im s) key = Some k'" using T(2) [OF o(1)] by simp
next
  note T = items_okD [OF ok]
  fix k' key i assume "item (associateSHM k im s) k' = Some (key, Some i)"
  from item_associateD [OF this] im T(3,4)
  show "key \<noteq> -1" "(\<exists>b. backends (associateSHM k im s) key = Some b \<and> be_image b = i) \<or>
      (\<exists>c. closing (associateSHM k im s) = Some (c, Some k', i))" by (simp_all, blast+)
next
  note T = items_okD [OF ok]
  fix k' key assume "framebuffers (associateSHM k im s) key = Some k'"
  with T(5,6) item_associate_ex show "key \<noteq> -1" "\<exists>imo. item (associateSHM k im s) k' = Some (key, imo)"
    by (simp_all, blast)
qed

lemma conn_key_associate [simp]: "conn_key (associateSHM k im s) = conn_key s"
  by (simp add: conn_key_def fun_eq_iff)

lemma fb_inv_associate:
  assumes "fb_inv s" "\<And>key o' i. item s k = Some (key, o') \<Longrightarrow> im = Some i \<Longrightarrow>
      key \<noteq> -1 \<and> (\<exists>b. backends s key = Some b \<and> be_image b = i)"
  shows "fb_inv (associateSHM k im s)"
proof -
  have "items_ok (associateSHM k im s)"
    by (rule items_ok_associate [OF fb_invD(3) [OF assms(1)]]) (use assms(2) in blast)
  moreover have "conns_ok (associateSHM k im s)" "images_ok (associateSHM k im s)"
    by (rule conns_ok_cong [OF fb_invD(1) [OF assms(1)]] images_ok_cong [OF fb_invD(2) [OF assms(1)]]; simp)+
  ultimately show ?thesis by (simp add: fb_inv_def)
qed

text \<open>Matching a backend with its item keeps the invariant.\<close>

lemma fb_inv_match:
  assumes "fb_inv s"
  shows "fb_inv (tryToMatchUp key s)"
proof (cases "backends s key")
  case (Some b)
  note T = items_okD [OF fb_invD(3) [OF assms]]
  show ?thesis
  proof (cases "framebuffers s key")
    case fk: (Some k)
    have "fb_inv (associateSHM k (Some (be_image b)) s)"
      by (rule fb_inv_associate [OF assms]) (use T(5,6) [OF fk] Some in auto)
    then show ?thesis using Some fk by (simp add: tryToMatchUp_def)
  qed (use Some assms in \<open>simp add: tryToMatchUp_def\<close>)
qed (use assms in \<open>simp add: tryToMatchUp_def\<close>)

lemma fb_inv_new_backend:
  assumes inv: "fb_inv s" and key: "key \<noteq> -1" "backends s key = None" "closing s = None"
    and b: "img_id (be_image b) = next_image s" "be_connections b = [c]" "conn_key s c = Some key"
  shows "fb_inv (s\<lparr>sent := o', backends := (backends s)(key \<mapsto> b), next_image := next_image s + 1\<rparr>)"
    (is "fb_inv ?s")
proof -
  note C = conns_okD [OF fb_invD(1) [OF inv]] and I = images_okD [OF fb_invD(2) [OF inv]]
    and T = items_okD [OF fb_invD(3) [OF inv]]
  have "conns_ok ?s"
    using key b by (intro conns_okI) (auto split: if_splits dest: C)
  moreover have "images_ok ?s"
  proof (rule images_okI)
    fix k1 b1 k2 b2 assume "backends ?s k1 = Some b1" "backends ?s k2 = Some b2" "img_id (be_image b1) = img_id (be_image b2)"
    then show "k1 = k2" using b(1) by (auto split: if_splits dest: I(1,3))
  qed (use key b in \<open>auto split: if_splits dest: I\<close>)
  moreover have "items_ok ?s"
  proof (rule items_okI)
    fix k' key' i assume i: "item ?s k' = Some (key', Some i)"
    then have "item s k' = Some (key', Some i)" by simp
    from T(4) [OF this] key show "(\<exists>b. backends ?s key' = Some b \<and> be_image b = i) \<or>
        (\<exists>c. closing ?s = Some (c, Some k', i))" by auto
  qed (simp_all, (fact T)+)
  ultimately show ?thesis by (simp add: fb_inv_def)
qed

text \<open>Another connection joins a backend.\<close>

lemma fb_inv_join:
  assumes inv: "fb_inv s" and b: "backends s key = Some b" and c: "conn_key s c = Some key"
    "\<And>key b. backends s key = Some b \<Longrightarrow> c \<notin> set (be_connections b)" and cl: "closing s = None"
  shows "fb_inv (s\<lparr>backends := (backends s)(key \<mapsto> b\<lparr>be_connections := be_connections b @ [c]\<rparr>)\<rparr>)" (is "fb_inv ?s")
proof -
  note C = conns_okD [OF fb_invD(1) [OF inv]] and I = images_okD [OF fb_invD(2) [OF inv]]
    and T = items_okD [OF fb_invD(3) [OF inv]]
  have orig: "\<exists>b0. backends s k = Some b0 \<and> be_image b0 = be_image b'" if "backends ?s k = Some b'" for k b'
    using that b by (auto split: if_splits)
  have "conns_ok ?s"
    by (rule conns_okI) (use b c cl C(1,2,3,5) in \<open>auto split: if_splits\<close>)
  moreover have "images_ok ?s"
  proof (rule images_okI)
    fix k1 b1 k2 b2 assume "backends ?s k1 = Some b1" "backends ?s k2 = Some b2" "img_id (be_image b1) = img_id (be_image b2)"
    then show "k1 = k2" using orig I(3) by metis
  qed (use orig I cl in \<open>fastforce simp del: fun_upd_apply\<close>)+
  moreover have "items_ok ?s"
  proof (rule items_okI)
    fix k' key' i assume "item ?s k' = Some (key', Some i)"
    then have "item s k' = Some (key', Some i)" by simp
    from T(4) [OF this] b show "(\<exists>b. backends ?s key' = Some b \<and> be_image b = i) \<or>
        (\<exists>c. closing ?s = Some (c, Some k', i))" by auto
  qed (simp_all, (fact T)+)
  ultimately show ?thesis by (simp add: fb_inv_def)
qed

text \<open>A connection that belongs to no backend ends.\<close>

lemma end_thread_fields [simp]:
  "backends (end_thread c s) = backends s" "item (end_thread c s) = item s"
  "framebuffers (end_thread c s) = framebuffers s" "closing (end_thread c s) = closing s"
  "deleted (end_thread c s) = deleted s" "next_conn (end_thread c s) = next_conn s"
  "next_ctl (end_thread c s) = next_ctl s" "next_image (end_thread c s) = next_image s"
  "controllers (end_thread c s) = controllers s"
  by (simp_all add: end_thread_def)

lemma conn_key_end_thread: "conn_key (end_thread c s) c' = (if c' = c then None else conn_key s c')"
  by (simp add: conn_key_def end_thread_def)

lemma fb_inv_end_thread:
  assumes inv: "fb_inv s" and c: "\<And>key b. backends s key = Some b \<Longrightarrow> c \<notin> set (be_connections b)"
  shows "fb_inv (end_thread c s)"
proof -
  note C = conns_okD [OF fb_invD(1) [OF inv]]
  have "conns_ok (end_thread c s)"
    by (rule conns_okI) (use c C in \<open>auto simp: conn_key_end_thread\<close>)
  moreover have "images_ok (end_thread c s)" "items_ok (end_thread c s)"
    by (rule images_ok_cong [OF fb_invD(2) [OF inv]] items_ok_cong [OF fb_invD(3) [OF inv]]; simp)+
  ultimately show ?thesis by (simp add: fb_inv_def)
qed

text \<open>Closing, first half: the connection leaves its backend, or takes the backend with it.\<close>

lemma fb_inv_leave:
  assumes inv: "fb_inv s" and b: "backends s key = Some b"
  shows "fb_inv (s\<lparr>backends := (backends s)(key \<mapsto> b\<lparr>be_connections := remove1 c (be_connections b)\<rparr>)\<rparr>)" (is "fb_inv ?s")
proof -
  note C = conns_okD [OF fb_invD(1) [OF inv]] and I = images_okD [OF fb_invD(2) [OF inv]]
    and T = items_okD [OF fb_invD(3) [OF inv]]
  have orig: "\<exists>b0. backends s k = Some b0 \<and> be_image b0 = be_image b' \<and>
      set (be_connections b') \<subseteq> set (be_connections b0) \<and> (distinct (be_connections b0) \<longrightarrow> distinct (be_connections b'))"
    if "backends ?s k = Some b'" for k b'
    using that b by (auto split: if_splits dest: set_remove1_subset [THEN subsetD])
  have "conns_ok ?s"
  proof (rule conns_okI)
    fix k b' assume "backends ?s k = Some b'"
    from orig [OF this] obtain b0 where o: "backends s k = Some b0" "set (be_connections b') \<subseteq> set (be_connections b0)"
      "distinct (be_connections b0) \<longrightarrow> distinct (be_connections b')" by blast
    show "k \<noteq> -1" "distinct (be_connections b')" using C(1,2) [OF o(1)] o(3) by blast+
    show "conn_key ?s c' = Some k" if "c' \<in> set (be_connections b')" for c'
      using C(3) [OF o(1)] o(2) that by auto
    show "c' \<notin> set (be_connections b')" if "closing ?s = Some (c', ko, im)" for c' ko im
      using C(4) [OF _ o(1)] o(2) that by auto
  next
    show "conn_key ?s c' = None" if "next_conn ?s \<le> c'" for c' using C(5) that by simp
  qed
  moreover have "images_ok ?s"
  proof (rule images_okI)
    fix k b' assume "backends ?s k = Some b'"
    from orig [OF this] obtain b0 where o: "backends s k = Some b0" "be_image b0 = be_image b'" by blast
    show "img_id (be_image b') < next_image ?s" "img_id (be_image b') \<notin> set (deleted ?s)"
      using I(1,2) [OF o(1)] o(2) by simp_all
    show "k = k2" if "backends ?s k2 = Some b2" "img_id (be_image b') = img_id (be_image b2)" for k2 b2
      using I(3) [OF o(1)] o(2) orig [OF that(1)] that(2) by metis
    show "img_id (be_image b') \<noteq> img_id im" if "closing ?s = Some (c', ko, im)" for c' ko im
      using I(7) [OF _ o(1)] o(2) that by auto
  next
    fix c' ko im assume "closing ?s = Some (c', ko, im)"
    then show "img_id im < next_image ?s" "img_id im \<notin> set (deleted ?s)" using I(5,6) by auto
  next
    show "i < next_image ?s" if "i \<in> set (deleted ?s)" for i using I(4) that by simp
  qed
  moreover have "items_ok ?s"
  proof (rule items_okI)
    fix k' key' i assume "item ?s k' = Some (key', Some i)"
    then have "item s k' = Some (key', Some i)" by simp
    from T(4) [OF this] b show "(\<exists>b. backends ?s key' = Some b \<and> be_image b = i) \<or>
        (\<exists>c. closing ?s = Some (c, Some k', i))" by auto
  qed (simp_all, (fact T)+)
  ultimately show ?thesis by (simp add: fb_inv_def)
qed

lemma fb_inv_kill:
  assumes inv: "fb_inv s" and b: "backends s key = Some b" and cl: "closing s = None"
    and c: "\<And>k b'. k \<noteq> key \<Longrightarrow> backends s k = Some b' \<Longrightarrow> c \<notin> set (be_connections b')"
  shows "fb_inv (s\<lparr>backends := (backends s)(key := None), closing := Some (c, framebuffers s key, be_image b)\<rparr>)" (is "fb_inv ?s")
proof -
  note C = conns_okD [OF fb_invD(1) [OF inv]] and I = images_okD [OF fb_invD(2) [OF inv]]
    and T = items_okD [OF fb_invD(3) [OF inv]]
  have orig: "k \<noteq> key \<and> backends s k = Some b'" if "backends ?s k = Some b'" for k b'
    using that by (auto split: if_splits)
  have "conns_ok ?s"
  proof (rule conns_okI)
    fix k b' assume "backends ?s k = Some b'"
    note o = orig [OF this]
    show "k \<noteq> -1" "distinct (be_connections b')" using C(1,2) o by blast+
    show "conn_key ?s c' = Some k" if "c' \<in> set (be_connections b')" for c'
      using C(3) [OF _ that] o by simp
    show "c' \<notin> set (be_connections b')" if "closing ?s = Some (c', ko, im)" for c' ko im
      using c o that by auto
  next
    show "conn_key ?s c' = None" if "next_conn ?s \<le> c'" for c' using C(5) that by simp
  qed
  moreover have "images_ok ?s"
  proof (rule images_okI)
    fix k b' assume "backends ?s k = Some b'"
    note o = orig [OF this]
    show "img_id (be_image b') < next_image ?s" "img_id (be_image b') \<notin> set (deleted ?s)"
      using I(1,2) o by auto
    show "k = k2" if "backends ?s k2 = Some b2" "img_id (be_image b') = img_id (be_image b2)" for k2 b2
      using I(3) o orig [OF that(1)] that(2) by blast
    show "img_id (be_image b') \<noteq> img_id im" if "closing ?s = Some (c', ko, im)" for c' ko im
      using I(3) [OF _ b] o that by auto
  next
    fix c' ko im assume "closing ?s = Some (c', ko, im)"
    then show "img_id im < next_image ?s" "img_id im \<notin> set (deleted ?s)" using I(1,2) [OF b] by auto
  next
    show "i < next_image ?s" if "i \<in> set (deleted ?s)" for i using I(4) that by simp
  qed
  moreover have "items_ok ?s"
  proof (rule items_okI)
    fix k' key' i assume "item ?s k' = Some (key', Some i)"
    then have i: "item s k' = Some (key', Some i)" by simp
    from T(4) [OF i] T(2) [OF i T(3) [OF i]] b cl
    show "(\<exists>b. backends ?s key' = Some b \<and> be_image b = i) \<or>
        (\<exists>c. closing ?s = Some (c, Some k', i))" by (cases "key' = key") auto
  qed (simp_all, (fact T)+)
  ultimately show ?thesis by (simp add: fb_inv_def)
qed

lemma fb_inv_close_begin:
  assumes inv: "fb_inv s" and cl: "closing s = None"
  shows "fb_inv (close_begin c s)"
proof (cases "threads s c")
  case (Some t)
  note C = conns_okD [OF fb_invD(1) [OF inv]]
  have k: "conn_key s c = Some (fbKey t)" using Some by (simp add: conn_key_def)
  have own: "key = fbKey t" if "backends s key = Some b" "c \<in> set (be_connections b)" for key b
    using C(3) [OF that] k by simp
  show ?thesis
  proof (cases "if fbKey t \<noteq> -1 then backends s (fbKey t) else None")
    case None
    have "c \<notin> set (be_connections b)" if "backends s key = Some b" for key b
      using own [OF that] None C(1) [OF that] that by (auto split: if_splits)
    from fb_inv_end_thread [OF inv this] show ?thesis using Some None by (simp add: close_begin_def)
  next
    case b: (Some b)
    then have b': "backends s (fbKey t) = Some b" by (auto split: if_splits)
    show ?thesis
    proof (cases "remove1 c (be_connections b) = []")
      case True
      have "fb_inv (s\<lparr>backends := (backends s)(fbKey t := None),
          closing := Some (c, framebuffers s (fbKey t), be_image b)\<rparr>)"
        by (rule fb_inv_kill [OF inv b' cl]) (use own in blast)
      then show ?thesis using Some b True by (simp add: close_begin_def)
    next
      case False
      let ?s = "s\<lparr>backends := (backends s)(fbKey t \<mapsto> b\<lparr>be_connections := remove1 c (be_connections b)\<rparr>)\<rparr>"
      have "c \<notin> set (be_connections b0)" if "backends ?s key = Some b0" for key b0
        using that own C(2) [OF b'] by (auto split: if_splits)
      from fb_inv_end_thread [OF fb_inv_leave [OF inv b'] this] show ?thesis
        using Some b False by (simp add: close_begin_def)
    qed
  qed
qed (use inv in \<open>simp add: close_begin_def\<close>)

text \<open>Closing, second half: no item holds the image any more when it is deleted.\<close>

lemma fb_inv_close_end:
  assumes inv: "fb_inv s" and cl: "closing s = Some (c, ko, im)"
    and gone: "\<And>k key. ko = Some k \<Longrightarrow> item s k \<noteq> Some (key, Some im)"
  shows "fb_inv (close_end c im s)"
proof -
  note C = conns_okD [OF fb_invD(1) [OF inv]] and I = images_okD [OF fb_invD(2) [OF inv]]
    and T = items_okD [OF fb_invD(3) [OF inv]]
  let ?s = "s\<lparr>closing := None, deleted := deleted s @ [img_id im]\<rparr>"
  have "conns_ok ?s" by (rule conns_okI) (use C(1,2,3,5) in auto)
  moreover have "images_ok ?s"
    by (rule images_okI) (use I(1-4) I(5,7) [OF cl] in auto)
  moreover have "items_ok ?s"
  proof (rule items_okI)
    fix k' key' i assume "item ?s k' = Some (key', Some i)"
    then have i: "item s k' = Some (key', Some i)" by simp
    from T(4) [OF i] cl gone i show "(\<exists>b. backends ?s key' = Some b \<and> be_image b = i) \<or>
        (\<exists>c. closing ?s = Some (c, Some k', i))" by auto
  qed (simp_all, (fact T)+)
  ultimately have "fb_inv ?s" by (simp add: fb_inv_def)
  then show ?thesis unfolding close_end_def
    by (rule fb_inv_end_thread) (use C(4) [OF cl] in auto)
qed

lemma fb_inv_close_poll:
  assumes inv: "fb_inv s"
  shows "fb_inv (close_poll s)"
proof (cases "closing s")
  case (Some p)
  obtain c ko im where p: "p = (c, ko, im)" by (cases p) auto
  note cl = Some [unfolded p]
  show ?thesis
  proof (cases ko)
    case None
    with fb_inv_close_end [OF inv cl] show ?thesis by (simp add: close_poll_def cl)
  next
    case ko: (Some k)
    show ?thesis
    proof (cases "controllers s k")
      case None
      then have "item s k = None" by (simp add: item_def)
      then have "fb_inv (close_end c im s)" by (intro fb_inv_close_end [OF inv cl]) (simp add: ko)
      with ko None show ?thesis by (simp add: close_poll_def cl)
    next
      case ct: (Some ct)
      have "fb_inv (associateSHM k None s)" by (rule fb_inv_associate [OF inv]) simp
      moreover have "item (associateSHM k None s) k \<noteq> Some (key, Some im)" for key
        by (auto simp: item_associateSHM)
      ultimately have "fb_inv (close_end c im (associateSHM k None s))"
        by (intro fb_inv_close_end [where ko = ko]) (auto simp: cl ko)
      with inv ct show ?thesis by (simp add: close_poll_def cl ko)
    qed
  qed
qed (use inv in \<open>simp add: close_poll_def\<close>)

text \<open>An initialization neither overflows nor breaks the invariant.\<close>

lemma createSHM_defined:
  assumes "0 \<le> w" "0 \<le> h" "w * h * 4 \<le> INT_MAX" "w * 4 \<le> INT_MAX"
  shows "\<exists>r. createSHM io i type w h = Inr r"
proof (cases "bytes_of_type type")
  case (Some n)
  then have n: "0 < n" "n \<le> 4" by (auto simp: bytes_of_type_def split: if_splits)
  define a where "a = h * w"
  have a: "0 \<le> a" "a * 4 \<le> INT_MAX" using assms(1-3) by (simp_all add: a_def mult.commute)
  have "a * n \<le> a * 4" "0 \<le> a * n" "n * w \<le> 4 * w" "0 \<le> n * w"
    using n a(1) assms(1) by (simp_all add: mult_left_mono mult_right_mono)
  with a assms(4) have "ckint a = Inr a" "ckint (a * n) = Inr (a * n)" "ckint (n * w) = Inr (n * w)"
    by (simp_all add: INT_MIN_def)
  then show ?thesis using Some by (simp add: createSHM_def a_def [symmetric])
qed (simp add: createSHM_def)

lemma createDefaultSHM_defined: "\<exists>r. createDefaultSHM io i type = Inr r"
proof -
  have "\<exists>r. createSHM io i t (-1) (-1) = Inr r" if "bytes_of_type t = None" for t
    using that by (simp add: createSHM_def)
  then show ?thesis
    by (auto simp: createDefaultSHM_def panel_sizes INT_MAX_def bytes_of_type_def intro!: createSHM_defined)
qed

lemma fb_inv_send: "fb_inv s \<Longrightarrow> fb_inv (s\<lparr>sent := x\<rparr>)"
  by (erule fb_inv_cong; simp)

lemma handleInitialize_ok:
  assumes inv: "fb_inv s0" and c: "conn_key s0 c = Some (-1)" and key: "key \<noteq> -1" "closing s0 = None"
    and size: "\<And>w h. custom = Some (w, h) \<Longrightarrow> int w * int h * 4 \<le> INT_MAX \<and> int w * 4 \<le> INT_MAX"
  shows "\<exists>ok s'. handleInitialize io c key type custom s0 = Inr (ok, s') \<and> fb_inv s'"
proof -
  define s where "s = set_thread c (\<lambda>t. t\<lparr>fbKey := key\<rparr>) s0"
  have i: "fb_inv s" unfolding s_def by (rule fb_inv_set_key [OF inv c])
  obtain t where t: "threads s0 c = Some t" using c by (auto simp: conn_key_def)
  have k: "conn_key s c = Some key" using t by (simp add: s_def conn_key_set_thread)
  have cl: "closing s = None" using key(2) by (simp add: s_def)
  have own: "c \<notin> set (be_connections b)" if "backends s k = Some b" for k b
    using conns_okD(3) [OF fb_invD(1) [OF inv], of k b c] conns_okD(1) [OF fb_invD(1) [OF inv], of k b] that c
    by (auto simp: s_def)
  show ?thesis
  proof (cases "backends s key")
    case (Some b)
    have "fb_inv (s\<lparr>sent := x, backends := (backends s)(key \<mapsto> b\<lparr>be_connections := be_connections b @ [c]\<rparr>)\<rparr>)" for x
      by (rule fb_inv_cong [OF fb_inv_join [OF i Some k own cl]]; simp)
    then show ?thesis using i Some
      by (auto simp: handleInitialize_def s_def [symmetric] fb_send_def split: option.splits)
  next
    case None
    obtain r where r: "(case custom of Some (w, h) \<Rightarrow> createSHM io (next_image s) (int type) (int w) (int h)
        | None \<Rightarrow> createDefaultSHM io (next_image s) (int type)) = Inr r"
      using createSHM_defined createDefaultSHM_defined size by (fastforce split: option.split)
    show ?thesis
    proof (cases r)
      case None
      then show ?thesis using i r \<open>backends s key = None\<close>
        by (auto simp: handleInitialize_def s_def [symmetric] Let_def)
    next
      case b: (Some b)
      have "img_id (be_image b) = next_image s"
        using r b createSHM_result createDefaultSHM_result by (fastforce split: option.splits)
      then have "fb_inv (tryToMatchUp key (s\<lparr>sent := x, backends := (backends s)(key \<mapsto> b\<lparr>be_connections := [c]\<rparr>),
          next_image := next_image s + 1\<rparr>))" for x
        by (intro fb_inv_match fb_inv_new_backend [OF i key(1) None cl]) (use k in simp_all)
      then show ?thesis using r b None
        by (auto simp: handleInitialize_def s_def [symmetric] Let_def fb_send_def)
    qed
  qed
qed

text \<open>Items come, get their identifier, lose their image and go.\<close>

lemma fb_inv_new_item:
  assumes inv: "fb_inv s"
  shows "fb_inv (s\<lparr>controllers := (controllers s)(next_ctl s \<mapsto> controller_new mid), next_ctl := next_ctl s + 1\<rparr>)" (is "fb_inv ?s")
proof -
  note T = items_okD [OF fb_invD(3) [OF inv]]
  have it: "item (s\<lparr>controllers := (controllers s)(next_ctl s \<mapsto> controller_new mid)\<rparr>) k =
      (if k = next_ctl s then Some (-1, None) else item s k)" for k
    by (simp add: item_def controller_new_def)
  have "items_ok ?s"
  proof (rule items_okI)
    fix k key imo assume "item ?s k = Some (key, imo)"
    then have "(k = next_ctl s \<and> key = -1 \<and> imo = None) \<or> item s k = Some (key, imo)"
      by (auto simp: it split: if_splits)
    with T(1,2) show "k < next_ctl ?s" "key \<noteq> -1 \<Longrightarrow> framebuffers ?s key = Some k" by (simp_all, fastforce+)
  next
    fix k key im assume "item ?s k = Some (key, Some im)"
    then have "item s k = Some (key, Some im)" by (auto simp: it split: if_splits)
    with T(3,4) show "key \<noteq> -1" "(\<exists>b. backends ?s key = Some b \<and> be_image b = im) \<or> (\<exists>c. closing ?s = Some (c, Some k, im))"
      by simp_all
  next
    fix k key assume f: "framebuffers ?s key = Some k"
    then obtain imo where o: "item s k = Some (key, imo)" using T(6) by fastforce
    from T(1) [OF this] o show "\<exists>imo. item ?s k = Some (key, imo)" by (simp add: it)
    show "key \<noteq> -1" using f T(5) by simp
  qed
  moreover have "conns_ok ?s" "images_ok ?s"
    by (rule conns_ok_cong [OF fb_invD(1) [OF inv]] images_ok_cong [OF fb_invD(2) [OF inv]]; simp)+
  ultimately show ?thesis by (simp add: fb_inv_def)
qed

lemma conn_key_update_controller [simp]: "conn_key (update_controller k f s) = conn_key s"
  by (simp add: conn_key_def fun_eq_iff)

lemma fb_inv_drop_image:
  assumes inv: "fb_inv s"
  shows "fb_inv (update_controller k (\<lambda>c. c\<lparr>fb_image := None\<rparr>) s)" (is "fb_inv ?s")
proof -
  have a: "fb_inv (associateSHM k None s)" by (rule fb_inv_associate [OF inv]) simp
  show ?thesis
    by (rule fb_inv_cong [OF a]) (auto simp: fun_eq_iff item_update_controller item_associateSHM, simp add: item_def option.map_comp comp_def)
qed

lemma fb_inv_set_id:
  assumes inv: "fb_inv s" and k: "map_option fst (item s k) = Some (-1)" and key: "key \<noteq> -1" "framebuffers s key = None"
  shows "fb_inv (setFramebufferID k key s)"
proof -
  note T = items_okD [OF fb_invD(3) [OF inv]]
  obtain imo where i: "item s k = Some (-1, imo)" using k by auto
  with T(3) have no: "imo = None" by (cases imo) auto
  obtain ct where ct: "controllers s k = Some ct" "framebufferID ct = -1" using i by (auto simp: item_def)
  have fm: "framebuffers s (-1) = None" using T(5) by (cases "framebuffers s (-1)") auto
  define u where "u = (update_controller k (\<lambda>c. c\<lparr>framebufferID := key\<rparr>) (unregisterController (-1) s))
      \<lparr>framebuffers := (framebuffers s)(key \<mapsto> k)\<rparr>"
  have f: "backends u = backends s" "closing u = closing s" "next_ctl u = next_ctl s" "deleted u = deleted s"
    "next_image u = next_image s" "next_conn u = next_conn s" "conn_key u = conn_key s"
    by (simp_all add: u_def unregisterController_def)
  have it: "item u k' = (if k' = k then Some (key, None) else item s k')" for k'
    using i no by (auto simp: u_def item_update_controller unregisterController_def) (auto simp: item_def)
  have fb: "framebuffers u = (framebuffers s)(key \<mapsto> k)" by (simp add: u_def)
  have "items_ok u"
  proof (rule items_okI)
    fix k' key' imo' assume j: "item u k' = Some (key', imo')"
    then have c: "(k' = k \<and> key' = key \<and> imo' = None) \<or> (k' \<noteq> k \<and> item s k' = Some (key', imo'))"
      by (auto simp: it split: if_splits)
    show "k' < next_ctl u" using c T(1) i by (auto simp: f)
    show "framebuffers u key' = Some k'" if "key' \<noteq> -1"
      using c T(2) [OF _ that] key(2) by (auto simp: fb)
  next
    fix k' key' im assume "item u k' = Some (key', Some im)"
    then have "item s k' = Some (key', Some im)" by (auto simp: it split: if_splits)
    with T(3,4) show "key' \<noteq> -1" "(\<exists>b. backends u key' = Some b \<and> be_image b = im) \<or> (\<exists>c. closing u = Some (c, Some k', im))"
      by (simp_all add: f)
  next
    fix k' key' assume "framebuffers u key' = Some k'"
    then have c: "(key' = key \<and> k' = k) \<or> framebuffers s key' = Some k'" by (auto simp: fb split: if_splits)
    show "key' \<noteq> -1" using c T(5) key(1) by blast
    show "\<exists>imo. item u k' = Some (key', imo)" using c T(6) i T(5) by (fastforce simp: it)
  qed
  moreover have "conns_ok u" "images_ok u"
    by (rule conns_ok_cong [OF fb_invD(1) [OF inv]] images_ok_cong [OF fb_invD(2) [OF inv]]; simp add: f)+
  ultimately have "fb_inv u" by (simp add: fb_inv_def)
  then have "fb_inv (tryToMatchUp key u)" by (rule fb_inv_match)
  moreover have "setFramebufferID k key s = tryToMatchUp key u"
    using ct key fm fun_upd_idem [of "framebuffers s" "-1" None]
    by (simp add: setFramebufferID_def registerController_def u_def unregisterController_def)
  ultimately show ?thesis by simp
qed

lemma fb_inv_destroy:
  assumes inv: "fb_inv s"
  shows "fb_inv (destroyController k s)"
proof (cases "controllers s k")
  case (Some ct)
  note T = items_okD [OF fb_invD(3) [OF inv]]
  define u where "u = destroyController k s"
  define id where "id = framebufferID ct"
  have i: "item s k = Some (id, fb_image ct)" using Some by (simp add: item_def id_def)
  have f: "backends u = backends s" "closing u = closing s" "next_ctl u = next_ctl s" "deleted u = deleted s"
    "next_image u = next_image s" "next_conn u = next_conn s" "conn_key u = conn_key s"
    "framebuffers u = (framebuffers s)(id := None)"
    using Some by (simp_all add: u_def destroyController_def unregisterController_def id_def)
  have it: "item u k' = (if k' = k then None else item s k')" for k'
    using Some by (simp add: u_def item_def destroyController_def unregisterController_def)
  have "items_ok u"
  proof (rule items_okI)
    fix k' key' imo' assume "item u k' = Some (key', imo')"
    then have c: "k' \<noteq> k" "item s k' = Some (key', imo')" by (auto simp: it split: if_splits)
    show "k' < next_ctl u" using T(1) [OF c(2)] by (simp add: f)
    show "framebuffers u key' = Some k'" if "key' \<noteq> -1"
      using T(2) [OF c(2) that] T(2) [OF i] c(1) that by (auto simp: f)
  next
    fix k' key' im assume "item u k' = Some (key', Some im)"
    then have "item s k' = Some (key', Some im)" by (auto simp: it split: if_splits)
    with T(3,4) show "key' \<noteq> -1" "(\<exists>b. backends u key' = Some b \<and> be_image b = im) \<or> (\<exists>c. closing u = Some (c, Some k', im))"
      by (simp_all add: f)
  next
    fix k' key' assume "framebuffers u key' = Some k'"
    then have c: "key' \<noteq> id" "framebuffers s key' = Some k'" by (auto simp: f split: if_splits)
    show "key' \<noteq> -1" using T(5) [OF c(2)] .
    show "\<exists>imo. item u k' = Some (key', imo)" using T(6) [OF c(2)] c(1) i by (auto simp: it)
  qed
  moreover have "conns_ok u" "images_ok u"
    by (rule conns_ok_cong [OF fb_invD(1) [OF inv]] images_ok_cong [OF fb_invD(2) [OF inv]]; simp add: f)+
  ultimately show ?thesis by (simp add: fb_inv_def u_def)
qed (use inv in \<open>simp add: destroyController_def\<close>)

lemma fb_inv_accept:
  assumes inv: "fb_inv s"
  shows "fb_inv (s\<lparr>threads := (threads s)(next_conn s \<mapsto> \<lparr>fbKey = -1, exiting = False\<rparr>), next_conn := next_conn s + 1\<rparr>)" (is "fb_inv ?s")
proof -
  note C = conns_okD [OF fb_invD(1) [OF inv]]
  have ck: "conn_key (s\<lparr>threads := (threads s)(next_conn s \<mapsto> \<lparr>fbKey = -1, exiting = False\<rparr>)\<rparr>) c =
      (if c = next_conn s then Some (-1) else conn_key s c)" for c
    by (simp add: conn_key_def)
  have "conns_ok ?s"
  proof (rule conns_okI)
    fix key b assume "backends ?s key = Some b"
    then have b: "backends s key = Some b" by simp
    show "key \<noteq> -1" "distinct (be_connections b)" using C(1,2) [OF b] .
    show "conn_key ?s c = Some key" if "c \<in> set (be_connections b)" for c
      using C(3) [OF b that] C(5) [of c] by (auto simp: ck)
    show "c \<notin> set (be_connections b)" if "closing ?s = Some (c, ko, im)" for c ko im
      using C(4) [OF _ b] that by simp
  next
    show "conn_key ?s c = None" if "next_conn ?s \<le> c" for c using C(5) that by (simp add: ck)
  qed
  moreover have "images_ok ?s" "items_ok ?s"
    by (rule images_ok_cong [OF fb_invD(2) [OF inv]] items_ok_cong [OF fb_invD(3) [OF inv]]; simp)+
  ultimately show ?thesis by (simp add: fb_inv_def)
qed

section \<open>Every step\<close>

text \<open>A message from a client: only an initialization changes what the invariant sees.\<close>

lemma fb_inv_queue: "fb_inv s \<Longrightarrow> fb_inv (s\<lparr>queue := x\<rparr>)"
  by (erule fb_inv_cong; simp)

lemma fb_inv_invoke:
  "fb_inv s \<Longrightarrow> (\<And>k. fb_inv (snd (f k s))) \<Longrightarrow> fb_inv (snd (invokeOnConnectedFramebuffer c f s))"
  by (simp add: invokeOnConnectedFramebuffer_def split: option.split)

lemma fb_inv_message:
  assumes inv: "fb_inv s" and e: "single_use s (Ev_message c io m)" "is_init m \<longrightarrow> closing s = None"
  shows "\<exists>s'. client_message io c m s = Inr s' \<and> fb_inv s'"
proof -
  let ?ends = "\<lambda>r. Inr (if fst r then snd r else set_thread c (\<lambda>t. t\<lparr>exiting := True\<rparr>) (snd r))"
  have fin: "\<exists>s'. ?ends r = Inr s' \<and> fb_inv s'" if "fb_inv (snd r)" for r
    using that fb_inv_set_exiting by simp
  note post = fb_inv_queue [OF inv]
  show ?thesis
  proof (cases m)
    case (Init key type)
    then obtain ok s' where "handleInitialize io c key type None s = Inr (ok, s')" "fb_inv s'"
      using handleInitialize_ok [OF inv, of c key None io type] e by (auto simp: single_use_def conn_key_def)
    with Init fb_inv_set_exiting show ?thesis by (simp add: client_message_def)
  next
    case (Custom_init key type w h)
    then obtain ok s' where "handleInitialize io c key type (Some (w, h)) s = Inr (ok, s')" "fb_inv s'"
      using handleInitialize_ok [OF inv, of c key "Some (w, h)" io type] e by (auto simp: single_use_def conn_key_def)
    with Custom_init fb_inv_set_exiting show ?thesis by (simp add: client_message_def)
  next
    case (Update_region type x y w h)
    have "fb_inv (snd (invokeOnConnectedFramebuffer c (\<lambda>k. handleUpdateRegion k type (x, y, w, h)) s))"
      using inv post by (intro fb_inv_invoke) (auto simp: handleUpdateRegion_def post_def)
    with Update_region fin show ?thesis by (auto simp: client_message_def split_beta)
  next
    case (Set_refresh_mode r)
    have "fb_inv (snd (invokeOnConnectedFramebuffer c (\<lambda>k s.
            if r > 4 \<or> r < 0 then (False, s) else (True, post [Q_refresh k r] s)) s))"
      using inv post by (intro fb_inv_invoke) (auto simp: post_def)
    with Set_refresh_mode fin show ?thesis by (auto simp: client_message_def split_beta)
  next
    case Request_full_refresh
    have "fb_inv (snd (invokeOnConnectedFramebuffer c (\<lambda>k s. (True, post [Q_full k] s)) s))"
      using inv post by (intro fb_inv_invoke) (auto simp: post_def)
    with Request_full_refresh fin show ?thesis by (auto simp: client_message_def split_beta)
  qed (use inv fb_inv_set_exiting in \<open>auto simp: client_message_def\<close>)
qed

text \<open>Input reaches only connections whose thread runs.\<close>

lemma forward_all_defined:
  "(\<And>c. c \<in> set cs \<Longrightarrow> threads s c \<noteq> None) \<Longrightarrow> \<exists>x. forward_all i cs s = Inr (s\<lparr>sent := x\<rparr>)"
proof (induction cs arbitrary: s)
  case Nil
  have "s = s\<lparr>sent := sent s\<rparr>" by simp
  then show ?case by (metis forward_all.simps(1))
next
  case (Cons c cs)
  have "\<exists>x. forward_all i cs (fb_send c (User_input i) s) = Inr ((fb_send c (User_input i) s)\<lparr>sent := x\<rparr>)"
    by (rule Cons.IH) (use Cons.prems in \<open>auto simp: fb_send_def\<close>)
  with Cons.prems [of c] show ?case by (auto simp: fb_send_def)
qed

lemma forward_defined:
  assumes inv: "fb_inv s"
  shows "\<exists>s'. forwardUserInput key i s = Inr s' \<and> fb_inv s'"
proof (cases "closing s")
  case None
  show ?thesis
  proof (cases "backends s key")
    case (Some b)
    have "threads s c \<noteq> None" if "c \<in> set (be_connections b)" for c
      using conns_okD(3) [OF fb_invD(1) [OF inv] Some that] by (auto simp: conn_key_def)
    then obtain x where "forward_all i (be_connections b) s = Inr (s\<lparr>sent := x\<rparr>)"
      using forward_all_defined by blast
    then show ?thesis using fb_inv_send [OF inv] None Some by (auto simp: forwardUserInput_def)
  qed (use None inv in \<open>simp add: forwardUserInput_def\<close>)
next
  case (Some c)
  have "fb_inv (s\<lparr>gui_waits := x\<rparr>)" for x by (rule fb_inv_cong [OF inv]; simp)
  with Some show ?thesis by (simp add: forwardUserInput_def)
qed

text \<open>No item holds an image that was deleted.\<close>

lemma image_not_deleted:
  assumes inv: "fb_inv s" and c: "controllers s k = Some c"
  shows "\<not> image_deleted c s"
proof (cases "fb_image c")
  case (Some im)
  then have "item s k = Some (framebufferID c, Some im)" using c by (simp add: item_def)
  from items_okD(4) [OF fb_invD(3) [OF inv] this] show ?thesis
    using images_okD(2,6) [OF fb_invD(2) [OF inv]] Some by (auto simp: image_deleted_def)
qed (simp add: image_deleted_def)

lemma fb_inv_same_item:
  assumes "fb_inv s" "controllers s k = Some c" "framebufferID c' = framebufferID c" "fb_image c' = fb_image c"
  shows "fb_inv (s\<lparr>controllers := (controllers s)(k \<mapsto> c'), emitted := x\<rparr>)"
    and "fb_inv (s\<lparr>controllers := (controllers s)(k \<mapsto> c')\<rparr>)"
proof -
  have "item (s\<lparr>controllers := (controllers s)(k \<mapsto> c')\<rparr>) = item s"
    using assms(2-4) by (auto simp: item_def)
  then show "fb_inv (s\<lparr>controllers := (controllers s)(k \<mapsto> c')\<rparr>)"
    "fb_inv (s\<lparr>controllers := (controllers s)(k \<mapsto> c'), emitted := x\<rparr>)"
    by (auto intro!: fb_inv_cong [OF assms(1)])
qed

lemma to_int_error: "to_int q = Inl e \<Longrightarrow> e = Undefined Bad_conversion"
  by (auto simp: to_int_def split: if_splits)

lemma markedUpdate_cases:
  "(\<exists>g. markedUpdate W H r c = Inr (c\<lparr>isMidPaint := True\<rparr>, g)) \<or>
   markedUpdate W H r c = Inl (Undefined Bad_conversion)"
proof -
  obtain x y w h where r: "r = (x, y, w, h)" by (cases r) auto
  have e: "to_int q = Inl (Undefined Bad_conversion) \<or> (\<exists>n. to_int q = Inr n)" for q
    by (simp add: to_int_def)
  show ?thesis
  proof (cases "if allowScaling c then fb_image c else None")
    case (Some im)
    then show ?thesis
      using e [of "of_int (cdiv x (img_w im)) * W"] e [of "of_int (cdiv y (img_h im)) * H"]
        e [of "of_int (cdiv w (img_w im)) * W"] e [of "of_int (cdiv h (img_h im)) * H"]
      by (auto simp: markedUpdate_def r)
  qed (simp add: markedUpdate_def r)
qed

lemma item_update_ok:
  assumes inv: "fb_inv s" and f: "\<And>c. (\<exists>c' g. f c = Inr (c', g) \<and> framebufferID c' = framebufferID c \<and> fb_image c' = fb_image c) \<or>
    f c = Inl (Undefined Bad_conversion)"
  shows "(\<exists>s'. item_update sz k f s = Inr s' \<and> fb_inv s') \<or> item_update sz k f s = Inl (Undefined Bad_conversion)"
proof (cases "controllers s k")
  case (Some c)
  from f [of c] show ?thesis
    using image_not_deleted [OF inv Some] fb_inv_same_item(1) [OF inv Some] Some by (auto simp: item_update_def)
qed (use inv in \<open>simp add: item_update_def\<close>)

lemma run_queued_ok:
  assumes inv: "fb_inv s"
  shows "(\<exists>s'. run_queued sz q s = Inr s' \<and> fb_inv s') \<or> run_queued sz q s = Inl (Undefined Bad_conversion)"
proof (cases q)
  case (Q_associated k key)
  have f: "(\<exists>c' g. setActive W H a c = Inr (c', g) \<and> framebufferID c' = framebufferID c \<and> fb_image c' = fb_image c) \<or>
      setActive W H a c = Inl (Undefined Bad_conversion)" for W H a c
    using markedUpdate_cases [of W H "(0, 0, 0, 0)" "c\<lparr>active := a\<rparr>"] by (auto simp: setActive_def)
  show ?thesis
    using item_update_ok [OF inv, where k = k and sz = sz and
        f = "\<lambda>c. setActive (fst (sz k)) (snd (sz k)) (fb_image c \<noteq> None) c", OF f]
      item_update_ok [OF fb_inv_drop_image [OF inv, of k], where k = k and sz = sz and
        f = "setActive (fst (sz k)) (snd (sz k)) False", OF f]
    by (simp add: Q_associated Let_def)
next
  case (Q_update k r)
  show ?thesis using item_update_ok [OF inv, of "markedUpdate (fst (sz k)) (snd (sz k)) r" sz k]
      markedUpdate_cases [of "fst (sz k)" "snd (sz k)" r] by (fastforce simp: Q_update)
next
  case (Q_refresh k m)
  then show ?thesis using inv fb_inv_same_item [OF inv, of k]
    by (auto simp: setRefreshMode_def split: option.split)
next
  case (Q_full k)
  have "fb_inv (s\<lparr>emitted := x\<rparr>)" for x by (rule fb_inv_cong [OF inv]; simp)
  then show ?thesis using Q_full inv by simp
qed


text \<open>
  The theorem: under the discipline, whatever the threads do, nothing that is gone is used; a
  step fails only when an item so large or an update so far out is converted that the number
  leaves the range of \<open>int\<close>.
\<close>

lemma fb_step_defined:
  assumes inv: "fb_inv s" and en: "fb_enabled s e" and su: "single_use s e"
  shows "(\<exists>s'. fb_step sz e s = Inr s' \<and> fb_inv s') \<or> fb_step sz e s = Inl (Undefined Bad_conversion)"
proof (cases e)
  case Ev_accept
  then show ?thesis using fb_inv_accept [OF inv] by simp
next
  case (Ev_message c io m)
  then show ?thesis using fb_inv_message [OF inv, of c io m] en su by simp
next
  case (Ev_hangup c)
  then show ?thesis using fb_inv_set_exiting [OF inv] by simp
next
  case (Ev_close c)
  then show ?thesis using fb_inv_close_begin [OF inv] en by simp
next
  case Ev_poll
  then show ?thesis using fb_inv_close_poll [OF inv] by simp
next
  case (Ev_new_item mid)
  then show ?thesis using fb_inv_new_item [OF inv] by simp
next
  case (Ev_set_id k key)
  then show ?thesis using fb_inv_set_id [OF inv] su by (simp add: single_use_def)
next
  case (Ev_set_scaling k a)
  have "fb_inv (update_controller k (setAllowScaling a) s)"
    by (rule fb_inv_cong [OF inv]) (auto simp: fun_eq_iff item_update_controller, simp add: item_def setAllowScaling_def)
  then show ?thesis using Ev_set_scaling by simp
next
  case (Ev_destroy k)
  then show ?thesis using fb_inv_destroy [OF inv] by simp
next
  case Ev_queue
  then show ?thesis using run_queued_ok [OF fb_inv_queue [OF inv]] inv by (auto split: list.split)
next
  case (Ev_paint k)
  then show ?thesis using image_not_deleted [OF inv] fb_inv_same_item(2) [OF inv] inv
    by (auto simp: paint_item_def paint_def split: option.split)
next
  case (Ev_input k i)
  then show ?thesis using forward_defined [OF inv] inv by (auto split: option.split)
next
  case Ev_resume
  have "fb_inv (s\<lparr>gui_waits := None\<rparr>)" by (rule fb_inv_cong [OF inv]; simp)
  from forward_defined [OF this] show ?thesis using Ev_resume inv by (auto split: option.split prod.split)
qed

lemma fb_inv_init: "fb_inv fbm_init"
  by (simp add: fb_inv_def conns_ok_def images_ok_def items_ok_def fbm_init_def conn_key_def item_def)

text \<open>The machine as a total function: an undefined step leaves the state as it was.\<close>

definition fb_next :: "(nat \<Rightarrow> rat \<times> rat) \<Rightarrow> fbm \<Rightarrow> fb_event \<Rightarrow> fbm" where
  "fb_next sz s e = (case fb_step sz e s of Inr s' \<Rightarrow> s' | Inl x \<Rightarrow> s)"

definition fb_allowed :: "fbm \<Rightarrow> fb_event \<Rightarrow> bool" where
  "fb_allowed s e \<longleftrightarrow> fb_enabled s e \<and> single_use s e"

interpretation fb_sys: transition_system fbm_init fb_allowed "fb_next sz" fb_inv
proof
  show "fb_inv fbm_init" by (rule fb_inv_init)
  show "fb_inv (fb_next sz s e)" if "fb_inv s" "fb_allowed s e" for s e
    using fb_step_defined [OF that(1), of e sz] that by (auto simp: fb_next_def fb_allowed_def)
qed

section \<open>Deadlock\<close>

text \<open>
  A closing client holds the mutex until its item is not mid-paint, the item is mid-paint until
  the GUI thread paints it, and the GUI thread waits for the mutex: no enabled step of any
  thread changes that.
\<close>

definition stuck :: "fbm \<Rightarrow> bool" where
  "stuck s \<longleftrightarrow> gui_waits s \<noteq> None \<and>
     (\<exists>c k im ct. closing s = Some (c, Some k, im) \<and> controllers s k = Some ct \<and> isMidPaint ct)"

lemma stuck_fields:
  "stuck s \<Longrightarrow> gui_waits s' = gui_waits s \<Longrightarrow> closing s' = closing s \<Longrightarrow> controllers s' = controllers s \<Longrightarrow> stuck s'"
  by (simp add: stuck_def)

lemma invoke_fields:
  "(\<And>k. gui_waits (snd (f k s)) = gui_waits s \<and> closing (snd (f k s)) = closing s \<and>
     controllers (snd (f k s)) = controllers s) \<Longrightarrow>
   gui_waits (snd (invokeOnConnectedFramebuffer c f s)) = gui_waits s \<and>
   closing (snd (invokeOnConnectedFramebuffer c f s)) = closing s \<and>
   controllers (snd (invokeOnConnectedFramebuffer c f s)) = controllers s"
  by (simp add: invokeOnConnectedFramebuffer_def split: option.split)

lemma set_thread_gui [simp]: "gui_waits (set_thread c f s) = gui_waits s"
  by (simp add: set_thread_def split: option.split)

lemma stuck_message:
  assumes "stuck s" "\<not> is_init m" "client_message io c m s = Inr s'"
  shows "stuck s'"
proof -
  have "gui_waits s' = gui_waits s \<and> closing s' = closing s \<and> controllers s' = controllers s"
  proof (cases m)
    case (Update_region type x y w h)
    then show ?thesis using assms(3)
        invoke_fields [of "\<lambda>k. handleUpdateRegion k type (x, y, w, h)" s c]
      by (auto simp: client_message_def handleUpdateRegion_def post_def split_beta)
  next
    case (Set_refresh_mode r)
    then show ?thesis using assms(3)
        invoke_fields [of "\<lambda>k s. if r > 4 \<or> r < 0 then (False, s) else (True, post [Q_refresh k r] s)" s c]
      by (auto simp: client_message_def post_def split_beta)
  next
    case Request_full_refresh
    then show ?thesis using assms(3) invoke_fields [of "\<lambda>k s. (True, post [Q_full k] s)" s c]
      by (auto simp: client_message_def post_def split_beta)
  qed (use assms in \<open>auto simp: client_message_def\<close>)
  then show ?thesis using stuck_fields [OF assms(1)] by blast
qed

lemma stuck_step:
  assumes s: "stuck s" and en: "fb_enabled s e"
  shows "stuck (fb_next sz s e)"
proof -
  have g: "gui_waits s \<noteq> None" "closing s \<noteq> None" using s by (auto simp: stuck_def)
  show ?thesis
  proof (cases e)
    case (Ev_message c io m)
    then have "\<not> is_init m" using en g by auto
    then show ?thesis using stuck_message [OF s, of m io c] Ev_message s
      by (auto simp: fb_next_def split: sum.split)
  next
    case Ev_poll
    then show ?thesis using s by (auto simp: fb_next_def close_poll_def stuck_def)
  qed (use s g en in \<open>auto simp: fb_next_def intro: stuck_fields\<close>)
qed

lemma stuck_forever: "stuck s \<Longrightarrow> allowed_run fb_enabled (fb_next sz) s es \<Longrightarrow> stuck (foldl (fb_next sz) s es)"
  by (induction es arbitrary: s) (auto intro: stuck_step)

section \<open>Runs\<close>

fun fb_run :: "(nat \<Rightarrow> rat \<times> rat) \<Rightarrow> fb_event list \<Rightarrow> fbm \<Rightarrow> fbm res" where
  "fb_run sz [] s = Inr s"
| "fb_run sz (e # es) s = bindE (fb_step sz e s) (fb_run sz es)"

lemma fb_run_next:
  "fb_run sz es s = Inr s' \<Longrightarrow> foldl (fb_next sz) s es = s'"
  by (induction es arbitrary: s) (auto simp: res_simps fb_next_def)

definition io_fine :: shm_io where
  "io_fine = \<lparr>sio_rand = 7, sio_shm_open = True, sio_ftruncate = True, sio_mmap = True\<rparr>"

definition a_touch :: user_input where
  "a_touch = \<lparr>inputType = INPUT_TOUCH_PRESS, devId = 0, in_x = 5, in_y = 6, in_d = 0\<rparr>"

definition size100 :: "nat \<Rightarrow> rat \<times> rat" where "size100 k = (100, 100)"

lemmas fb_eval = fbm_init_def io_fine_def a_touch_def size100_def controller_new_def setFramebufferID_def
  unregisterController_def registerController_def tryToMatchUp_def associateSHM_def update_controller_def
  client_message_def handleInitialize_def createDefaultSHM_def createSHM_def bytes_of_type_def panel_sizes
  set_thread_def fb_send_def close_begin_def close_poll_def close_end_def end_thread_def Let_def
  isControllerAssociated_def item_update_def setActive_def markedUpdate_def forwardUserInput_def
  paint_item_def image_deleted_def destroyController_def INT_MIN_def INT_MAX_def

text \<open>A client that initializes twice leaves its connection in the first backend when it ends.\<close>

definition double_init :: "fb_event list" where
  "double_init = [Ev_accept, Ev_message 0 io_fine (Init 1 0), Ev_message 0 io_fine (Init 2 0), Ev_hangup 0,
     Ev_close 0, Ev_poll, Ev_new_item False, Ev_set_id 0 1, Ev_input 0 a_touch]"

lemma double_init_dangles: "fb_run size100 double_init fbm_init = Inl (Undefined Dangling)"
  by (simp add: double_init_def fb_eval)

text \<open>An item whose identifier changes keeps the image of the old backend, and paints it when it is deleted.\<close>

definition renamed_item :: "fb_event list" where
  "renamed_item = [Ev_new_item False, Ev_set_id 0 1, Ev_accept, Ev_message 0 io_fine (Init 1 0), Ev_queue,
     Ev_set_id 0 2, Ev_hangup 0, Ev_close 0, Ev_poll, Ev_paint 0]"

lemma renamed_item_dangles: "fb_run size100 renamed_item fbm_init = Inl (Undefined Dangling)"
  by (simp add: renamed_item_def fb_eval)

text \<open>
  An item that was refused because its identifier is taken unregisters the item that has it when
  it is destroyed: a client that comes later is not shown.
\<close>

definition refused_item :: "fb_event list" where
  "refused_item = [Ev_new_item False, Ev_set_id 0 1, Ev_new_item False, Ev_set_id 1 1, Ev_destroy 1,
     Ev_accept, Ev_message 0 io_fine (Init 1 0)]"

lemma refused_item_hides:
  "\<exists>s. fb_run size100 refused_item fbm_init = Inr s \<and> backends s 1 \<noteq> None \<and> item s 0 = Some (1, None) \<and>
     framebuffers s 1 = None"
  by (simp add: refused_item_def fb_eval item_def)

text \<open>The deadlock: a client closes between the update of its item and the paint, and a touch arrives.\<close>

definition deadlock_run :: "fb_event list" where
  "deadlock_run = [Ev_new_item False, Ev_set_id 0 1, Ev_accept, Ev_message 0 io_fine (Init 1 0), Ev_queue,
     Ev_hangup 0, Ev_close 0, Ev_input 0 a_touch]"

lemma deadlock_stuck: "stuck (foldl (fb_next size100) fbm_init deadlock_run)"
proof -
  have "\<exists>s. fb_run size100 deadlock_run fbm_init = Inr s \<and> stuck s"
    by (simp add: deadlock_run_def fb_eval stuck_def)
  then show ?thesis using fb_run_next by metis
qed

lemma deadlock_allowed: "allowed_run fb_allowed (fb_next size100) fbm_init deadlock_run"
  by (simp add: deadlock_run_def fb_eval fb_allowed_def single_use_def conn_key_def item_def fb_next_def)

end
