(* ===== verification/FbListener.thy ===== *)
theory FbListener
  imports FbSafety
begin

text \<open>
  The main thread of the framebuffer manager
  (\<open>managementMainThread\<close> of \<open>src/middleware/extension/src/qtfb/fbmanagement.cpp\<close>): it opens the
  listening socket and hands every connection it accepts to a thread of its own. The answers of the
  system calls are inputs: whether \<open>socket\<close>, \<open>bind\<close> and \<open>listen\<close> succeed, and for each \<open>accept\<close> the
  descriptor, or \<open>None\<close> for -1. The threads it starts, and everything else, are the machine of
  \<open>FbManagement\<close>; the two run interleaved.
\<close>

section \<open>The thread\<close>

record listen_io =
  li_socket :: bool
  li_bind :: bool
  li_listen :: bool

text \<open>A thread that gave up returned with so many descriptors left open.\<close>

datatype main_thread = Gave_up nat | Accepting

record management =
  mg_main :: main_thread
  mg_fd :: "nat \<rightharpoonup> int"    \<comment> \<open>the descriptor \<open>clientFD\<close> of each connection\<close>
  mg_state :: fbm

definition management_start :: "listen_io \<Rightarrow> management" where
  "management_start io =
     \<lparr>mg_main = (if \<not> li_socket io then Gave_up 0
                 else if \<not> li_bind io then Gave_up 1
                 else if \<not> li_listen io then Gave_up 1
                 else Accepting),
      mg_fd = Map.empty, mg_state = fbm_init\<rparr>"

text \<open>One pass of the loop, which starts the thread of connection \<open>next_conn\<close>.\<close>

definition accept_pass :: "(nat \<Rightarrow> rat \<times> rat) \<Rightarrow> int option \<Rightarrow> management \<Rightarrow> management res" where
  "accept_pass sz r m =
     (case r of
        None \<Rightarrow> Inr m
      | Some fd \<Rightarrow>
          bindE (fb_step sz Ev_accept (mg_state m)) (\<lambda>s'.
            Inr (m\<lparr>mg_fd := (mg_fd m)(next_conn (mg_state m) \<mapsto> fd), mg_state := s'\<rparr>)))"

datatype mg_event = Mg_accept "int option" | Mg_other fb_event

fun mg_step :: "(nat \<Rightarrow> rat \<times> rat) \<Rightarrow> mg_event \<Rightarrow> management \<Rightarrow> management res" where
  "mg_step sz (Mg_accept r) m = accept_pass sz r m"
| "mg_step sz (Mg_other e) m = bindE (fb_step sz e (mg_state m)) (\<lambda>s'. Inr (m\<lparr>mg_state := s'\<rparr>))"

definition mg_next :: "(nat \<Rightarrow> rat \<times> rat) \<Rightarrow> management \<Rightarrow> mg_event \<Rightarrow> management" where
  "mg_next sz m e = (case mg_step sz e m of Inr m' \<Rightarrow> m' | Inl x \<Rightarrow> m)"

text \<open>A client's thread closes its descriptor when it ends; the kernel hands out descriptors that are not open.\<close>

definition open_fd :: "management \<Rightarrow> int \<Rightarrow> bool" where
  "open_fd m fd \<longleftrightarrow> (\<exists>c. threads (mg_state m) c \<noteq> None \<and> mg_fd m c = Some fd)"

fun mg_allowed :: "management \<Rightarrow> mg_event \<Rightarrow> bool" where
  "mg_allowed m (Mg_accept r) \<longleftrightarrow> mg_main m = Accepting \<and> (\<forall>fd. r = Some fd \<longrightarrow> \<not> open_fd m fd)"
| "mg_allowed m (Mg_other e) \<longleftrightarrow> e \<noteq> Ev_accept \<and> fb_allowed (mg_state m) e"

section \<open>Only the main thread starts threads\<close>

definition older :: "fbm \<Rightarrow> fbm \<Rightarrow> bool" where
  "older s s' \<longleftrightarrow> next_conn s' = next_conn s \<and> (\<forall>c. threads s c = None \<longrightarrow> threads s' c = None)"

lemma older_refl [simp]: "older s s"
  by (simp add: older_def)

lemma older_trans: "older a b \<Longrightarrow> older b c \<Longrightarrow> older a c"
  by (simp add: older_def)

lemma older_simps [simp]:
  "older s (s'\<lparr>framebuffers := a1\<rparr>) = older s s'" "older s (s'\<lparr>backends := a2\<rparr>) = older s s'"
  "older s (s'\<lparr>controllers := a3\<rparr>) = older s s'" "older s (s'\<lparr>queue := a4\<rparr>) = older s s'"
  "older s (s'\<lparr>closing := a5\<rparr>) = older s s'" "older s (s'\<lparr>gui_waits := a6\<rparr>) = older s s'"
  "older s (s'\<lparr>deleted := a7\<rparr>) = older s s'" "older s (s'\<lparr>sent := a8\<rparr>) = older s s'"
  "older s (s'\<lparr>emitted := a9\<rparr>) = older s s'" "older s (s'\<lparr>next_ctl := b1\<rparr>) = older s s'"
  "older s (s'\<lparr>next_image := b2\<rparr>) = older s s'"
  "older s (update_controller k f s') = older s s'" "older s (associateSHM k im s') = older s s'"
  by (simp_all add: older_def)

lemma older_ops [simp]:
  "older s s' \<Longrightarrow> older s (set_thread c f s')" "older s s' \<Longrightarrow> older s (end_thread c s')"
  "older s (tryToMatchUp key s') = older s s'" "older s (fb_send c msg s') = older s s'" "older s (post q s') = older s s'"
proof -
  show "older s s' \<Longrightarrow> older s (set_thread c f s')" by (simp add: older_def threads_set_thread)
  show "older s s' \<Longrightarrow> older s (end_thread c s')" by (simp add: older_def) (simp add: end_thread_def)
  show "older s (tryToMatchUp key s') = older s s'" by (simp add: tryToMatchUp_def split: option.splits)
  show "older s (fb_send c msg s') = older s s'" "older s (post q s') = older s s'" by (simp_all add: fb_send_def post_def)
qed

lemma older_message: "client_message io c m s = Inr s' \<Longrightarrow> older s s'"
proof -
  assume e: "client_message io c m s = Inr s'"
  have i: "older s t" if "handleInitialize io c key type custom s = Inr (ok, t)" for key type custom ok t
    using that by (auto simp: handleInitialize_def Let_def bindE_Inr_iff split: option.splits if_splits prod.splits)
  have v: "older s t" if "invokeOnConnectedFramebuffer c f s = (ok, t)" "\<And>k. older s (snd (f k s))" for f ok t
  proof -
    have "t = s \<or> (\<exists>k. f k s = (ok, t))" using that(1)
      by (auto simp: invokeOnConnectedFramebuffer_def split: option.splits if_splits)
    then show ?thesis using that(2) by (metis older_refl snd_conv)
  qed
  have u: "older s (snd (handleUpdateRegion k t r s))" for k t r by (simp add: handleUpdateRegion_def)
  show ?thesis using e
    by (cases m) (auto simp: client_message_def bindE_Inr_iff u split: if_splits prod.splits dest: i dest!: v)
qed

lemma older_forward: "forwardUserInput key i s = Inr s' \<Longrightarrow> older s s'"
proof -
  have "forward_all i cs t = Inr s' \<Longrightarrow> older t s'" for cs t
  proof (induction cs arbitrary: t)
    case (Cons c cs)
    then show ?case using older_trans [of t "fb_send c (User_input i) t"] by (auto split: if_splits)
  qed simp
  then show "forwardUserInput key i s = Inr s' \<Longrightarrow> older s s'"
    by (auto simp: forwardUserInput_def split: if_splits option.splits)
qed

lemma older_queued: "run_queued sz q s = Inr s' \<Longrightarrow> older s s'"
proof -
  have u: "older s t" if "item_update sz k f t0 = Inr t" "older s t0" for k f t0 t
    using that by (auto simp: item_update_def bindE_Inr_iff split: option.splits if_splits)
  show "run_queued sz q s = Inr s' \<Longrightarrow> older s s'"
    by (cases q) (auto simp: Let_def dest: u split: if_splits option.splits prod.splits)
qed

lemma older_closing: "older s (close_begin c s)" "older s (close_poll s)"
  by (simp_all add: close_begin_def close_poll_def close_end_def Let_def split: option.splits)

lemma older_step:
  assumes "fb_step sz e s = Inr s'" "e \<noteq> Ev_accept"
  shows "older s s'"
proof (cases e)
  case (Ev_set_id k key)
  then show ?thesis using assms(1)
    by (auto simp: setFramebufferID_def registerController_def unregisterController_def Let_def split: option.splits if_splits)
next
  case Ev_queue
  then show ?thesis using assms(1) older_queued
    by (cases "queue s") (auto dest!: older_queued intro: older_trans [of _ "s\<lparr>queue := _\<rparr>"])
next
  case (Ev_input k i)
  then show ?thesis using assms(1) older_forward by (auto split: option.splits if_splits)
next
  case Ev_resume
  then show ?thesis using assms(1)
    by (auto dest!: older_forward intro: older_trans [of _ "s\<lparr>gui_waits := None\<rparr>"] split: option.splits)
qed (use assms in \<open>auto simp: older_closing destroyController_def unregisterController_def paint_item_def
    dest: older_message split: option.splits if_splits\<close>)

section \<open>One descriptor, one thread\<close>

definition listener_inv :: "management \<Rightarrow> bool" where
  "listener_inv m \<longleftrightarrow> fb_inv (mg_state m) \<and>
     (\<forall>c. threads (mg_state m) c \<noteq> None \<longrightarrow> c < next_conn (mg_state m) \<and> mg_fd m c \<noteq> None) \<and>
     (\<forall>c d. threads (mg_state m) c \<noteq> None \<and> threads (mg_state m) d \<noteq> None \<and> mg_fd m c = mg_fd m d \<longrightarrow> c = d)"

lemma listener_inv_start: "listener_inv (management_start io)"
  by (simp add: listener_inv_def management_start_def fb_inv_init) (simp add: fbm_init_def)

lemma listener_inv_accept:
  assumes "listener_inv m" "\<not> open_fd m fd"
  shows "\<exists>m'. accept_pass sz (Some fd) m = Inr m' \<and> listener_inv m' \<and> open_fd m' fd \<and>
    threads (mg_state m') (next_conn (mg_state m)) = Some \<lparr>fbKey = -1, exiting = False\<rparr>"
proof -
  have "fb_inv ((mg_state m)\<lparr>threads := (threads (mg_state m))(next_conn (mg_state m) \<mapsto> \<lparr>fbKey = -1, exiting = False\<rparr>),
      next_conn := next_conn (mg_state m) + 1\<rparr>)"
    using assms(1) fb_inv_accept by (simp add: listener_inv_def)
  moreover have "threads (mg_state m) d = None" if "mg_fd m d = Some fd" for d using assms(2) that by (auto simp: open_fd_def)
  ultimately show ?thesis using assms(1)
    by (fastforce simp: accept_pass_def listener_inv_def open_fd_def less_Suc_eq)
qed

lemma listener_inv_other:
  assumes m: "listener_inv m" and e: "fb_step sz e (mg_state m) = Inr s'" "e \<noteq> Ev_accept" and a: "fb_allowed (mg_state m) e"
  shows "listener_inv (m\<lparr>mg_state := s'\<rparr>)"
proof -
  have "fb_inv s'" using fb_step_defined [of "mg_state m" e sz] m a e(1) by (auto simp: listener_inv_def fb_allowed_def)
  moreover have "threads s' c \<noteq> None \<Longrightarrow> threads (mg_state m) c \<noteq> None" "next_conn s' = next_conn (mg_state m)" for c
    using older_step [OF e] by (auto simp: older_def)
  ultimately show ?thesis using m by (auto simp: listener_inv_def)
qed

interpretation mg_sys: transition_system "management_start io" mg_allowed "mg_next sz" listener_inv
proof unfold_locales
  show "listener_inv (management_start io)" by (rule listener_inv_start)
next
  fix m e assume i: "listener_inv m" and a: "mg_allowed m e"
  show "listener_inv (mg_next sz m e)"
  proof (cases e)
    case (Mg_accept r)
    then show ?thesis using i a listener_inv_accept [OF i, of _ sz]
      by (cases r) (auto simp: mg_next_def accept_pass_def)
  next
    case (Mg_other f)
    then show ?thesis using i a listener_inv_other [OF i, of sz f]
      by (auto simp: mg_next_def bindE_Inr_iff split: sum.splits)
  qed
qed

text \<open>A failing \<open>accept\<close> is tried again at once: while it fails, the loop does nothing else.\<close>

lemma accept_spins: "foldl (mg_next sz) m (replicate n (Mg_accept None)) = m"
  by (induction n) (simp_all add: mg_next_def accept_pass_def)

text \<open>A refused address or a failing \<open>listen\<close> leaves the socket open and the manager deaf.\<close>

lemma refused_listener:
  assumes "li_socket io" "\<not> li_bind io \<or> \<not> li_listen io" "allowed_run mg_allowed (mg_next sz) (management_start io) es"
  shows "mg_main (foldl (mg_next sz) (management_start io) es) = Gave_up 1"
    "threads (mg_state (foldl (mg_next sz) (management_start io) es)) = Map.empty"
proof -
  have "mg_main m = Gave_up 1 \<Longrightarrow> threads (mg_state m) = Map.empty \<Longrightarrow> allowed_run mg_allowed (mg_next sz) m es \<Longrightarrow>
    mg_main (foldl (mg_next sz) m es) = Gave_up 1 \<and> threads (mg_state (foldl (mg_next sz) m es)) = Map.empty" for m
  proof (induction es arbitrary: m)
    case (Cons e es)
    have "mg_main (mg_next sz m e) = Gave_up 1 \<and> threads (mg_state (mg_next sz m e)) = Map.empty"
      using Cons.prems by (cases e)
        (auto simp: mg_next_def older_def fun_eq_iff bindE_Inr_iff dest!: older_step split: sum.splits)
    then show ?case using Cons by simp
  qed simp
  moreover have "mg_main (management_start io) = Gave_up 1" "threads (mg_state (management_start io)) = Map.empty"
    using assms(1,2) by (auto simp: management_start_def fbm_init_def)
  ultimately show "mg_main (foldl (mg_next sz) (management_start io) es) = Gave_up 1"
    "threads (mg_state (foldl (mg_next sz) (management_start io) es)) = Map.empty" using assms(3) by blast+
qed

end
