(* ===== verification/TouchPath.thy ===== *)
theory TouchPath
  imports AppInput FbSafety
begin

text \<open>
  The way of a touch, from the item of the middleware to the VNC server: the item turns Qt's touch
  events into packets in pixels of its image (\<open>qtfb/FBController.cpp\<close>), the framebuffer manager sends
  them to the client behind it (\<open>qtfb/fbmanagement.cpp\<close>), and vnsee's input thread turns them into
  pointer events of the desktop (\<open>app/client.cpp\<close>, \<open>app/touch.cpp\<close>). The socket between them keeps
  messages whole and in order. The definitions here only put the operations of the three components
  one after another.
\<close>

section \<open>The stations\<close>

text \<open>Touch events of one finger, one point each.\<close>

fun touch_events ::
  "rat \<Rightarrow> rat \<Rightarrow> touch_point list \<Rightarrow> controller \<Rightarrow> (controller \<times> user_input list) res" where
  "touch_events W H [] c = Inr (c, [])"
| "touch_events W H (p # ps) c =
     bindE (touchEvent W H [p] c) (\<lambda>(c1, is, g).
     bindE (touch_events W H ps c1) (\<lambda>(c2, js). Inr (c2, is @ js)))"

fun forward_inputs :: "int \<Rightarrow> user_input list \<Rightarrow> fbm \<Rightarrow> fbm res" where
  "forward_inputs key [] s = Inr s"
| "forward_inputs key (i # is) s = bindE (forwardUserInput key i s) (forward_inputs key is)"

fun read_inputs :: "(al_call list \<Rightarrow> refresh_mode) \<Rightarrow> int \<Rightarrow> user_input list \<Rightarrow> app \<Rightarrow> (app option) res" where
  "read_inputs cm now [] a = Inr (Some a)"
| "read_inputs cm now (i # is) a =
     bindE (input_packet cm now (inputType i, in_x i, in_y i) a) (\<lambda>r.
     case r of None \<Rightarrow> Inr None | Some a' \<Rightarrow> read_inputs cm now is a')"

text \<open>A finger that goes down, moves and is lifted.\<close>

definition swipe :: "int \<Rightarrow> rat \<times> rat \<Rightarrow> (rat \<times> rat) list \<Rightarrow> rat \<times> rat \<Rightarrow> touch_point list" where
  "swipe i p0 ps p1 =
     \<lparr>tp_id = i, tp_state = Pressed, tp_pos = p0\<rparr> #
     map (\<lambda>p. \<lparr>tp_id = i, tp_state = Updated, tp_pos = p\<rparr>) ps @
     [\<lparr>tp_id = i, tp_state = Released, tp_pos = p1\<rparr>]"

section \<open>The pixel under the finger\<close>

text \<open>
  \<open>Draw_scaled\<close> stretches the image over the item, so the pixel \<open>(a, b)\<close> covers the points between
  \<open>a * W / w\<close> and \<open>(a + 1) * W / w\<close>, and likewise below.
\<close>

definition pixel_under :: "rat \<Rightarrow> rat \<Rightarrow> fb_image \<Rightarrow> rat \<times> rat \<Rightarrow> int \<times> int \<Rightarrow> bool" where
  "pixel_under W H im = (\<lambda>(x, y) (a, b).
     0 \<le> a \<and> a < img_w im \<and> 0 \<le> b \<and> b < img_h im \<and>
     of_int a * W / of_int (img_w im) \<le> x \<and> x < of_int (a + 1) * W / of_int (img_w im) \<and>
     of_int b * H / of_int (img_h im) \<le> y \<and> y < of_int (b + 1) * H / of_int (img_h im))"

definition on_item :: "rat \<Rightarrow> rat \<Rightarrow> rat \<times> rat \<Rightarrow> bool" where
  "on_item W H = (\<lambda>(x, y). 0 \<le> x \<and> x < W \<and> 0 \<le> y \<and> y < H)"

definition shows_image :: "controller \<Rightarrow> fb_image \<Rightarrow> bool" where
  "shows_image c im \<longleftrightarrow> framebufferID c \<noteq> -1 \<and> allowScaling c \<and> fb_image c = Some im \<and>
     0 < img_w im \<and> img_w im \<le> INT_MAX \<and> 0 < img_h im \<and> img_h im \<le> INT_MAX"

lemma floor_cell:
  fixes x W :: rat
  assumes "0 < W" "0 < n"
  shows "of_int \<lfloor>x * of_int n / W\<rfloor> * W / of_int n \<le> x" "x < of_int (\<lfloor>x * of_int n / W\<rfloor> + 1) * W / of_int n"
proof -
  let ?a = "\<lfloor>x * of_int n / W\<rfloor>"
  have n: "0 < (of_int n :: rat)" using assms(2) by simp
  have l: "of_int ?a \<le> x * of_int n / W" "x * of_int n / W < of_int (?a + 1)" by linarith+
  have "of_int ?a * W \<le> x * of_int n" by (rule pos_le_divide_eq [THEN iffD1, OF assms(1) l(1)])
  then show "of_int ?a * W / of_int n \<le> x" using n by (simp add: pos_divide_le_eq)
  have "x * of_int n < of_int (?a + 1) * W" by (rule pos_divide_less_eq [THEN iffD1, OF assms(1) l(2)])
  then show "x < of_int (?a + 1) * W / of_int n" using n by (simp add: pos_less_divide_eq)
qed

lemma trunc_floor: "0 \<le> q \<Longrightarrow> trunc_rat q = \<lfloor>q\<rfloor>"
  by (simp add: trunc_rat_def)

lemma convert_pixel_under:
  assumes c: "shows_image c im" and p: "on_item W H p"
  obtains q where "convertPointToQTFBPixels W H c p = Inr q" "pixel_under W H im p q"
proof -
  obtain x y where xy: "p = (x, y)" by (cases p)
  have pos: "0 < W" "0 < H" "0 \<le> x" "x < W" "0 \<le> y" "y < H" using p by (auto simp: on_item_def xy)
  have im: "0 < img_w im" "0 < img_h im" "img_w im \<le> INT_MAX" "img_h im \<le> INT_MAX" "allowScaling c" "fb_image c = Some im"
    using c by (simp_all add: shows_image_def)
  obtain a b where ab: "convertPointToQTFBPixels W H c p = Inr (a, b)" "0 \<le> a" "a < img_w im" "0 \<le> b" "b < img_h im"
    using convert_in_image [of c im x W y H] im pos unfolding xy by blast
  have "trunc_rat (x * of_int (img_w im) / W) = \<lfloor>x * of_int (img_w im) / W\<rfloor>"
    "trunc_rat (y * of_int (img_h im) / H) = \<lfloor>y * of_int (img_h im) / H\<rfloor>"
    using im pos by (simp_all add: trunc_floor)
  then have "a = \<lfloor>x * of_int (img_w im) / W\<rfloor>" "b = \<lfloor>y * of_int (img_h im) / H\<rfloor>"
    using ab(1) im pos by (auto simp: convertPointToQTFBPixels_def xy to_int_def bindE_Inr_iff split: if_splits)
  then have "pixel_under W H im p (a, b)"
    using floor_cell [OF pos(1) im(1), of x] floor_cell [OF pos(2) im(2), of y] ab by (simp add: pixel_under_def xy)
  with that ab(1) show thesis by blast
qed

section \<open>From the item to the client\<close>

definition touch_packet :: "int \<Rightarrow> int \<Rightarrow> int \<times> int \<Rightarrow> user_input" where
  "touch_packet i t = (\<lambda>(a, b). \<lparr>inputType = t, devId = i, in_x = a, in_y = b, in_d = 0\<rparr>)"

fun touch_code :: "point_state \<Rightarrow> int" where
  "touch_code Released = INPUT_TOUCH_RELEASE"
| "touch_code Updated = INPUT_TOUCH_UPDATE"
| "touch_code _ = INPUT_TOUCH_PRESS"

lemma shows_image_flags [simp]:
  "shows_image (c\<lparr>checkingGestureDragDown := u\<rparr>) im = shows_image c im"
  "shows_image (c\<lparr>refreshedScreenAlready := v\<rparr>) im = shows_image c im"
  by (simp_all add: shows_image_def)

lemma touchEvent_single:
  assumes c: "shows_image c im" and p: "on_item W H (tp_pos p)"
  obtains q c' g where "touchEvent W H [p] c = Inr (c', [touch_packet (tp_id p) (touch_code (tp_state p)) q], g)"
    "pixel_under W H im (tp_pos p) q" "shows_image c' im" "framebufferID c' = framebufferID c"
proof -
  obtain q where q: "convertPointToQTFBPixels W H c (tp_pos p) = Inr q" "pixel_under W H im (tp_pos p) q"
    using convert_pixel_under [OF c p] by blast
  obtain a b where ab: "q = (a, b)" by (cases q)
  have "\<exists>c' g. touch_point_step W H 1 p c = Inr (c', touch_packet (tp_id p) (touch_code (tp_state p)) q, g) \<and>
    shows_image c' im \<and> framebufferID c' = framebufferID c"
    using c by (cases "tp_state p") (simp_all add: touch_point_step_def q(1) [unfolded ab] ab touch_packet_def)
  then obtain c' g where "touch_point_step W H 1 p c = Inr (c', touch_packet (tp_id p) (touch_code (tp_state p)) q, g)"
    "shows_image c' im" "framebufferID c' = framebufferID c" by blast
  then show thesis using that [of c' q g] q(2) c by (simp add: touchEvent_def shows_image_def)
qed

lemma touch_events_packets:
  "shows_image c im \<Longrightarrow> list_all (\<lambda>p. on_item W H (tp_pos p)) ps \<Longrightarrow>
     \<exists>c' qs. touch_events W H ps c =
         Inr (c', map2 (\<lambda>p q. touch_packet (tp_id p) (touch_code (tp_state p)) q) ps qs) \<and>
       list_all2 (pixel_under W H im) (map tp_pos ps) qs"
proof (induction ps arbitrary: c)
  case (Cons p ps)
  then have p: "on_item W H (tp_pos p)" by simp
  obtain q c1 g where q: "touchEvent W H [p] c = Inr (c1, [touch_packet (tp_id p) (touch_code (tp_state p)) q], g)"
    "pixel_under W H im (tp_pos p) q" "shows_image c1 im"
    using touchEvent_single [OF Cons.prems(1) p] by blast
  obtain c2 qs where "touch_events W H ps c1 = Inr (c2, map2 (\<lambda>p q. touch_packet (tp_id p) (touch_code (tp_state p)) q) ps qs)"
    "list_all2 (pixel_under W H im) (map tp_pos ps) qs"
    using Cons.IH [OF q(3)] Cons.prems(2) by auto
  with q show ?case by (intro exI [of _ c2] exI [of _ "q # qs"]) simp
qed simp

lemma forward_single:
  assumes "closing s = None" "backends s key = Some b" "be_connections b = [k]" "threads s k \<noteq> None"
  shows "\<exists>s'. forward_inputs key is s = Inr s' \<and> sent s' = sent s @ map (\<lambda>i. (k, User_input i)) is"
  using assms
proof (induction "is" arbitrary: s)
  case (Cons i "is")
  have f: "forwardUserInput key i s = Inr (fb_send k (User_input i) s)" using Cons.prems by (simp add: forwardUserInput_def)
  obtain s' where "forward_inputs key is (fb_send k (User_input i) s) = Inr s'"
    "sent s' = sent (fb_send k (User_input i) s) @ map (\<lambda>i. (k, User_input i)) is"
    using Cons.IH [of "fb_send k (User_input i) s"] Cons.prems by (auto simp: fb_send_def)
  then show ?case by (intro exI [of _ s']) (simp add: f fb_send_def)
qed simp

lemma list_all2_right: "list_all2 P xs ys \<Longrightarrow> y \<in> set ys \<Longrightarrow> \<exists>x \<in> set xs. P x y"
  by (induction rule: list_all2_induct) auto

section \<open>From the client to the VNC server\<close>

lemma read_touch_packets:
  assumes "list_all (\<lambda>(t, p). t \<in> {INPUT_TOUCH_PRESS, INPUT_TOUCH_UPDATE, INPUT_TOUCH_RELEASE}) es"
  shows "read_inputs cm now (map (\<lambda>(t, p). touch_packet i t p) es) a =
     bindE (run_touch cm now es a) (\<lambda>a'. Inr (Some a'))"
  using assms
proof (induction es arbitrary: a)
  case (Cons e es)
  obtain t x y where e: "e = (t, x, y)" by (cases e)
  have "input_packet cm now (t, x, y) a = bindE (touch_handle_event cm now t x y a) (\<lambda>a'. Inr (Some a'))"
  proof -
    have "t \<in> {INPUT_TOUCH_PRESS, INPUT_TOUCH_UPDATE, INPUT_TOUCH_RELEASE, INPUT_PEN_PRESS, INPUT_PEN_UPDATE, INPUT_PEN_RELEASE}"
      using Cons.prems by (auto simp: e)
    then show ?thesis unfolding input_packet_def prod.case by (rule if_P)
  qed
  with Cons show ?case by (cases "touch_handle_event cm now t x y a") (simp_all add: e touch_packet_def)
qed simp

definition pointer_at :: "screen \<Rightarrow> u8 \<Rightarrow> int \<times> int \<Rightarrow> rfb_event" where
  "pointer_at sc m = (\<lambda>(a, b). case shown_at sc a b of (x, y) \<Rightarrow> Pointer_event x y m)"

lemma gesture_run:
  "run_touch cm now ((INPUT_TOUCH_PRESS, p0) # map (Pair INPUT_TOUCH_UPDATE) ps @ [(INPUT_TOUCH_RELEASE, p1)]) (s, out) =
     bindE (repaint cm now (s\<lparr>repaint_mode := standard\<rparr>)) (\<lambda>s'.
       Inr (s', out @ drag_points s (p0 # ps @ [p1]) @ [case transform_input s p1 of (x, y) \<Rightarrow> Pointer_event x y 0]))"
proof -
  obtain x0 y0 x1 y1 where p: "p0 = (x0, y0)" "p1 = (x1, y1)" by (cases p0; cases p1) auto
  obtain a0 b0 where t0: "transform_input s (x0, y0) = (a0, b0)" by (cases "transform_input s (x0, y0)") auto
  obtain a1 b1 where t1: "transform_input s (x1, y1) = (a1, b1)" by (cases "transform_input s (x1, y1)") auto
  let ?f = "s\<lparr>repaint_mode := fast\<rparr>"
  have tf: "transform_input ?f q = transform_input s q" for q
    using transform_input_mode [of fast s q] by (simp add: set_repaint_mode_def)
  have first: "touch_handle_event cm now INPUT_TOUCH_PRESS x0 y0 (s, out) = Inr (?f, out @ [Pointer_event a0 b0 1])"
    by (simp add: touch_handle_event_def input_codes app_set_mode_def send_button_press_def tf t0 set_repaint_mode_def)
  have last: "touch_handle_event cm now INPUT_TOUCH_RELEASE x1 y1 (?f, o') =
      bindE (repaint cm now (s\<lparr>repaint_mode := standard\<rparr>)) (\<lambda>s'. Inr (s', o' @ [Pointer_event a1 b1 1, Pointer_event a1 b1 0]))" for o'
    by (simp add: touch_handle_event_def input_codes app_set_mode_def send_button_press_def tf t1 set_repaint_mode_def app_repaint_def)
  have up: "map (Pair INPUT_TOUCH_UPDATE) ps = map (\<lambda>(x, y). (INPUT_TOUCH_UPDATE, x, y)) ps" by (induction ps) auto
  have dp: "drag_points ?f qs = drag_points s qs" for qs by (simp add: drag_points_def tf)
  have moves: "run_touch cm now (map (Pair INPUT_TOUCH_UPDATE) ps @ es) (?f, o') = run_touch cm now es (?f, o' @ drag_points s ps)"
    for es o' unfolding up run_touch_moves dp by (rule refl)
  show ?thesis unfolding p
    by (simp add: first moves last res_simps) (simp add: drag_points_def t0 t1)
qed

lemma swipe_packets:
  "length qs = length ps \<Longrightarrow>
   map2 (\<lambda>p q. touch_packet (tp_id p) (touch_code (tp_state p)) q) (swipe i p0 ps p1) (q0 # qs @ [q1]) =
   map (\<lambda>(t, q). touch_packet i t q)
     ((INPUT_TOUCH_PRESS, q0) # map (Pair INPUT_TOUCH_UPDATE) qs @ [(INPUT_TOUCH_RELEASE, q1)])"
proof -
  have m: "length qs = length ps \<Longrightarrow>
    map2 (\<lambda>p q. touch_packet (tp_id p) (touch_code (tp_state p)) q)
      (map (\<lambda>p. \<lparr>tp_id = i, tp_state = Updated, tp_pos = p\<rparr>) ps) qs = map (touch_packet i INPUT_TOUCH_UPDATE) qs"
    by (induction qs ps rule: list_induct2) simp_all
  show "length qs = length ps \<Longrightarrow> ?thesis" using m by (simp add: swipe_def comp_def zip_append)
qed

lemma swipe_reaches_desktop:
  assumes c: "shows_image c im" and on: "list_all (on_item W H) (p0 # ps @ [p1])"
    and m: "closing s = None" "backends s (framebufferID c) = Some b" "be_connections b = [k]" "threads s k \<noteq> None"
    and sc: "screen_ok sc" "0 < src_width sc" "0 < src_height sc"
  shows "\<exists>c' is s' q0 qs q1. touch_events W H (swipe i p0 ps p1) c = Inr (c', is) \<and>
    forward_inputs (framebufferID c) is s = Inr s' \<and> sent s' = sent s @ map (\<lambda>u. (k, User_input u)) is \<and>
    list_all2 (pixel_under W H im) (p0 # ps @ [p1]) (q0 # qs @ [q1]) \<and>
    (case read_inputs cm now is (sc, out) of
       Inl e \<Rightarrow> kernel_failure e
     | Inr None \<Rightarrow> False
     | Inr (Some (sc', out')) \<Rightarrow>
         out' = out @ map (pointer_at sc 1) (q0 # qs @ [q1]) @ [pointer_at sc 0 q1])"
proof -
  have pos: "map tp_pos (swipe i p0 ps p1) = p0 # ps @ [p1]" by (simp add: swipe_def comp_def)
  have "list_all (\<lambda>p. on_item W H (tp_pos p)) (swipe i p0 ps p1)" using on by (simp add: swipe_def list_all_iff)
  then obtain c' ks where t: "touch_events W H (swipe i p0 ps p1) c =
      Inr (c', map2 (\<lambda>p q. touch_packet (tp_id p) (touch_code (tp_state p)) q) (swipe i p0 ps p1) ks)"
    "list_all2 (pixel_under W H im) (p0 # ps @ [p1]) ks"
    using touch_events_packets [OF c] unfolding pos [symmetric] by blast
  obtain q0 qs q1 where ks: "ks = q0 # qs @ [q1]" "length qs = length ps"
    using t(2) by (auto simp: list_all2_Cons1 list_all2_append1 dest: list_all2_lengthD)
  let ?es = "(INPUT_TOUCH_PRESS, q0) # map (Pair INPUT_TOUCH_UPDATE) qs @ [(INPUT_TOUCH_RELEASE, q1)]"
  let ?is = "map (\<lambda>(t, q). touch_packet i t q) ?es"
  obtain s' where s': "forward_inputs (framebufferID c) ?is s = Inr s'" "sent s' = sent s @ map (\<lambda>u. (k, User_input u)) ?is"
    using forward_single [OF m] by blast
  have rd: "read_inputs cm now ?is (sc, out) = bindE (run_touch cm now ?es (sc, out)) (\<lambda>a'. Inr (Some a'))"
    by (rule read_touch_packets) (simp add: list_all_iff)
  have pa: "(case transform_input sc q of (x, y) \<Rightarrow> Pointer_event x y m) = pointer_at sc m q" for q m
    using transform_input_shown [OF sc(2,3)] by (cases q) (simp add: pointer_at_def)
  have "case run_touch cm now ?es (sc, out) of Inl e \<Rightarrow> kernel_failure e
     | Inr (sc', out') \<Rightarrow> out' = out @ map (pointer_at sc 1) (q0 # qs @ [q1]) @ [pointer_at sc 0 q1]"
    using repaint_spec [of "sc\<lparr>repaint_mode := standard\<rparr>", where cm = cm and now = now] sc(1)
    by (simp add: gesture_run drag_points_def pa screen_ok_def split: sum.splits)
  then have "case read_inputs cm now ?is (sc, out) of Inl e \<Rightarrow> kernel_failure e | Inr None \<Rightarrow> False
     | Inr (Some (sc', out')) \<Rightarrow> out' = out @ map (pointer_at sc 1) (q0 # qs @ [q1]) @ [pointer_at sc 0 q1]"
    unfolding rd by (auto split: sum.splits)
  moreover have "touch_events W H (swipe i p0 ps p1) c = Inr (c', ?is)"
    using t(1) unfolding ks(1) swipe_packets [OF ks(2)] .
  ultimately show ?thesis using s' t(2) unfolding ks(1) by blast
qed

end
