(* ===== verification/AppPath.thy ===== *)
theory AppPath
  imports AppScreen FbSafety
begin

text \<open>
  The way of a repaint on the AppLoad display, the counterpart of \<open>TouchPath\<close>: vnsee's screen fills
  the shared memory and calls AppLoad's client library (\<open>rmioc/screen.cpp\<close>), the library sends the
  calls as messages, the framebuffer manager posts them to the item (\<open>qtfb/fbmanagement.cpp\<close>), and
  the item asks Qt for a repaint (\<open>qtfb/FBController.cpp\<close>). The library is outside the repository: how
  it writes a call as a message is the parameter \<open>msg\<close> under \<open>speaks_qtfb\<close>.
\<close>

section \<open>The stations\<close>

fun mode_code :: "refresh_mode \<Rightarrow> int" where
  "mode_code REFRESH_MODE_UFAST = 0"
| "mode_code REFRESH_MODE_FAST = 1"
| "mode_code REFRESH_MODE_ANIMATE = 2"
| "mode_code REFRESH_MODE_CONTENT = 3"
| "mode_code REFRESH_MODE_UI = 4"

definition speaks_qtfb :: "(al_call \<Rightarrow> client_msg) \<Rightarrow> bool" where
  "speaks_qtfb msg \<longleftrightarrow>
     (\<forall>x y w h. msg (SendPartialUpdate x y w h) = Update_region UPDATE_PARTIAL x y w h) \<and>
     msg SendCompleteUpdate = Update_region UPDATE_ALL 0 0 0 0 \<and>
     (\<forall>m. msg (SetRefreshMode m) = Set_refresh_mode (mode_code m))"

text \<open>The client's thread receives the messages of a connection in order.\<close>

fun receive_calls :: "(al_call \<Rightarrow> client_msg) \<Rightarrow> shm_io \<Rightarrow> nat \<Rightarrow> al_call list \<Rightarrow> fbm \<Rightarrow> fbm res" where
  "receive_calls msg io c [] s = Inr s"
| "receive_calls msg io c (a # as) s = bindE (client_message io c (msg a) s) (receive_calls msg io c as)"

text \<open>The GUI thread runs what has been posted.\<close>

fun run_all :: "(nat \<Rightarrow> rat \<times> rat) \<Rightarrow> queued list \<Rightarrow> fbm \<Rightarrow> fbm res" where
  "run_all sz [] s = Inr s"
| "run_all sz (q # qs) s = bindE (run_queued sz q s) (run_all sz qs)"

text \<open>The connection \<open>c\<close> is attached to the item \<open>k\<close>, which shows the image \<open>im\<close> unscaled.\<close>

definition shows_unscaled :: "fbm \<Rightarrow> nat \<Rightarrow> nat \<Rightarrow> fb_image \<Rightarrow> bool" where
  "shows_unscaled s c k im \<longleftrightarrow> (\<exists>t ct. threads s c = Some t \<and> fbKey t \<noteq> -1 \<and> framebuffers s (fbKey t) = Some k \<and>
     controllers s k = Some ct \<and> active ct \<and> \<not> allowScaling ct \<and> fb_image ct = Some im)"

section \<open>From the screen to the calls\<close>

text \<open>What a repaint hands to the library: maybe a mode, then at most one rectangle.\<close>

definition repaint_calls :: "al_call list \<Rightarrow> bool" where
  "repaint_calls as \<longleftrightarrow> (\<forall>a \<in> set as. a \<noteq> SendCompleteUpdate)"

lemma repaint_appload:
  assumes ok: "screen_ok s" and dev: "sc_device s = Appload a"
  shows "\<exists>s' a' as. repaint_copy cm s = Inr s' \<and> sc_device s' = Appload a' \<and> al_calls a' = al_calls a @ as \<and>
    repaint_calls as \<and> (\<forall>col row. on_panel s col row \<and> panel_px s' col row \<noteq> panel_px s col row \<longrightarrow>
      (\<exists>x y w h. SendPartialUpdate x y w h \<in> set as \<and> in_rect x y w h (col, row)))"
proof -
  obtain d dx dy dw dh where
    d: "blit_rotated (ui_x (update_info s)) (ui_y (update_info s)) (ui_w (update_info s)) (ui_h (update_info s)) s =
        Inr (s\<lparr>sc_device := put_data d (sc_device s)\<rparr>, dx, dy, dw, dh)"
      "repainted s (s\<lparr>sc_device := put_data d (sc_device s)\<rparr>)"
    and ins: "\<And>c r. on_panel s c r \<Longrightarrow>
      in_rect dx dy dw dh (c, r) \<longleftrightarrow> in_pending s (shown_at s c r) \<and> in_source s (shown_at s c r)"
    using pending_copied [OF ok refl] by metis
  let ?m = "if repaint_mode s = standard then standard_waveform_mode s else fast_waveform_mode s"
  let ?a = "a\<lparr>al_shm := d\<rparr>"
  have px: "in_rect dx dy dw dh (col, row)"
    if "on_panel s col row" "panel_px t col row \<noteq> panel_px s col row"
      "get_data (sc_device t) = d" "panel_geom t = panel_geom s" for t col row
    using d(2) that ins [OF that(1)] unfolding repainted_def
    by (auto simp: panel_px_def panel_geom_def dev split: if_splits)
  show ?thesis
  proof (cases "dw \<le> 0 \<or> dh \<le> 0")
    case True
    then have "\<not> in_rect dx dy dw dh p" for p by (auto simp: in_rect_def split: prod.splits)
    with True d(1) px [of _ _ "s\<lparr>sc_device := Appload ?a\<rparr>"] show ?thesis
      by (intro exI [of _ "s\<lparr>sc_device := Appload ?a\<rparr>"] exI [of _ ?a] exI [of _ "[]"])
        (auto simp: repaint_copy_def Let_def dev repaint_calls_def panel_geom_def)
  next
    case False
    let ?b = "al_set_mode cm ?m ?a"
    let ?c = "?b\<lparr>al_calls := al_calls ?b @ [SendPartialUpdate dx dy dw dh]\<rparr>"
    have e: "repaint_copy cm s = Inr (s\<lparr>sc_device := Appload ?c\<rparr>)"
      using False d(1) by (simp add: repaint_copy_def Let_def dev)
    have g: "al_shm ?c = d" "al_w ?c = al_w a" "al_h ?c = al_h a" by (simp_all add: al_set_mode_def)
    have "\<exists>as. al_calls ?c = al_calls a @ as @ [SendPartialUpdate dx dy dw dh] \<and> repaint_calls as"
      by (auto simp: al_set_mode_def repaint_calls_def)
    then obtain as where as: "al_calls ?c = al_calls a @ as @ [SendPartialUpdate dx dy dw dh]" "repaint_calls as"
      by blast
    have "\<exists>x y w h. SendPartialUpdate x y w h \<in> set (as @ [SendPartialUpdate dx dy dw dh]) \<and> in_rect x y w h (col, row)"
      if "on_panel s col row" "panel_px (s\<lparr>sc_device := Appload ?c\<rparr>) col row \<noteq> panel_px s col row" for col row
      using px [OF that] g by (intro exI [of _ dx] exI [of _ dy] exI [of _ dw] exI [of _ dh]) (simp add: panel_geom_def dev)
    then show ?thesis using as
      by (intro exI [of _ "s\<lparr>sc_device := Appload ?c\<rparr>"] exI [of _ ?c] exI [of _ "as @ [SendPartialUpdate dx dy dw dh]"])
        (simp add: e repaint_calls_def)
  qed
qed

section \<open>From the calls to the item\<close>

fun posted :: "nat \<Rightarrow> al_call \<Rightarrow> queued" where
  "posted k (SetRefreshMode m) = Q_refresh k (mode_code m)"
| "posted k (SendPartialUpdate x y w h) = Q_update k (x, y, w, h)"
| "posted k SendCompleteUpdate = Q_update k (0, 0, 0, 0)"

lemma mode_code_range: "0 \<le> mode_code m \<and> mode_code m \<le> 4"
  by (cases m) simp_all

lemma receive_posts:
  assumes msg: "speaks_qtfb msg" and at: "shows_unscaled s c k im"
  shows "receive_calls msg io c as s = Inr (post (map (posted k) as) s)"
  using at
proof (induction as arbitrary: s)
  case (Cons a as)
  have "client_message io c (msg a) s = Inr (post [posted k a] s)"
  proof (cases a)
    case (SetRefreshMode m)
    then show ?thesis using Cons.prems msg mode_code_range [of m]
      by (auto simp: client_message_def speaks_qtfb_def invokeOnConnectedFramebuffer_def shows_unscaled_def post_def)
  qed (use Cons.prems msg in \<open>auto simp: client_message_def speaks_qtfb_def invokeOnConnectedFramebuffer_def
        shows_unscaled_def handleUpdateRegion_def UPDATE_ALL_def UPDATE_PARTIAL_def\<close>)
  moreover have "shows_unscaled (post [posted k a] s) c k im" using Cons.prems by (simp add: shows_unscaled_def post_def)
  ultimately show ?case using Cons.IH by (simp add: post_def)
qed (simp add: post_def)

text \<open>Each posted call leaves the item as attached as before; an update is a request for a repaint.\<close>

fun requested_by :: "al_call \<Rightarrow> fb_signal list" where
  "requested_by (SendPartialUpdate x y w h) = [Update_item x y w h]"
| "requested_by SendCompleteUpdate = [Update_item 0 0 0 0]"
| "requested_by (SetRefreshMode m) = []"

lemma run_posted:
  assumes at: "shows_unscaled s c k im"
  shows "\<exists>s' gs. run_queued sz (posted k a) s = Inr s' \<and> shows_unscaled s' c k im \<and> queue s' = queue s \<and>
    emitted s' = emitted s @ gs \<and> Pair k ` set (requested_by a) \<subseteq> set gs"
  using at
  by (cases a) (auto simp: shows_unscaled_def item_update_def markedUpdate_def setRefreshMode_def)

lemma run_all_posted:
  assumes "shows_unscaled s c k im"
  shows "\<exists>s' gs. run_all sz (map (posted k) as) s = Inr s' \<and> shows_unscaled s' c k im \<and> queue s' = queue s \<and>
    emitted s' = emitted s @ gs \<and> (\<forall>a \<in> set as. Pair k ` set (requested_by a) \<subseteq> set gs)"
  using assms
proof (induction as arbitrary: s)
  case (Cons a as)
  obtain s1 gs1 where 1: "run_queued sz (posted k a) s = Inr s1" "shows_unscaled s1 c k im" "queue s1 = queue s"
      "emitted s1 = emitted s @ gs1" "Pair k ` set (requested_by a) \<subseteq> set gs1"
    using run_posted [OF Cons.prems] by blast
  obtain s2 gs2 where 2: "run_all sz (map (posted k) as) s1 = Inr s2" "shows_unscaled s2 c k im" "queue s2 = queue s1"
      "emitted s2 = emitted s1 @ gs2" "\<forall>a \<in> set as. Pair k ` set (requested_by a) \<subseteq> set gs2"
    using Cons.IH [OF 1(2)] by blast
  have "\<forall>b \<in> set (a # as). Pair k ` set (requested_by b) \<subseteq> set (gs1 @ gs2)"
    using 1(5) 2(5) unfolding set_append set_simps ball_simps by blast
  with 1 2 show ?case by (intro exI [of _ s2] exI [of _ "gs1 @ gs2"]) simp
qed simp

text \<open>The item then draws the image pixel by pixel.\<close>

lemma unscaled_paints:
  "shows_unscaled s c k im \<Longrightarrow> \<exists>ct. controllers s k = Some ct \<and> snd (paint ct) = Draw_at_origin im"
  by (auto simp: shows_unscaled_def paint_def)

section \<open>The whole way\<close>

lemma repaint_reaches_unscaled:
  assumes msg: "speaks_qtfb msg" and sc: "screen_ok sc" "sc_device sc = Appload a"
    and at: "shows_unscaled s c k im" "queue s = []"
  shows "\<exists>sc' a' as s1 s2 gs. repaint cm now sc = Inr sc' \<and> sc_device sc' = Appload a' \<and> al_calls a' = al_calls a @ as \<and>
    receive_calls msg io c as s = Inr s1 \<and> run_all sz (queue s1) (s1\<lparr>queue := []\<rparr>) = Inr s2 \<and>
    queue s2 = [] \<and> shows_unscaled s2 c k im \<and> emitted s2 = emitted s @ gs \<and>
    (\<forall>col row. on_panel sc col row \<and> panel_px sc' col row \<noteq> panel_px sc col row \<longrightarrow>
      (\<exists>x y w h. (k, Update_item x y w h) \<in> set gs \<and> in_rect x y w h (col, row)))"
proof -
  let ?b = "repaint_begin now sc"
  have b: "screen_ok ?b" "sc_device ?b = Appload a" "panel_px ?b = panel_px sc" "on_panel ?b = on_panel sc"
    using sc same_view_px(3) [OF repaint_begin_view(2) [of sc now]] by simp_all
  obtain sc' a' as where r: "repaint cm now sc = Inr sc'" "sc_device sc' = Appload a'" "al_calls a' = al_calls a @ as"
    "\<forall>col row. on_panel sc col row \<and> panel_px sc' col row \<noteq> panel_px sc col row \<longrightarrow>
      (\<exists>x y w h. SendPartialUpdate x y w h \<in> set as \<and> in_rect x y w h (col, row))"
    using repaint_appload [OF b(1,2), of cm] unfolding b(3,4) repaint_split by blast
  let ?s = "s\<lparr>queue := []\<rparr>"
  have "shows_unscaled ?s c k im" using at(1) by (simp add: shows_unscaled_def)
  from run_all_posted [OF this, of sz as] obtain s2 gs where
    s2: "run_all sz (map (posted k) as) ?s = Inr s2" "shows_unscaled s2 c k im" "queue s2 = []"
      "emitted s2 = emitted s @ gs" "\<forall>a \<in> set as. Pair k ` set (requested_by a) \<subseteq> set gs" by auto
  have "(k, Update_item x y w h) \<in> set gs" if "SendPartialUpdate x y w h \<in> set as" for x y w h
    using s2(5) that by fastforce
  with r(4) have "\<forall>col row. on_panel sc col row \<and> panel_px sc' col row \<noteq> panel_px sc col row \<longrightarrow>
      (\<exists>x y w h. (k, Update_item x y w h) \<in> set gs \<and> in_rect x y w h (col, row))" by blast
  then show ?thesis using r(1-3) s2(1-4) receive_posts [OF msg at(1), of io as] at(2)
    by (intro exI [of _ sc'] exI [of _ a'] exI [of _ as] exI [of _ "post (map (posted k) as) s"] exI [of _ s2] exI [of _ gs])
      (simp add: post_def)
qed

end
