(* ===== verification/ScreenThreads.thy ===== *)
theory ScreenThreads
  imports AppScreen
begin

text \<open>
  The three threads that use one screen of vnsee (\<open>src/src/app/screen.cpp\<close>), none of them under a
  lock: the main thread (the VNC library's callbacks and the event loop), the thread of the
  orientation sensor (\<open>set_effective_orientation\<close>) and, on AppLoad, the input thread
  (\<open>set_repaint_mode\<close> and \<open>repaint\<close>, from the touch handler). Each operation is cut where the others
  can come between its reads and its writes: \<open>commit_updates\<close> into what it decides and what it then
  writes, \<open>repaint\<close> into clearing the flag and copying, \<open>set_effective_orientation\<close> into the exchange
  and the marking. The pieces themselves are taken as atomic; that fields can tear inside them, and
  that C++ gives such races no meaning at all, is beyond the model.
\<close>

section \<open>The operations in pieces\<close>

text \<open>
  What \<open>commit_updates\<close> decides when it has read the pending rectangle: start a new one, extend it
  to the given bounds, or flush it. Extending does not set the flag, and flushing reads the
  rectangle again.
\<close>

datatype plan = Fresh | Merge int int int int | Flush

definition commit_read :: "int \<Rightarrow> int \<Rightarrow> int \<Rightarrow> int \<Rightarrow> screen \<Rightarrow> plan res" where
  "commit_read x y w h s =
     (let u = update_info s in
      if \<not> has_update u then Inr Fresh
      else
        bindE (ckint (ui_w u * ui_h u)) (\<lambda>existing_area.
        bindE (ckint (w * h)) (\<lambda>new_area.
        bindE (ckint (x + w)) (\<lambda>xw.
        bindE (ckint (ui_x u + ui_w u)) (\<lambda>uxw.
        bindE (ckint (y + h)) (\<lambda>yh.
        bindE (ckint (ui_y u + ui_h u)) (\<lambda>uyh.
        let left_x = min x (ui_x u); top_y = min y (ui_y u);
            right_x = max xw uxw; bottom_y = max yh uyh in
        bindE (ckint (right_x - left_x)) (\<lambda>merged_w.
        bindE (ckint (bottom_y - top_y)) (\<lambda>merged_h.
          if merged_w * merged_h > (existing_area + new_area) * 2 then Inr Flush
          else Inr (Merge left_x top_y merged_w merged_h))))))))))"

definition commit_write ::
  "(al_call list \<Rightarrow> refresh_mode) \<Rightarrow> plan \<Rightarrow> int \<Rightarrow> int \<Rightarrow> int \<Rightarrow> int \<Rightarrow> screen \<Rightarrow> screen res" where
  "commit_write cm p x y w h s =
     (let u = update_info s; fresh = \<lparr>ui_x = x, ui_y = y, ui_w = w, ui_h = h, has_update = True\<rparr> in
      case p of
        Fresh \<Rightarrow> Inr (s\<lparr>update_info := fresh\<rparr>)
      | Merge left_x top_y merged_w merged_h \<Rightarrow>
          Inr (s\<lparr>update_info := u\<lparr>ui_x := left_x, ui_y := top_y, ui_w := merged_w, ui_h := merged_h\<rparr>\<rparr>)
      | Flush \<Rightarrow>
          bindE (device_update cm (ui_x u) (ui_y u) (ui_w u) (ui_h u)
              (if repaint_mode s = standard then standard_waveform_mode s else fast_waveform_mode s)
              (sc_device s)) (\<lambda>d. Inr (s\<lparr>sc_device := d, update_info := fresh\<rparr>)))"

lemma commit_split:
  "commit_updates cm x y w h s = bindE (commit_read x y w h s) (\<lambda>p. commit_write cm p x y w h s)"
  unfolding commit_updates_def commit_read_def commit_write_def Let_def
  by (simp add: bindE_assoc if_distrib [of "\<lambda>m. bindE m f" for f] cong: if_cong)

text \<open>The sensor's callback: the exchange says whether the whole source has to be marked.\<close>

definition sensor_turns :: "orientation \<Rightarrow> screen \<Rightarrow> bool" where
  "sensor_turns orient s \<longleftrightarrow> orient \<noteq> Auto \<and> effective s \<noteq> orient"

definition sensor_exchange :: "orientation \<Rightarrow> screen \<Rightarrow> screen" where
  "sensor_exchange orient s = (if orient = Auto then s else s\<lparr>effective := orient\<rparr>)"

definition sensor_mark :: "screen \<Rightarrow> screen" where
  "sensor_mark s =
     (if src_width s > 0 \<and> src_height s > 0
      then s\<lparr>update_info := \<lparr>ui_x = 0, ui_y = 0, ui_w = src_width s, ui_h = src_height s, has_update = True\<rparr>\<rparr>
      else s)"

lemma sensor_split:
  "set_effective_orientation orient s =
     (if sensor_turns orient s then sensor_mark (sensor_exchange orient s) else sensor_exchange orient s)"
  by (auto simp: set_effective_orientation_def sensor_turns_def sensor_exchange_def sensor_mark_def Let_def)

text \<open>The event loop's test, and what it does.\<close>

definition tick_due :: "int \<Rightarrow> screen \<Rightarrow> bool" where
  "tick_due now s \<longleftrightarrow> has_update (update_info s) \<and>
     cdiv (last_repaint s + ns_per_ms *
         (if repaint_mode s = standard then standard_repaint_delay s else fast_repaint_delay s) - now) ns_per_ms \<le> 0"

lemma tick_split:
  "screen_step cm (Ev_tick now) s = (if tick_due now s then repaint_copy cm (repaint_begin now s) else Inr s)"
  by (auto simp: event_loop_def tick_due_def repaint_split Let_def bindE_assoc)

section \<open>The threads\<close>

datatype main_pc =
    Main_idle
  | Main_painted int int int int
  | Main_planned plan int int int int
  | Main_repainting

datatype sensor_pc = Sensor_idle | Sensor_turned

datatype input_pc = Input_idle | Input_repainting

record threads =
  th_screen :: screen
  th_main :: main_pc
  th_sensor :: sensor_pc
  th_input :: input_pc

datatype thread_op =
    Main_framebuffer int int
  | Main_pointer int int
  | Main_paint bytes int int int int
  | Main_read
  | Main_write
  | Main_tick int
  | Main_copy
  | Sensor_turn orientation
  | Sensor_mark
  | Input_mode repaint_modes
  | Input_begin int
  | Input_copy

definition main_to :: "main_pc \<Rightarrow> threads \<Rightarrow> screen res \<Rightarrow> threads res" where
  "main_to pc t r = bindE r (\<lambda>s. Inr (t\<lparr>th_screen := s, th_main := pc\<rparr>))"

inductive thread_step :: "(al_call list \<Rightarrow> refresh_mode) \<Rightarrow> thread_op \<Rightarrow> threads \<Rightarrow> threads res \<Rightarrow> bool"
  for cm where
  step_framebuffer: "th_main t = Main_idle \<Longrightarrow>
    thread_step cm (Main_framebuffer w h) t (main_to Main_idle t (screen_step cm (Ev_framebuffer w h) (th_screen t)))"
| step_pointer: "th_main t = Main_idle \<Longrightarrow>
    thread_step cm (Main_pointer x y) t (main_to Main_idle t (screen_step cm (Ev_pointer x y) (th_screen t)))"
| step_paint: "th_main t = Main_idle \<Longrightarrow>
    thread_step cm (Main_paint b x y w h) t
      (main_to (Main_painted x y w h) t (Inr ((th_screen t)\<lparr>src_buffer := b\<rparr>)))"
| step_read: "th_main t = Main_painted x y w h \<Longrightarrow>
    thread_step cm Main_read t
      (bindE (commit_read x y w h (th_screen t)) (\<lambda>p. Inr (t\<lparr>th_main := Main_planned p x y w h\<rparr>)))"
| step_write: "th_main t = Main_planned p x y w h \<Longrightarrow>
    thread_step cm Main_write t (main_to Main_idle t (commit_write cm p x y w h (th_screen t)))"
| step_wait: "th_main t = Main_idle \<Longrightarrow> \<not> tick_due now (th_screen t) \<Longrightarrow>
    thread_step cm (Main_tick now) t (Inr t)"
| step_tick: "th_main t = Main_idle \<Longrightarrow> tick_due now (th_screen t) \<Longrightarrow>
    thread_step cm (Main_tick now) t (main_to Main_repainting t (Inr (repaint_begin now (th_screen t))))"
| step_copy: "th_main t = Main_repainting \<Longrightarrow>
    thread_step cm Main_copy t (main_to Main_idle t (repaint_copy cm (th_screen t)))"
| step_turn: "th_sensor t = Sensor_idle \<Longrightarrow>
    thread_step cm (Sensor_turn orient) t
      (Inr (t\<lparr>th_screen := sensor_exchange orient (th_screen t),
              th_sensor := (if sensor_turns orient (th_screen t) then Sensor_turned else Sensor_idle)\<rparr>))"
| step_mark: "th_sensor t = Sensor_turned \<Longrightarrow>
    thread_step cm Sensor_mark t (Inr (t\<lparr>th_screen := sensor_mark (th_screen t), th_sensor := Sensor_idle\<rparr>))"
| step_mode: "th_input t = Input_idle \<Longrightarrow>
    thread_step cm (Input_mode m) t (Inr (t\<lparr>th_screen := set_repaint_mode m (th_screen t)\<rparr>))"
| step_begin: "th_input t = Input_idle \<Longrightarrow>
    thread_step cm (Input_begin now) t
      (Inr (t\<lparr>th_screen := repaint_begin now (th_screen t), th_input := Input_repainting\<rparr>))"
| step_input_copy: "th_input t = Input_repainting \<Longrightarrow>
    thread_step cm Input_copy t
      (bindE (repaint_copy cm (th_screen t)) (\<lambda>s. Inr (t\<lparr>th_screen := s, th_input := Input_idle\<rparr>)))"

inductive_cases thread_stepE: "thread_step cm l t r"

inductive_simps thread_step_simps:
  "thread_step cm (Main_framebuffer w h) t r" "thread_step cm (Main_pointer x y) t r"
  "thread_step cm (Main_paint b x y w h) t r" "thread_step cm Main_read t r" "thread_step cm Main_write t r"
  "thread_step cm (Main_tick now) t r" "thread_step cm Main_copy t r" "thread_step cm (Sensor_turn orient) t r"
  "thread_step cm Sensor_mark t r" "thread_step cm (Input_mode m) t r" "thread_step cm (Input_begin now) t r"
  "thread_step cm Input_copy t r"

lemmas thread_step_cases = thread_stepE [consumes 1, case_names framebuffer pointer paint commit_read commit_write
  wait tick copy turn mark mode clear input_copy]

abbreviation threads_reach ::
  "(al_call list \<Rightarrow> refresh_mode) \<Rightarrow> (threads \<Rightarrow> thread_op \<Rightarrow> bool) \<Rightarrow> threads \<Rightarrow> threads \<Rightarrow> bool" where
  "threads_reach cm \<equiv> reach (thread_step cm)"

definition threads_at :: "screen \<Rightarrow> threads" where
  "threads_at s = \<lparr>th_screen = s, th_main = Main_idle, th_sensor = Sensor_idle, th_input = Input_idle\<rparr>"

section \<open>No interleaving is undefined\<close>

fun op_ok :: "screen \<Rightarrow> thread_op \<Rightarrow> bool" where
  "op_ok s (Main_framebuffer w h) \<longleftrightarrow> event_ok s (Ev_framebuffer w h)"
| "op_ok s (Main_paint b x y w h) \<longleftrightarrow> event_ok s (Ev_painted b x y w h)"
| "op_ok s _ \<longleftrightarrow> True"

fun plan_ok :: "plan \<Rightarrow> bool" where
  "plan_ok (Merge x y w h) \<longleftrightarrow> rect_ok x y w h"
| "plan_ok _ \<longleftrightarrow> True"

fun pc_ok :: "main_pc \<Rightarrow> bool" where
  "pc_ok (Main_painted x y w h) \<longleftrightarrow> rect_ok x y w h"
| "pc_ok (Main_planned p x y w h) \<longleftrightarrow> rect_ok x y w h \<and> plan_ok p"
| "pc_ok _ \<longleftrightarrow> True"

definition threads_ok :: "threads \<Rightarrow> bool" where
  "threads_ok t \<longleftrightarrow> screen_ok (th_screen t) \<and> pc_ok (th_main t)"

lemma commit_read_value:
  assumes ok: "screen_ok s" and r: "rect_ok x y w h"
  shows "commit_read x y w h s =
     (let u = update_info s; m = merged u x y w h in
      Inr (if \<not> has_update u then Fresh else if bad_merge u x y w h then Flush
           else Merge (ui_x m) (ui_y m) (ui_w m) (ui_h m)))"
proof -
  define u where "u = update_info s"
  have ru: "rect_ok (ui_x u) (ui_y u) (ui_w u) (ui_h u)" using ok by (simp add: screen_ok_def u_def)
  show ?thesis
    unfolding commit_read_def Let_def u_def [symmetric] bad_merge_def merged_def
    by (simp add: ckint_rects [OF ru r])
qed

lemma plan_of_read:
  assumes "screen_ok s" "rect_ok x y w h"
  shows "\<exists>p. commit_read x y w h s = Inr p \<and> plan_ok p"
  using merged_rect_ok [of "update_info s" x y w h] assms
  by (auto simp: commit_read_value Let_def screen_ok_def)

lemma commit_write_ok:
  assumes ok: "screen_ok s" and r: "rect_ok x y w h" and p: "plan_ok p"
  shows "case commit_write cm p x y w h s of Inl e \<Rightarrow> kernel_failure e | Inr s' \<Rightarrow> screen_ok s'"
proof (cases p)
  case Flush
  then show ?thesis
    using ok r pending_announced [OF ok refl, of cm
      "if repaint_mode s = standard then standard_waveform_mode s else fast_waveform_mode s"]
    by (auto simp: commit_write_def Let_def screen_ok_def elim!: bindE.elims split: sum.splits)
qed (use ok r p in \<open>auto simp: commit_write_def Let_def screen_ok_def\<close>)

lemma sensor_ok [simp]:
  "screen_ok s \<Longrightarrow> screen_ok (sensor_exchange orient s)" "screen_ok s \<Longrightarrow> screen_ok (sensor_mark s)"
  by (auto simp: sensor_exchange_def sensor_mark_def screen_ok_def rect_ok_def)

lemma set_repaint_mode_ok [simp]: "screen_ok (set_repaint_mode m s) = screen_ok s"
  by (simp add: set_repaint_mode_def screen_ok_def)

lemma main_to_ok:
  assumes "case r of Inl e \<Rightarrow> Q e | Inr s \<Rightarrow> screen_ok s" "pc_ok pc"
  shows "case main_to pc t r of Inl e \<Rightarrow> Q e | Inr t' \<Rightarrow> threads_ok t'"
  using assms by (cases r) (auto simp: main_to_def threads_ok_def)

text \<open>
  A step of any thread, wherever the others are: it fails only when the kernel refuses a message or
  the server announces an empty desktop, and keeps the invariant.
\<close>

definition thread_failure :: "thread_op \<Rightarrow> exn \<Rightarrow> bool" where
  "thread_failure l e \<longleftrightarrow> kernel_failure e \<or>
     (\<exists>w h m. l = Main_framebuffer w h \<and> (w \<le> 0 \<or> h \<le> 0) \<and> e = Runtime_error m)"

lemma kernel_thread_failure:
  "(case r of Inl e \<Rightarrow> kernel_failure e | Inr s \<Rightarrow> screen_ok s) \<Longrightarrow>
     (case r of Inl e \<Rightarrow> thread_failure l e | Inr s \<Rightarrow> screen_ok s)"
  by (auto simp: thread_failure_def split: sum.splits)

lemma repaint_copy_ok:
  "screen_ok s \<Longrightarrow> case repaint_copy cm s of Inl e \<Rightarrow> kernel_failure e | Inr s' \<Rightarrow> screen_ok s'"
  using repaint_copy_spec [of s cm] by (auto split: sum.splits)

lemma thread_step_ok:
  assumes st: "thread_step cm l t r" and ok: "threads_ok t" and l: "op_ok (th_screen t) l"
  shows "case r of Inl e \<Rightarrow> thread_failure l e | Inr t' \<Rightarrow> threads_ok t'"
  using st
proof (cases rule: thread_step_cases)
  case (framebuffer w h)
  have "case screen_step cm (Ev_framebuffer w h) (th_screen t) of Inl e \<Rightarrow> thread_failure l e | Inr s \<Rightarrow> screen_ok s"
    using screen_step_ok [of "th_screen t" "Ev_framebuffer w h" cm] ok l framebuffer(1)
    by (auto simp: threads_ok_def thread_failure_def screen_failure_def split: sum.splits)
  from main_to_ok [OF this, of Main_idle t] show ?thesis using framebuffer(2) by simp
next
  case (pointer x y)
  then show ?thesis using ok handle_cursor_pos_ok by (auto simp: main_to_def threads_ok_def)
next
  case (paint b x y w h)
  then show ?thesis using ok l by (auto simp: main_to_def threads_ok_def screen_ok_def)
next
  case (commit_read x y w h)
  then show ?thesis using ok plan_of_read [of "th_screen t" x y w h] by (auto simp: threads_ok_def)
next
  case (commit_write p x y w h)
  have "case commit_write cm p x y w h (th_screen t) of Inl e \<Rightarrow> thread_failure l e | Inr s \<Rightarrow> screen_ok s"
    by (rule kernel_thread_failure [OF commit_write_ok]) (use ok commit_write(3) in \<open>auto simp: threads_ok_def\<close>)
  then show ?thesis unfolding commit_write(2) by (rule main_to_ok) simp
next
  case (tick now)
  then show ?thesis using ok by (auto simp: main_to_def threads_ok_def)
next
  case copy
  have "case repaint_copy cm (th_screen t) of Inl e \<Rightarrow> thread_failure l e | Inr s \<Rightarrow> screen_ok s"
    by (rule kernel_thread_failure [OF repaint_copy_ok]) (use ok in \<open>simp add: threads_ok_def\<close>)
  then show ?thesis unfolding copy(2) by (rule main_to_ok) simp
next
  case input_copy
  have "case repaint_copy cm (th_screen t) of Inl e \<Rightarrow> thread_failure l e | Inr s \<Rightarrow> screen_ok s"
    by (rule kernel_thread_failure [OF repaint_copy_ok]) (use ok in \<open>simp add: threads_ok_def\<close>)
  then show ?thesis unfolding input_copy(2) using ok
    by (cases "repaint_copy cm (th_screen t)") (auto simp: threads_ok_def)
qed (use ok in \<open>auto simp: threads_ok_def\<close>)

interpretation thread_sys: fallible_system "thread_step cm" threads_ok "\<lambda>t. op_ok (th_screen t)" thread_failure
  for cm
  by unfold_locales (rule thread_step_ok)

section \<open>One operation at a time\<close>

text \<open>
  If a thread starts an operation only while the others are between theirs, the pieces add up to the
  machine of \<open>AppScreen\<close>: \<open>amid P s t\<close> says that the threads are in the middle of an event that
  \<open>P\<close> allows in the state \<open>s\<close>, or at rest in it.
\<close>

definition all_idle :: "threads \<Rightarrow> bool" where
  "all_idle t \<longleftrightarrow> th_main t = Main_idle \<and> th_sensor t = Sensor_idle \<and> th_input t = Input_idle"

fun op_event :: "thread_op \<Rightarrow> screen_event option" where
  "op_event (Main_framebuffer w h) = Some (Ev_framebuffer w h)"
| "op_event (Main_pointer x y) = Some (Ev_pointer x y)"
| "op_event (Main_paint b x y w h) = Some (Ev_painted b x y w h)"
| "op_event (Main_tick now) = Some (Ev_tick now)"
| "op_event (Sensor_turn orient) = Some (Ev_orientation orient)"
| "op_event (Input_mode m) = Some (Ev_mode m)"
| "op_event (Input_begin now) = Some (Ev_release now)"
| "op_event _ = None"

definition orderly :: "(screen \<Rightarrow> screen_event \<Rightarrow> bool) \<Rightarrow> threads \<Rightarrow> thread_op \<Rightarrow> bool" where
  "orderly P t l \<longleftrightarrow>
     (case op_event l of None \<Rightarrow> True | Some e \<Rightarrow> all_idle t \<and> P (th_screen t) e)"

inductive amid :: "(screen \<Rightarrow> screen_event \<Rightarrow> bool) \<Rightarrow> screen \<Rightarrow> threads \<Rightarrow> bool" for P s where
  amid_rest: "amid P s (threads_at s)"
| amid_painted: "P s (Ev_painted b x y w h) \<Longrightarrow>
    amid P s ((threads_at (s\<lparr>src_buffer := b\<rparr>))\<lparr>th_main := Main_painted x y w h\<rparr>)"
| amid_planned: "P s (Ev_painted b x y w h) \<Longrightarrow> commit_read x y w h (s\<lparr>src_buffer := b\<rparr>) = Inr p \<Longrightarrow>
    amid P s ((threads_at (s\<lparr>src_buffer := b\<rparr>))\<lparr>th_main := Main_planned p x y w h\<rparr>)"
| amid_repainting: "P s (Ev_tick now) \<Longrightarrow> tick_due now s \<Longrightarrow>
    amid P s ((threads_at (repaint_begin now s))\<lparr>th_main := Main_repainting\<rparr>)"
| amid_turned: "P s (Ev_orientation orient) \<Longrightarrow> sensor_turns orient s \<Longrightarrow>
    amid P s ((threads_at (sensor_exchange orient s))\<lparr>th_sensor := Sensor_turned\<rparr>)"
| amid_input: "P s (Ev_release now) \<Longrightarrow>
    amid P s ((threads_at (repaint_begin now s))\<lparr>th_input := Input_repainting\<rparr>)"

lemma threads_at_idle: "all_idle t \<longleftrightarrow> t = threads_at (th_screen t)"
  by (cases t) (auto simp: all_idle_def threads_at_def)

lemma threads_at_simps [simp]:
  "th_screen (threads_at s) = s" "th_main (threads_at s) = Main_idle" "th_sensor (threads_at s) = Sensor_idle"
  "th_input (threads_at s) = Input_idle" "all_idle (threads_at s)"
  by (simp_all add: threads_at_def all_idle_def)

lemma threads_at_update [simp]:
  "(threads_at s)\<lparr>th_screen := s'\<rparr> = threads_at s'" "(threads_at s)\<lparr>th_main := Main_idle\<rparr> = threads_at s"
  "(threads_at s)\<lparr>th_sensor := Sensor_idle\<rparr> = threads_at s" "(threads_at s)\<lparr>th_input := Input_idle\<rparr> = threads_at s"
  by (simp_all add: threads_at_def)

lemma amid_threads_at: "amid P s (threads_at s') \<longleftrightarrow> s = s'"
  by (auto simp: threads_at_def intro: amid_rest [unfolded threads_at_def] elim: amid.cases)

lemma amid_idle: "amid P s t \<Longrightarrow> all_idle t \<Longrightarrow> t = threads_at s"
  using amid_threads_at threads_at_idle by metis

lemma amid_start:
  assumes st: "thread_step cm l (threads_at s) (Inr t')" and l: "orderly P (threads_at s) l"
  shows "amid P s t' \<or> (\<exists>e s'. P s e \<and> screen_step cm e s = Inr s' \<and> t' = threads_at s')"
  using st
proof (cases rule: thread_step_cases)
  case (framebuffer w h)
  then obtain s' where "screen_step cm (Ev_framebuffer w h) s = Inr s'" "t' = threads_at s'"
    by (cases "screen_step cm (Ev_framebuffer w h) s") (auto simp: main_to_def)
  moreover have "P s (Ev_framebuffer w h)" using l framebuffer(1) by (simp add: orderly_def)
  ultimately show ?thesis by blast
qed (use l in \<open>auto simp: orderly_def main_to_def sensor_split tick_split amid_threads_at
       simp del: screen_step.simps(3) intro!: amid_painted amid_repainting amid_turned amid_input\<close>)

text \<open>The second and third pieces: nothing else can run, and the last one completes the event.\<close>

lemma amid_next:
  assumes a: "amid P s t" and st: "thread_step cm l t (Inr t')" and l: "orderly P t l" and n: "\<not> all_idle t"
  shows "amid P s t' \<or> (\<exists>e s'. P s e \<and> screen_step cm e s = Inr s' \<and> t' = threads_at s')"
proof -
  have none: "op_event l = None" using l n by (auto simp: orderly_def split: option.splits)
  from a show ?thesis
  proof cases
    case (amid_painted b x y w h)
    then have "l = Main_read" using st none by (auto elim: thread_stepE)
    then obtain q where "commit_read x y w h (s\<lparr>src_buffer := b\<rparr>) = Inr q"
      "t' = (threads_at (s\<lparr>src_buffer := b\<rparr>))\<lparr>th_main := Main_planned q x y w h\<rparr>"
      using st amid_painted by (auto simp: thread_step_simps res_simps eq_commute [of "Inr t'"] threads_at_def)
    then show ?thesis using amid_painted amid.amid_planned by blast
  next
    case (amid_planned b x y w h p)
    then have "l = Main_write" using st none by (auto elim: thread_stepE)
    then obtain s' where "commit_write cm p x y w h (s\<lparr>src_buffer := b\<rparr>) = Inr s'" "t' = threads_at s'"
      using st amid_planned by (auto simp: thread_step_simps main_to_def res_simps eq_commute [of "Inr t'"] threads_at_def)
    then show ?thesis using amid_planned
      by (intro disjI2 exI [of _ "Ev_painted b x y w h"] exI [of _ s']) (simp add: commit_split)
  next
    case (amid_repainting now)
    then have "l = Main_copy" using st none by (auto elim: thread_stepE)
    then obtain s' where "repaint_copy cm (repaint_begin now s) = Inr s'" "t' = threads_at s'"
      using st amid_repainting by (auto simp: thread_step_simps main_to_def res_simps eq_commute [of "Inr t'"] threads_at_def)
    then show ?thesis using amid_repainting
      by (intro disjI2 exI [of _ "Ev_tick now"] exI [of _ s']) (simp add: tick_split del: screen_step.simps)
  next
    case (amid_turned orient)
    then have "l = Sensor_mark" using st none by (auto elim: thread_stepE)
    then have "t' = threads_at (sensor_mark (sensor_exchange orient s))"
      using st amid_turned by (auto simp: thread_step_simps threads_at_def)
    then show ?thesis using amid_turned
      by (intro disjI2 exI [of _ "Ev_orientation orient"]) (simp add: sensor_split)
  next
    case (amid_input now)
    then have "l = Input_copy" using st none by (auto elim: thread_stepE)
    then obtain s' where "repaint_copy cm (repaint_begin now s) = Inr s'" "t' = threads_at s'"
      using st amid_input by (auto simp: thread_step_simps res_simps eq_commute [of "Inr t'"] threads_at_def)
    then show ?thesis using amid_input
      by (intro disjI2 exI [of _ "Ev_release now"] exI [of _ s']) (simp add: repaint_split)
  qed (use n in simp)
qed

lemma orderly_reach_amid:
  assumes "threads_reach cm (orderly P) (threads_at s0) t"
  shows "\<exists>s. reaches cm P s0 s \<and> amid P s t"
  using assms
proof (induction rule: reach.induct)
  case reach_start
  show ?case by (intro exI [of _ s0] conjI reach.reach_start amid_rest)
next
  case (reach_next t l t')
  then obtain s where s: "reaches cm P s0 s" "amid P s t" by blast
  have "amid P s t' \<or> (\<exists>e s'. P s e \<and> screen_step cm e s = Inr s' \<and> t' = threads_at s')"
  proof (cases "all_idle t")
    case True
    then show ?thesis using amid_start [of cm l s t' P] amid_idle [OF s(2)] reach_next.hyps by simp
  qed (use amid_next [OF s(2)] reach_next.hyps in blast)
  then show ?case
  proof (elim disjE exE conjE)
    assume "amid P s t'"
    with s(1) show ?case by blast
  next
    fix e s' assume "P s e" "screen_step cm e s = Inr s'" "t' = threads_at s'"
    then show ?case using reaches_step [OF s(1)] amid_rest by blast
  qed
qed

text \<open>Conversely every event can be run piece by piece.\<close>

lemma run_painted:
  assumes r: "threads_reach cm (orderly P) (threads_at s0) (threads_at s)" and p: "P s (Ev_painted b x y w h)"
    and st: "commit_updates cm x y w h (s\<lparr>src_buffer := b\<rparr>) = Inr s'"
  shows "threads_reach cm (orderly P) (threads_at s0) (threads_at s')"
proof -
  let ?s = "s\<lparr>src_buffer := b\<rparr>"
  obtain q where q: "commit_read x y w h ?s = Inr q" "commit_write cm q x y w h ?s = Inr s'"
    using st by (auto simp: commit_split res_simps)
  have "threads_reach cm (orderly P) (threads_at s0) ((threads_at ?s)\<lparr>th_main := Main_painted x y w h\<rparr>)"
    by (rule reach_next [OF r, of "Main_paint b x y w h"])
      (use p in \<open>simp_all add: orderly_def thread_step_simps main_to_def\<close>)
  then have "threads_reach cm (orderly P) (threads_at s0) ((threads_at ?s)\<lparr>th_main := Main_planned q x y w h\<rparr>)"
    by (rule reach_next [where e = Main_read]) (simp_all add: orderly_def thread_step_simps q threads_at_def)
  then show ?thesis
    by (rule reach_next [where e = Main_write])
      (simp_all add: orderly_def thread_step_simps main_to_def q threads_at_def)
qed

lemma run_repaint:
  assumes r: "threads_reach cm (orderly P) (threads_at s0) (threads_at s)"
    and st: "repaint_copy cm (repaint_begin now s) = Inr s'"
    and p: "(P s (Ev_tick now) \<and> tick_due now s) \<or> P s (Ev_release now)"
  shows "threads_reach cm (orderly P) (threads_at s0) (threads_at s')"
  using p
proof
  let ?t = "threads_at (repaint_begin now s)"
  assume "P s (Ev_tick now) \<and> tick_due now s"
  then have "threads_reach cm (orderly P) (threads_at s0) (?t\<lparr>th_main := Main_repainting\<rparr>)"
    by (intro reach_next [OF r, of "Main_tick now"]) (simp_all add: orderly_def thread_step_simps main_to_def)
  then show ?thesis
    by (rule reach_next [where e = Main_copy])
      (simp_all add: orderly_def thread_step_simps main_to_def st threads_at_def)
next
  let ?t = "threads_at (repaint_begin now s)"
  assume "P s (Ev_release now)"
  then have "threads_reach cm (orderly P) (threads_at s0) (?t\<lparr>th_input := Input_repainting\<rparr>)"
    by (intro reach_next [OF r, of "Input_begin now"]) (simp_all add: orderly_def thread_step_simps)
  then show ?thesis
    by (rule reach_next [where e = Input_copy]) (simp_all add: orderly_def thread_step_simps st threads_at_def)
qed

lemma run_orientation:
  assumes r: "threads_reach cm (orderly P) (threads_at s0) (threads_at s)" and p: "P s (Ev_orientation orient)"
  shows "threads_reach cm (orderly P) (threads_at s0) (threads_at (set_effective_orientation orient s))"
proof -
  let ?t = "threads_at (sensor_exchange orient s)"
  have t: "threads_reach cm (orderly P) (threads_at s0)
      (?t\<lparr>th_sensor := (if sensor_turns orient s then Sensor_turned else Sensor_idle)\<rparr>)"
    by (rule reach_next [OF r, of "Sensor_turn orient"]) (use p in \<open>simp_all add: orderly_def thread_step_simps\<close>)
  show ?thesis
  proof (cases "sensor_turns orient s")
    case True
    with t have "threads_reach cm (orderly P) (threads_at s0) (?t\<lparr>th_sensor := Sensor_turned\<rparr>)" by simp
    then show ?thesis
      by (rule reach_next [where e = Sensor_mark])
        (simp_all add: orderly_def thread_step_simps sensor_split True threads_at_def)
  qed (use t in \<open>simp add: sensor_split\<close>)
qed

lemma run_event:
  assumes r: "threads_reach cm (orderly P) (threads_at s0) (threads_at s)" and p: "P s e" and st: "screen_step cm e s = Inr s'"
  shows "threads_reach cm (orderly P) (threads_at s0) (threads_at s')"
proof (cases e)
  case (Ev_framebuffer w h)
  show ?thesis
    by (rule reach_next [OF r, of "Main_framebuffer w h"])
      (use p st Ev_framebuffer in \<open>simp_all add: orderly_def thread_step_simps main_to_def\<close>)
next
  case (Ev_painted b x y w h)
  then show ?thesis using run_painted [OF r] p st by simp
next
  case (Ev_tick now)
  show ?thesis
  proof (cases "tick_due now s")
    case True
    then show ?thesis using run_repaint [OF r, of now s'] p st unfolding Ev_tick tick_split by simp
  next
    case False
    then show ?thesis using r st unfolding Ev_tick tick_split by simp
  qed
next
  case (Ev_pointer x y)
  show ?thesis
    by (rule reach_next [OF r, of "Main_pointer x y"])
      (use p st Ev_pointer in \<open>simp_all add: orderly_def thread_step_simps main_to_def\<close>)
next
  case (Ev_orientation orient)
  then show ?thesis using run_orientation [OF r] p st by auto
next
  case (Ev_mode m)
  show ?thesis
    by (rule reach_next [OF r, of "Input_mode m"])
      (use p st Ev_mode in \<open>simp_all add: orderly_def thread_step_simps\<close>)
next
  case (Ev_release now)
  then show ?thesis using run_repaint [OF r, of now s'] p st by (simp add: repaint_split)
qed

lemma orderly_threads: "threads_reach cm (orderly P) (threads_at s0) (threads_at s) \<longleftrightarrow> reaches cm P s0 s"
proof
  assume "threads_reach cm (orderly P) (threads_at s0) (threads_at s)"
  from orderly_reach_amid [OF this] show "reaches cm P s0 s" by (auto simp: amid_threads_at)
next
  assume "reaches cm P s0 s"
  then show "threads_reach cm (orderly P) (threads_at s0) (threads_at s)"
  proof (induction rule: reach.induct)
    case (reach_next s e s')
    then show ?case using run_event by blast
  qed (rule reach_start)
qed

section \<open>Races\<close>

text \<open>A given schedule, up to the first failure.\<close>

inductive thread_run :: "(al_call list \<Rightarrow> refresh_mode) \<Rightarrow> thread_op list \<Rightarrow> threads \<Rightarrow> threads res \<Rightarrow> bool"
  for cm where
  run_done: "thread_run cm [] t (Inr t)"
| run_failed: "thread_step cm l t (Inl e) \<Longrightarrow> thread_run cm (l # ls) t (Inl e)"
| run_more: "thread_step cm l t (Inr t') \<Longrightarrow> thread_run cm ls t' r \<Longrightarrow> thread_run cm (l # ls) t r"

inductive_simps thread_run_simps: "thread_run cm [] t r" "thread_run cm (l # ls) t r"

lemma merge_planned:
  assumes "screen_ok s" "rect_ok x y w h" "has_update (update_info s)" "\<not> bad_merge (update_info s) x y w h"
  shows "commit_read x y w h s = (let m = merged (update_info s) x y w h in Inr (Merge (ui_x m) (ui_y m) (ui_w m) (ui_h m)))"
  using assms by (simp add: commit_read_value Let_def)

lemma merge_written:
  "has_update v \<Longrightarrow> m = merged v x y w h \<Longrightarrow>
     u\<lparr>ui_x := ui_x m, ui_y := ui_y m, ui_w := ui_w m, ui_h := ui_h m\<rparr> = m\<lparr>has_update := has_update u\<rparr>"
  by (simp add: merged_def)

text \<open>
  The sensor turns the picture between the reads and the writes of a merge: its mark is overwritten,
  and only the merged rectangle is pending under the new orientation.
\<close>

lemma run_sensor_race:
  assumes ok: "screen_ok s" and r: "rect_ok x y w h"
    and m: "has_update (update_info s)" "\<not> bad_merge (update_info s) x y w h"
    and o: "sensor_turns orient s" "0 < src_width s" "0 < src_height s"
  shows "thread_run cm [Main_read, Sensor_turn orient, Sensor_mark, Main_write]
      ((threads_at s)\<lparr>th_main := Main_painted x y w h\<rparr>)
      (Inr (threads_at (s\<lparr>effective := orient, update_info := merged (update_info s) x y w h\<rparr>)))"
proof -
  define M where "M = merged (update_info s) x y w h"
  have "\<lparr>ui_x = ui_x M, ui_y = ui_y M, ui_w = ui_w M, ui_h = ui_h M, has_update = True\<rparr> = M"
    using m(1) by (simp add: M_def merged_def)
  with o show ?thesis unfolding M_def [symmetric]
    by (simp add: thread_run_simps thread_step_simps merge_planned [OF ok r m, folded M_def] Let_def
        sensor_exchange_def sensor_turns_def sensor_mark_def main_to_def commit_write_def threads_at_def)
qed

text \<open>
  The touch thread repaints inside a merge: the merge extends a rectangle that is no longer marked.
  Or it clears the flag before the main thread reads it and copies after the main thread has written.
\<close>

lemma run_touch_inside:
  assumes ok: "screen_ok s" and r: "rect_ok x y w h"
    and m: "has_update (update_info s)" "\<not> bad_merge (update_info s) x y w h" and std: "repaint_mode s = standard"
  shows "thread_run cm [Main_read, Input_begin now, Input_copy, Main_write]
      ((threads_at s)\<lparr>th_main := Main_painted x y w h\<rparr>)
      (bindE (repaint cm now s) (\<lambda>s'. Inr (threads_at
         (s'\<lparr>update_info := (merged (update_info s) x y w h)\<lparr>has_update := False\<rparr>\<rparr>))))"
proof (cases "repaint_copy cm (repaint_begin now s)")
  case (Inl e)
  then show ?thesis
    by (auto simp: thread_run_simps thread_step_simps merge_planned [OF ok r m] Let_def repaint_split threads_at_def)
next
  case (Inr s')
  then have "has_update (update_info s') = False"
    using repaint_spec [OF ok, where cm = cm and now = now] std by (simp add: repaint_split)
  with Inr show ?thesis
    by (auto simp: thread_run_simps thread_step_simps merge_planned [OF ok r m] Let_def repaint_split
        threads_at_def main_to_def commit_write_def merge_written [OF m(1) refl])
qed

lemma run_touch_around:
  assumes std: "repaint_mode s = standard"
  shows "thread_run cm [Input_begin now, Main_read, Main_write, Input_copy]
      ((threads_at s)\<lparr>th_main := Main_painted x y w h\<rparr>)
      (bindE (repaint_copy cm ((repaint_begin now s)
           \<lparr>update_info := \<lparr>ui_x = x, ui_y = y, ui_w = w, ui_h = h, has_update = True\<rparr>\<rparr>)) (\<lambda>s'. Inr (threads_at s')))"
proof -
  let ?s = "(repaint_begin now s)\<lparr>update_info := \<lparr>ui_x = x, ui_y = y, ui_w = w, ui_h = h, has_update = True\<rparr>\<rparr>"
  have rd: "commit_read x y w h (repaint_begin now s) = Inr Fresh"
    using std by (simp add: commit_read_def Let_def)
  show ?thesis
    by (cases "repaint_copy cm ?s")
      (auto simp: thread_run_simps thread_step_simps rd main_to_def commit_write_def Let_def threads_at_def)
qed

text \<open>Nothing more happens without a new update.\<close>

lemma event_loop_quiet:
  "\<not> has_update (update_info s) \<Longrightarrow> event_loop cm now s = Inr (s, \<lparr>quit = False, timeout = -1\<rparr>)"
  by (simp add: event_loop_def)

end
