(* ===== verification/Logging.thy ===== *)
theory Logging
  imports CText AppScreen
begin

text \<open>
  vnsee's log (\<open>src/src/log.hpp\<close>, \<open>src/src/log.tpp\<close>) and everything that writes to it: the adapter
  for the VNC library's printf-style messages (\<open>vnc_client_log\<close> in \<open>src/src/app/client.cpp\<close>) and the
  entries of the screen and of the client. The stream is \<open>std::cout\<close>: its text, and the fill and
  width that formatted output uses. What \<open>vsnprintf\<close> makes of a format and its arguments is the
  library's: the model takes the expansion, or \<open>None\<close> when it reports an error.
\<close>

section \<open>The stream\<close>

record ostream =
  os_text :: string
  os_fill :: char
  os_width :: nat

text \<open>A formatted insertion pads on the left to the width and resets it; the fill stays.\<close>

definition put_text :: "string \<Rightarrow> ostream \<Rightarrow> ostream" where
  "put_text t os = os\<lparr>os_text := os_text os @ replicate (os_width os - length t) (os_fill os) @ t, os_width := 0\<rparr>"

definition put_num :: "int \<Rightarrow> ostream \<Rightarrow> ostream" where
  "put_num n = put_text (show_int n)"

definition put_rect :: "int \<Rightarrow> int \<Rightarrow> int \<Rightarrow> int \<Rightarrow> ostream \<Rightarrow> ostream" where
  "put_rect w h x y os =
     put_num y (put_text ''+'' (put_num x (put_text ''+'' (put_num h (put_text ''x'' (put_num w os))))))"

definition log_print :: "string \<Rightarrow> ostream \<Rightarrow> ostream" where
  "log_print kind os = put_text ''] '' (put_text kind (put_text ''['' os))"

section \<open>Messages of the VNC library\<close>

text \<open>\<open>vsnprintf\<close>: the length of the whole expansion, and the bytes stored in a buffer of \<open>n\<close>.\<close>

definition vsnprintf :: "nat \<Rightarrow> string option \<Rightarrow> int \<times> string" where
  "vsnprintf n expansion =
     (case expansion of
        None \<Rightarrow> (-1, [])
      | Some m \<Rightarrow> (int (length m), if n = 0 then [] else take (n - 1) m @ [CHR 0x00]))"

text \<open>Inserting a \<open>char *\<close> reads up to the terminating zero, which has to be there.\<close>

definition c_string :: "string \<Rightarrow> string res" where
  "c_string buffer =
     (if CHR 0x00 \<in> set buffer then Inr (takeWhile (\<lambda>c. c \<noteq> CHR 0x00) buffer) else Inl (Undefined Out_of_bounds))"

definition vnc_client_log :: "string option \<Rightarrow> ostream \<Rightarrow> ostream res" where
  "vnc_client_log expansion os =
     (let (buffer_size, _) = vsnprintf 0 expansion;
          n = nat (buffer_size + 1);
          (_, stored) = vsnprintf n expansion;
          buffer = stored @ replicate (n - length stored) (CHR 0x00);
          os' = log_print ''VNC message'' os in
      bindE (c_string buffer) (\<lambda>m. Inr (put_text m os')))"

section \<open>The entries of the screen and of the client\<close>

definition arrow :: string where
  "arrow = '' '' @ [CHR 0xE2, CHR 0x86, CHR 0x92] @ '' ''"

text \<open>\<open>std::bitset<8>\<close>, most significant bit first.\<close>

definition bitset_text :: "u8 \<Rightarrow> string" where
  "bitset_text m = map (\<lambda>i. if bit m (7 - i) then CHR ''1'' else CHR ''0'') [0..<8]"

definition log_update :: "int \<Rightarrow> int \<Rightarrow> int \<Rightarrow> int \<Rightarrow> ostream \<Rightarrow> ostream" where
  "log_update x y w h os = put_text ''\<newline>'' (put_rect w h x y (log_print ''VNC update'' os))"

definition log_repaint :: "update_info \<Rightarrow> int \<times> int \<times> int \<times> int \<Rightarrow> ostream \<Rightarrow> ostream" where
  "log_repaint u = (\<lambda>(dx, dy, dw, dh) os.
     let os1 = put_rect (ui_w u) (ui_h u) (ui_x u) (ui_y u) (put_text ''src '' (log_print ''Screen update'' os)) in
     put_text ''\<newline>'' (put_rect dw dh dx dy (put_text (arrow @ ''dst '') os1)))"

definition log_mode :: "repaint_modes \<Rightarrow> ostream \<Rightarrow> ostream" where
  "log_mode mode os =
     put_text (if mode = standard then ''Switched to standard mode\<newline>'' else ''Switched to fast mode\<newline>'')
       (log_print ''Screen update'' os)"

definition log_button :: "int \<Rightarrow> int \<Rightarrow> int \<Rightarrow> int \<Rightarrow> u8 \<Rightarrow> ostream \<Rightarrow> ostream" where
  "log_button x y sx sy button_flag os =
     (let os1 = put_num y (put_text ''x'' (put_num x (put_text ''panel '' (log_print ''Button press'' os))));
          os2 = put_num sy (put_text ''x'' (put_num sx (put_text (arrow @ ''server '') os1)));
          os3 = put_text '' (button mask: '' os2;
          os4 = os3\<lparr>os_fill := CHR ''0'', os_width := 8\<rparr> in
      put_text '')\<newline>'' (put_text (bitset_text button_flag) os4))"

definition log_key :: "int \<Rightarrow> ostream \<Rightarrow> ostream" where
  "log_key keyCode os = put_text ''\<newline>'' (put_num keyCode (log_print ''Virtual key press'' os))"

datatype log_entry =
    Log_message "string option"
  | Log_update int int int int
  | Log_repaint update_info "int \<times> int \<times> int \<times> int"
  | Log_mode repaint_modes
  | Log_button int int int int u8
  | Log_key int

fun write_entry :: "log_entry \<Rightarrow> ostream \<Rightarrow> ostream res" where
  "write_entry (Log_message expansion) os = vnc_client_log expansion os"
| "write_entry (Log_update x y w h) os = Inr (log_update x y w h os)"
| "write_entry (Log_repaint u r) os = Inr (log_repaint u r os)"
| "write_entry (Log_mode mode) os = Inr (log_mode mode os)"
| "write_entry (Log_button x y sx sy m) os = Inr (log_button x y sx sy m os)"
| "write_entry (Log_key k) os = Inr (log_key k os)"

lemmas log_defs = log_update_def log_repaint_def log_mode_def log_button_def log_key_def

fun write_log :: "log_entry list \<Rightarrow> ostream \<Rightarrow> ostream res" where
  "write_log [] os = Inr os"
| "write_log (e # es) os = bindE (write_entry e os) (write_log es)"

section \<open>What is logged\<close>

definition header :: "string \<Rightarrow> string" where
  "header kind = ''['' @ kind @ ''] ''"

definition rect_text :: "int \<Rightarrow> int \<Rightarrow> int \<Rightarrow> int \<Rightarrow> string" where
  "rect_text w h x y = show_int w @ ''x'' @ show_int h @ ''+'' @ show_int x @ ''+'' @ show_int y"

text \<open>The line of an entry, on its own; a message of the library is cut at its first zero.\<close>

fun entry_text :: "log_entry \<Rightarrow> string" where
  "entry_text (Log_message None) = []"
| "entry_text (Log_message (Some m)) = header ''VNC message'' @ takeWhile (\<lambda>c. c \<noteq> CHR 0x00) m"
| "entry_text (Log_update x y w h) = header ''VNC update'' @ rect_text w h x y @ ''\<newline>''"
| "entry_text (Log_repaint u (dx, dy, dw, dh)) =
     header ''Screen update'' @ ''src '' @ rect_text (ui_w u) (ui_h u) (ui_x u) (ui_y u) @ arrow @ ''dst '' @
       rect_text dw dh dx dy @ ''\<newline>''"
| "entry_text (Log_mode mode) = header ''Screen update'' @
     (if mode = standard then ''Switched to standard mode\<newline>'' else ''Switched to fast mode\<newline>'')"
| "entry_text (Log_button x y sx sy m) =
     header ''Button press'' @ ''panel '' @ show_int x @ ''x'' @ show_int y @ arrow @ ''server '' @ show_int sx @ ''x'' @
       show_int sy @ '' (button mask: '' @ bitset_text m @ '')\<newline>''"
| "entry_text (Log_key k) = header ''Virtual key press'' @ show_int k @ ''\<newline>''"

text \<open>Output without a pending width: plain text, whatever the fill.\<close>

definition appended :: "ostream \<Rightarrow> string \<Rightarrow> ostream \<Rightarrow> bool" where
  "appended os t os' \<longleftrightarrow> os_text os' = os_text os @ t \<and> os_width os' = 0"

lemma put_text_plain [simp]:
  "os_width os = 0 \<Longrightarrow> os_text (put_text t os) = os_text os @ t" "os_width (put_text t os) = 0"
  by (simp_all add: put_text_def)

lemma put_num_plain [simp]:
  "os_width os = 0 \<Longrightarrow> os_text (put_num n os) = os_text os @ show_int n" "os_width (put_num n os) = 0"
  by (simp_all add: put_num_def)

lemma put_rect_plain [simp]:
  "os_width os = 0 \<Longrightarrow> os_text (put_rect w h x y os) = os_text os @ rect_text w h x y" "os_width (put_rect w h x y os) = 0"
  by (simp_all add: put_rect_def rect_text_def)

lemma log_print_plain [simp]:
  "os_width os = 0 \<Longrightarrow> os_text (log_print k os) = os_text os @ header k" "os_width (log_print k os) = 0"
  by (simp_all add: log_print_def header_def)

text \<open>The eight digits fill the width that was set for them, so the fill is never seen.\<close>

lemma bitset_text_length [simp]: "length (bitset_text m) = 8"
  by (simp add: bitset_text_def)

lemma put_bitset [simp]:
  "os_text (put_text (bitset_text m) (os\<lparr>os_fill := f, os_width := 8\<rparr>)) = os_text os @ bitset_text m"
  by (simp add: put_text_def)

text \<open>A message that expands is logged whole; one that does not makes an empty buffer, which is read.\<close>

lemma vnc_client_log_value:
  "vnc_client_log expansion os =
     (case expansion of
        None \<Rightarrow> Inl (Undefined Out_of_bounds)
      | Some m \<Rightarrow> Inr (put_text (takeWhile (\<lambda>c. c \<noteq> CHR 0x00) m) (log_print ''VNC message'' os)))"
proof (cases expansion)
  case (Some m)
  have "takeWhile (\<lambda>c. c \<noteq> CHR 0x00) (m @ [CHR 0x00]) = takeWhile (\<lambda>c. c \<noteq> CHR 0x00) m"
    by (induction m) auto
  then show ?thesis using Some
    by (simp add: vnc_client_log_def vsnprintf_def c_string_def nat_add_distrib)
qed (simp add: vnc_client_log_def vsnprintf_def c_string_def)

lemma write_entry_appended:
  assumes "os_width os = 0" "e \<noteq> Log_message None"
  shows "\<exists>os'. write_entry e os = Inr os' \<and> appended os (entry_text e) os'"
proof (cases e)
  case (Log_message x)
  then show ?thesis using assms by (cases x) (simp_all add: vnc_client_log_value appended_def)
next
  case (Log_repaint u r)
  then show ?thesis using assms by (cases r) (simp add: appended_def log_defs Let_def)
qed (use assms in \<open>simp_all add: appended_def log_defs Let_def\<close>)

lemma write_log_text:
  assumes "os_width os = 0" "Log_message None \<notin> set es"
  shows "\<exists>os'. write_log es os = Inr os' \<and> appended os (concat (map entry_text es)) os'"
  using assms
proof (induction es arbitrary: os)
  case (Cons e es)
  then obtain os1 where o1: "write_entry e os = Inr os1" "appended os (entry_text e) os1"
    using write_entry_appended [of os e] by auto
  then have "os_width os1 = 0" by (simp add: appended_def)
  with Cons obtain os2 where "write_log es os1 = Inr os2" "appended os1 (concat (map entry_text es)) os2" by force
  with o1 show ?case by (simp add: appended_def)
qed (simp add: appended_def)

lemma write_log_fails:
  assumes "os_width os = 0" "Log_message None \<in> set es"
  shows "write_log es os = Inl (Undefined Out_of_bounds)"
  using assms
proof (induction es arbitrary: os)
  case (Cons e es)
  show ?case
  proof (cases "e = Log_message None")
    case True
    then show ?thesis by (simp add: vnc_client_log_value)
  next
    case False
    then obtain os1 where "write_entry e os = Inr os1" "os_width os1 = 0"
      using write_entry_appended [of os e] Cons.prems by (auto simp: appended_def)
    then show ?thesis using Cons False by simp
  qed
qed simp

text \<open>The mask can be read back from its line.\<close>

definition mask_of :: "string \<Rightarrow> nat" where
  "mask_of = foldl (\<lambda>a c. 2 * a + of_bool (c = CHR ''1'')) 0"

lemma mask_of_rev: "mask_of (map (\<lambda>b. if b then CHR ''1'' else CHR ''0'') (rev bs)) = horner_sum of_bool 2 bs"
  by (induction bs) (simp_all add: mask_of_def)

lemma mask_of_bitset: "mask_of (bitset_text m) = unat m"
proof -
  have "horner_sum of_bool (2 :: nat) (map (bit m) [0..<8]) = unat m"
  proof -
    have "bit m = bit (unat m)" by (simp add: fun_eq_iff bit_unsigned_iff bit_simps)
    then have "horner_sum of_bool (2 :: nat) (map (bit m) [0..<8]) = take_bit 8 (unat m)"
      by (simp add: horner_sum_bit_eq_take_bit)
    also have "\<dots> = unat m" by (simp add: take_bit_nat_eq_self_iff unsigned_less [of m, where ?'a = nat, simplified])
    finally show ?thesis .
  qed
  moreover have "bitset_text m = map (\<lambda>b. if b then CHR ''1'' else CHR ''0'') (rev (map (bit m) [0..<8]))"
    by (simp add: bitset_text_def upt_rec numeral_eq_Suc)
  ultimately show ?thesis by (simp only: mask_of_rev)
qed

section \<open>The statistics of commits\<close>

text \<open>
  \<open>commit_updates\<close> counts its rectangles and pixels in static variables and reports them at every
  sixtieth call, with the microseconds since the report before. Nothing else reads them.
\<close>

record batch =
  last_batch_start :: int
  rects_in_batch :: int
  pixels_in_batch :: int
  batches :: int

definition batch_new :: "int \<Rightarrow> batch" where
  "batch_new now = \<lparr>last_batch_start = now, rects_in_batch = 0, pixels_in_batch = 0, batches = 0\<rparr>"

definition count_commit :: "int \<Rightarrow> int \<Rightarrow> int \<Rightarrow> batch \<Rightarrow> batch \<times> (int \<times> int \<times> int) option" where
  "count_commit now w h b =
     (let delta_us = cdiv (now - last_batch_start b) 1000;
          b1 = b\<lparr>rects_in_batch := rects_in_batch b + 1, pixels_in_batch := pixels_in_batch b + w * h,
                 batches := batches b + 1\<rparr> in
      if batches b1 \<ge> 60 then (batch_new now, Some (delta_us, rects_in_batch b1, pixels_in_batch b1))
      else (b1, None))"

fun count_commits :: "(int \<times> int \<times> int) list \<Rightarrow> batch \<Rightarrow> batch \<times> (int \<times> int \<times> int) option list" where
  "count_commits [] b = (b, [])"
| "count_commits ((now, w, h) # cs) b =
     (let (b1, r) = count_commit now w h b; (b2, rs) = count_commits cs b1 in (b2, r # rs))"

definition pixels_of :: "(int \<times> int \<times> int) list \<Rightarrow> int" where
  "pixels_of cs = sum_list (map (\<lambda>(now, w, h). w * h) cs)"

lemma count_commits_quiet:
  "batches b + int (length cs) < 60 \<Longrightarrow>
   count_commits cs b =
     (b\<lparr>rects_in_batch := rects_in_batch b + int (length cs), pixels_in_batch := pixels_in_batch b + pixels_of cs,
        batches := batches b + int (length cs)\<rparr>, replicate (length cs) None)"
  by (induction cs b rule: count_commits.induct)
    (simp_all add: pixels_of_def count_commit_def algebra_simps)

lemma count_commits_append:
  "count_commits (cs @ ds) b =
     (let (b1, rs) = count_commits cs b; (b2, rs') = count_commits ds b1 in (b2, rs @ rs'))"
  by (induction cs b rule: count_commits.induct) (simp_all add: Let_def split: prod.splits)

text \<open>Sixty commits make one report, of their number and of all their pixels, and start over.\<close>

lemma sixty_commits:
  assumes "length cs = 59"
  shows "count_commits (cs @ [(now, w, h)]) (batch_new t0) =
    (batch_new now, replicate 59 None @ [Some (cdiv (now - t0) 1000, 60, pixels_of (cs @ [(now, w, h)]))])"
  using assms
  by (simp add: count_commits_append count_commits_quiet batch_new_def count_commit_def Let_def pixels_of_def)

end
