(* ===== verification/QmlProps.thy ===== *)
theory QmlProps
  imports Cast
begin

text \<open>
  The properties that QML reads (the \<open>Q_PROPERTY\<close> lines of \<open>qtfb/server.h\<close>, \<open>launcher.h\<close> and
  \<open>settings.h\<close> under \<open>src/middleware/extension/src/\<close>): each with the getter it is read by and the
  signal that announces its changes. A binding of QML evaluates its property once and again whenever
  the signal comes, so it is right only if no change goes without the signal. The interface
  \<open>notifying\<close> states that as a law on the steps of a machine and proves that a binding then shows the
  present value after every run; the launcher's machine, the server and the preferences are its
  interpretations. The operations assign a property before they emit its signal, so that the value read at
  the last signal of a step is the value at the end of the step.
\<close>

section \<open>Bindings\<close>

text \<open>What a binding of property \<open>p\<close> shows after the events, if it shows \<open>v\<close> before.\<close>

fun bound ::
  "('p \<Rightarrow> 's \<Rightarrow> 'v) \<Rightarrow> ('p \<Rightarrow> 's \<Rightarrow> 's \<Rightarrow> bool) \<Rightarrow> ('s \<Rightarrow> 'e \<Rightarrow> 's) \<Rightarrow> 'p \<Rightarrow> 'v \<Rightarrow> 's \<Rightarrow> 'e list \<Rightarrow> 'v" where
  "bound read tells step p v s [] = v"
| "bound read tells step p v s (e # es) =
     (let s' = step s e in bound read tells step p (if tells p s s' then read p s' else v) s' es)"

locale notifying = transition_system init allowed step inv
  for init :: 's and allowed :: "'s \<Rightarrow> 'e \<Rightarrow> bool" and step :: "'s \<Rightarrow> 'e \<Rightarrow> 's" and inv :: "'s \<Rightarrow> bool" +
  fixes read :: "'p \<Rightarrow> 's \<Rightarrow> 'v"
    and tells :: "'p \<Rightarrow> 's \<Rightarrow> 's \<Rightarrow> bool"
  assumes notifies: "inv s \<Longrightarrow> allowed s e \<Longrightarrow> read p (step s e) = read p s \<or> tells p s (step s e)"
begin

lemma binding_current_from:
  "inv s \<Longrightarrow> allowed_run allowed step s es \<Longrightarrow>
     bound read tells step p (read p s) s es = read p (foldl step s es)"
proof (induction es arbitrary: s)
  case (Cons e es)
  then have "inv (step s e)" "read p (step s e) = read p s \<or> tells p s (step s e)"
    using step_inv notifies by simp_all
  with Cons.IH [of "step s e"] Cons.prems(2) show ?case by (auto simp: Let_def)
qed simp

lemma binding_current:
  "allowed_run allowed step init es \<Longrightarrow> bound read tells step p (read p init) init es = read p (foldl step init es)"
  by (rule binding_current_from [OF init_inv])

end

section \<open>The server\<close>

datatype server_property =
    Sp_w | Sp_h | Sp_bpp | Sp_lastFrameMode | Sp_cursorX | Sp_cursorY | Sp_cursorW | Sp_cursorH | Sp_cursorVisible

fun server_notify :: "server_property \<Rightarrow> signal" where
  "server_notify Sp_w = ShmChanged"
| "server_notify Sp_h = ShmChanged"
| "server_notify Sp_bpp = ShmChanged"
| "server_notify Sp_lastFrameMode = LastFrameModeChanged"
| "server_notify _ = CursorChanged"

fun server_read :: "server_property \<Rightarrow> server \<Rightarrow> variant" where
  "server_read Sp_w s = VInt (sv_w s)"
| "server_read Sp_h s = VInt (sv_h s)"
| "server_read Sp_bpp s = VInt (uint (sv_bpp s))"
| "server_read Sp_lastFrameMode s = VInt (uint (m_last_frame_mode s))"
| "server_read Sp_cursorX s = VInt (sv_cursor_x s)"
| "server_read Sp_cursorY s = VInt (sv_cursor_y s)"
| "server_read Sp_cursorW s = VInt (sv_cursor_w s)"
| "server_read Sp_cursorH s = VInt (sv_cursor_h s)"
| "server_read Sp_cursorVisible s = VBool (sv_cursor_visible s)"

definition server_tells :: "server_property \<Rightarrow> server \<Rightarrow> server \<Rightarrow> bool" where
  "server_tells p s s' \<longleftrightarrow> server_notify p \<in> set (drop (length (sv_signals s)) (sv_signals s'))"

text \<open>A change of a server, with the signals it adds, that leaves no property behind.\<close>

definition sv_told :: "server \<Rightarrow> server \<Rightarrow> bool" where
  "sv_told s s' \<longleftrightarrow> (\<exists>gs. sv_signals s' = sv_signals s @ gs \<and>
     (\<forall>p. server_read p s' = server_read p s \<or> server_notify p \<in> set gs))"

lemma sv_toldI:
  "sv_signals s' = sv_signals s @ gs \<Longrightarrow> (\<And>p. server_read p s' = server_read p s \<or> server_notify p \<in> set gs) \<Longrightarrow>
     sv_told s s'"
  by (auto simp: sv_told_def)

lemma sv_told_tells: "sv_told s s' \<Longrightarrow> server_read p s' = server_read p s \<or> server_tells p s s'"
  by (auto simp: sv_told_def server_tells_def)

lemma sv_told_refl [simp]: "sv_told s s"
  by (rule sv_toldI [of _ _ "[]"]) simp_all

lemma sv_told_trans: "sv_told a b \<Longrightarrow> sv_told b c \<Longrightarrow> sv_told a c"
proof -
  assume "sv_told a b" "sv_told b c"
  then obtain g h where "sv_signals b = sv_signals a @ g" "sv_signals c = sv_signals b @ h"
    "\<And>p. server_read p b = server_read p a \<or> server_notify p \<in> set g"
    "\<And>p. server_read p c = server_read p b \<or> server_notify p \<in> set h"
    by (auto simp: sv_told_def)
  then show ?thesis by (intro sv_toldI [of _ _ "g @ h"]) (auto, metis)
qed

lemma server_read_cong:
  "sv_w s' = sv_w s \<Longrightarrow> sv_h s' = sv_h s \<Longrightarrow> sv_bpp s' = sv_bpp s \<Longrightarrow> m_last_frame_mode s' = m_last_frame_mode s \<Longrightarrow>
   sv_cursor_x s' = sv_cursor_x s \<Longrightarrow> sv_cursor_y s' = sv_cursor_y s \<Longrightarrow> sv_cursor_w s' = sv_cursor_w s \<Longrightarrow>
   sv_cursor_h s' = sv_cursor_h s \<Longrightarrow> sv_cursor_visible s' = sv_cursor_visible s \<Longrightarrow> server_read p s' = server_read p s"
  by (cases p) simp_all

lemma sv_told_disconnect: "sv_told s (disconnectFromServer dsync s)"
  by (rule sv_toldI [of _ _ "if dsync \<and> m_socket s \<noteq> None then [ClientDisconnected] else []"])
    (auto simp: disconnectFromServer_def onSocketDisconnected_def emit_def intro!: server_read_cong split: option.splits)

lemma sv_told_sock_write: "sv_told s (sock_write b s)"
  by (rule sv_toldI [of _ _ "[]"]) (auto simp: sock_write_def intro!: server_read_cong split: option.splits)

text \<open>A step with one signal, which every property that changes names as its own.\<close>

lemma sv_told_signal:
  assumes "sv_signals t = sv_signals s @ gs \<or> (sv_signals t = sv_signals s \<and> (\<forall>p. server_read p t = server_read p s))"
    and "\<And>p. server_notify p \<notin> set gs \<Longrightarrow> server_read p t = server_read p s"
  shows "sv_told s t"
  using assms(1)
proof
  assume "sv_signals t = sv_signals s @ gs"
  then show ?thesis using assms(2) by (intro sv_toldI [of _ _ gs]) blast+
qed (auto intro: sv_toldI [of _ _ "[]"])

lemma sv_told_hello: "sv_told s (handleHello dsync h s)"
proof -
  define s1 where "s1 = s\<lparr>m_fps_cap := requested_fps h,
    m_min_period_ms := (if requested_fps h = 0 then 0 else uint (1000 div requested_fps h)), m_last_emit_ms := 0,
    sv_cursor_x := -1, sv_cursor_y := -1, sv_cursor_w := 0, sv_cursor_h := 0, sv_cursor_visible := False,
    m_last_frame_mode := 0xFFFFFFFF\<rparr>"
  define s2 where "s2 = emit LastFrameModeChanged (emit CursorChanged s1)"
  have "sv_signals s2 = sv_signals s @ [CursorChanged, LastFrameModeChanged]" by (simp add: s2_def s1_def emit_def)
  moreover have "server_read p s2 = server_read p s" if "server_notify p \<notin> set [CursorChanged, LastFrameModeChanged]" for p
    using that by (cases p) (simp_all add: s2_def s1_def emit_def)
  ultimately have "sv_told s s2" by (intro sv_told_signal) blast+
  moreover have "handleHello dsync h s = (let s3 = sock_write (enc_ack (ack_of s2 h)) s2 in
      if accepted (ack_of s2 h) = 0 then disconnectFromServer dsync s3 else s3)"
    by (simp add: handleHello_def Let_def s1_def s2_def)
  ultimately show ?thesis using sv_told_trans [OF _ sv_told_sock_write] sv_told_trans [OF _ sv_told_disconnect]
    by (simp add: Let_def)
qed

lemma sv_told_frame: "sv_told s (handleFrame clk f s)"
proof (rule sv_told_signal)
  let ?t = "handleFrame clk f s"
  let ?gs = "(if frame_mode f \<noteq> m_last_frame_mode s then [LastFrameModeChanged] else []) @
    [FrameReady (frame_seq f) (sint (frame_x f)) (sint (frame_y f)) (sint (frame_w f)) (sint (frame_h f))]"
  show "sv_signals ?t = sv_signals s @ ?gs \<or> (sv_signals ?t = sv_signals s \<and> (\<forall>p. server_read p ?t = server_read p s))"
    by (auto simp: handleFrame_def Let_def emit_def intro!: server_read_cong)
  show "server_read p ?t = server_read p s" if "server_notify p \<notin> set ?gs" for p
    using that by (cases p) (auto simp: handleFrame_def Let_def emit_def split: if_splits)
qed

lemma sv_told_cursor: "sv_told s (handleCursor c s)"
proof (rule sv_told_signal)
  let ?t = "handleCursor c s"
  show "sv_signals ?t = sv_signals s @ [CursorChanged] \<or> (sv_signals ?t = sv_signals s \<and> (\<forall>p. server_read p ?t = server_read p s))"
    by (auto simp: handleCursor_def Let_def emit_def intro: server_read_cong)
  show "server_read p ?t = server_read p s" if "server_notify p \<notin> set [CursorChanged]" for p
    using that by (cases p) (simp_all add: handleCursor_def Let_def emit_def)
qed

lemma sv_told_handle: "sv_told s (handle_c2s dsync clk s m)"
  by (cases m) (simp_all add: sv_told_hello sv_told_frame sv_told_cursor sv_told_disconnect)

lemma sv_told_set_unread: "sv_told s (set_unread r s)"
  by (rule sv_toldI [of _ _ "[]"]) (auto simp: set_unread_def intro!: server_read_cong)

lemma sv_told_read_step: "sv_told s (fst (read_step dsync clk s))"
proof -
  have h: "sv_told s (handle_c2s dsync clk (set_unread r s) m)" for r m
    by (rule sv_told_trans [OF sv_told_set_unread sv_told_handle])
  show ?thesis
    using h [of _ "C2S_Hello _"] h [of _ "C2S_Frame _"] h [of _ "C2S_Cursor _"] h [of _ "C2S_Bye undefined"]
    by (auto simp: read_step_def Let_def consume_set_unread sv_told_disconnect split: option.splits)
qed

lemma sv_told_feed: "sv_told s (feed dsync clk s b)"
proof -
  have "sv_told t (onSocketReadyRead dsync clk t)" for t
  proof (induction dsync clk t rule: onSocketReadyRead.induct)
    case (1 dsync clk s)
    have r: "sv_told s s'" if "read_step dsync clk s = (s', b)" for s' b
      using sv_told_read_step [of s dsync clk] that by simp
    show ?case
      using 1 r by (subst onSocketReadyRead.simps)
        (auto intro: sv_told_trans [OF r] split: prod.splits bool.splits)
  qed
  then show ?thesis unfolding feed_def sock_arrive_set_unread using sv_told_trans sv_told_set_unread by blast
qed

lemma sv_told_connections: "sv_told s (onNewConnection s)" "sv_told s (onSocketDisconnected s)"
proof -
  show "sv_told s (onNewConnection s)"
    by (rule sv_toldI [of _ _ "if m_socket s = None then [ClientConnected] else []"])
      (auto simp: onNewConnection_def emit_def intro!: server_read_cong)
  show "sv_told s (onSocketDisconnected s)"
    by (rule sv_toldI [of _ _ "[ClientDisconnected]"])
      (auto simp: onSocketDisconnected_def emit_def intro!: server_read_cong)
qed

lemma sv_told_stop: "server_stop dsync s = Inr s' \<Longrightarrow> sv_told s s'"
  by (rule sv_toldI [of _ _ "[]"])
    (auto simp: server_stop_def disconnectFromServer_def onSocketDisconnected_def emit_def Let_def
      intro!: server_read_cong split: option.splits if_splits)

text \<open>\<open>start\<close> sets the geometry before it knows whether it succeeds, and signals only success.\<close>

lemma sv_told_start: "fst (server_start io info s) \<Longrightarrow> sv_told s (snd (server_start io info s))"
proof (cases "m_server s")
  case False
  let ?t = "snd (server_start io info s)"
  assume ok: "fst (server_start io info s)"
  show ?thesis
  proof (rule sv_toldI [of _ _ "[ShmChanged]"])
    show "sv_signals ?t = sv_signals s @ [ShmChanged]" using ok False
      by (auto simp: server_start_def server_geometry_def allocShm_def emit_def Let_def split: if_splits)
    show "server_read p ?t = server_read p s \<or> server_notify p \<in> set [ShmChanged]" for p using ok False
      by (cases p) (auto simp: server_start_def server_geometry_def allocShm_def emit_def Let_def split: if_splits)
  qed
qed (simp add: server_start_def)

lemma failed_start_silent:
  assumes "\<not> m_server s" "\<not> io_listen io \<or> \<not> io_mmap io"
  shows "server_read Sp_w (snd (server_start io info s)) = VInt (di_w info)"
    "sv_signals (snd (server_start io info s)) = sv_signals s"
  using assms by (auto simp: server_start_def server_geometry_def allocShm_def freeShm_def Let_def)

fun sv_succeeds :: "bool \<Rightarrow> server \<Rightarrow> sv_event \<Rightarrow> bool" where
  "sv_succeeds dsync s (Ev_start io info) \<longleftrightarrow> geometry_ok info \<and> fst (server_start io info s)"
| "sv_succeeds dsync s e \<longleftrightarrow> sv_allowed dsync s e"

lemma sv_succeeds_allowed: "sv_succeeds dsync s e \<Longrightarrow> sv_allowed dsync s e"
  by (cases e) auto

interpretation server_props: notifying "server_init gray" "sv_succeeds dsync" "sv_step dsync clk" server_inv
    server_read server_tells
proof unfold_locales
  show "server_inv (server_init gray)" by (rule server_sys.init_inv)
next
  fix s e assume "server_inv s" "sv_succeeds dsync s e"
  then show "server_inv (sv_step dsync clk s e)" using server_sys.step_inv sv_succeeds_allowed by blast
next
  fix s e p assume "server_inv s" "sv_succeeds dsync s e"
  then have "sv_told s (sv_step dsync clk s e)"
    by (cases e) (auto simp: sv_told_connections sv_told_feed sv_told_start dest: sv_told_stop split: sum.splits)
  then show "server_read p (sv_step dsync clk s e) = server_read p s \<or> server_tells p s (sv_step dsync clk s e)"
    by (rule sv_told_tells)
qed

section \<open>The launcher\<close>

text \<open>\<open>Qp_server p\<close> is the expression \<open>Vncast.qtfbServer.p\<close>, which depends on two signals.\<close>

datatype qml_property = Qp_overlayOpen | Qp_qtfbServer | Qp_sessionStatus | Qp_server server_property

datatype qml_value = Qv_null | Qv_object nat | Qv_status session_status | Qv variant

definition current_server :: "launcher \<Rightarrow> server option" where
  "current_server l = Option.bind (lc_server l) (lc_objs l)"

fun qml_read :: "qml_property \<Rightarrow> launcher \<Rightarrow> qml_value" where
  "qml_read Qp_overlayOpen l = Qv (VBool (lc_overlayOpen l))"
| "qml_read Qp_qtfbServer l = (case lc_server l of None \<Rightarrow> Qv_null | Some i \<Rightarrow> Qv_object i)"
| "qml_read Qp_sessionStatus l = Qv_status (lc_status l)"
| "qml_read (Qp_server p) l = (case current_server l of None \<Rightarrow> Qv_null | Some s \<Rightarrow> Qv (server_read p s))"

fun qml_notify :: "qml_property \<Rightarrow> launcher_signal" where
  "qml_notify Qp_overlayOpen = OverlayOpenChanged"
| "qml_notify Qp_sessionStatus = SessionStatusChanged"
| "qml_notify _ = QtfbServerChanged"

definition server_part_tells :: "qml_property \<Rightarrow> launcher \<Rightarrow> launcher \<Rightarrow> bool" where
  "server_part_tells p l l' =
     (case (p, current_server l, current_server l') of
        (Qp_server q, Some s, Some s') \<Rightarrow> lc_server l' = lc_server l \<and> server_tells q s s'
      | _ \<Rightarrow> False)"

definition qml_tells :: "qml_property \<Rightarrow> launcher \<Rightarrow> launcher \<Rightarrow> bool" where
  "qml_tells p l l' \<longleftrightarrow>
     qml_notify p \<in> set (drop (length (lc_signals l)) (lc_signals l')) \<or> server_part_tells p l l'"

text \<open>
  \<open>said gs\<close>: the signals \<open>gs\<close> were added and account for the overlay and the status. \<open>lc_told\<close>: they
  account for the server as well, or it is the same object and has told its own changes.
\<close>

definition said :: "launcher_signal list \<Rightarrow> launcher \<Rightarrow> launcher \<Rightarrow> bool" where
  "said gs l l' \<longleftrightarrow> lc_signals l' = lc_signals l @ gs \<and>
     (lc_overlayOpen l' = lc_overlayOpen l \<or> OverlayOpenChanged \<in> set gs) \<and>
     (lc_status l' = lc_status l \<or> SessionStatusChanged \<in> set gs)"

definition speaks :: "launcher \<Rightarrow> launcher \<Rightarrow> bool" where
  "speaks l l' \<longleftrightarrow> (\<exists>gs. said gs l l')"

definition renews :: "launcher \<Rightarrow> launcher \<Rightarrow> bool" where
  "renews l l' \<longleftrightarrow> (\<exists>gs. said gs l l' \<and> QtfbServerChanged \<in> set gs)"

definition lc_told :: "launcher \<Rightarrow> launcher \<Rightarrow> bool" where
  "lc_told l l' \<longleftrightarrow> renews l l' \<or>
     (speaks l l' \<and> lc_server l' = lc_server l \<and> rel_option sv_told (current_server l) (current_server l'))"

lemma said_trans: "said g a b \<Longrightarrow> said h b c \<Longrightarrow> said (g @ h) a c"
  by (auto simp: said_def)

lemma speaks_trans [trans]: "speaks a b \<Longrightarrow> speaks b c \<Longrightarrow> speaks a c"
  using said_trans unfolding speaks_def by blast

lemma renews_trans [trans]: "renews a b \<Longrightarrow> speaks b c \<Longrightarrow> renews a c" "speaks a b \<Longrightarrow> renews b c \<Longrightarrow> renews a c"
  "renews a b \<Longrightarrow> renews b c \<Longrightarrow> renews a c"
  unfolding renews_def speaks_def by (metis said_trans set_append UnI1 UnI2)+

lemma told_speaks: "lc_told a b \<Longrightarrow> speaks a b"
  by (auto simp: lc_told_def renews_def speaks_def)

lemma told_trans [trans]: "lc_told a b \<Longrightarrow> lc_told b c \<Longrightarrow> lc_told a c"
proof -
  assume t: "lc_told a b" "lc_told b c"
  have "rel_option sv_told (current_server a) (current_server c)"
    if "rel_option sv_told (current_server a) (current_server b)" "rel_option sv_told (current_server b) (current_server c)"
    using that by (auto simp: option_rel_Some1 intro: sv_told_trans elim!: option.rel_cases)
  then show ?thesis using t renews_trans speaks_trans told_speaks unfolding lc_told_def by metis
qed

lemma speaks_same: "speaks l l' \<Longrightarrow> lc_server l' = lc_server l \<Longrightarrow> lc_objs l' = lc_objs l \<Longrightarrow> lc_told l l'"
  by (auto simp: lc_told_def current_server_def intro: option.rel_refl)

lemma speaks_refl [simp]: "speaks l l"
  unfolding speaks_def by (intro exI [of _ "[]"]) (simp add: said_def)

lemma speaks_simps [simp]:
  "speaks l (l'\<lparr>lc_view := v\<rparr>) = speaks l l'" "speaks l (l'\<lparr>lc_objs := ob\<rparr>) = speaks l l'"
  "speaks l (l'\<lparr>lc_hooks := h\<rparr>) = speaks l l'" "speaks l (l'\<lparr>lc_proc := pr\<rparr>) = speaks l l'"
  "speaks l (l'\<lparr>lc_overlay := ov\<rparr>) = speaks l l'" "speaks l (l'\<lparr>lc_server := sv\<rparr>) = speaks l l'"
  "speaks l (l'\<lparr>lc_next := n\<rparr>) = speaks l l'" "speaks l (l'\<lparr>lc_later := ls\<rparr>) = speaks l l'"
  by (simp_all add: speaks_def said_def)

lemma speaks_emit: "speaks l l' \<Longrightarrow> speaks l (lc_emit g l')" "speaks l l' \<Longrightarrow> speaks l (setStatus st l')"
  "speaks l l' \<Longrightarrow> speaks l (setOverlayOpen b l')"
proof -
  have "speaks k (lc_emit g k)" "speaks k (setStatus st k)" "speaks k (setOverlayOpen b k)" for k
    unfolding speaks_def
      apply (intro exI [of _ "[g]"]; simp add: said_def lc_emit_def)
     apply (intro exI [of _ "if lc_status k = st then [] else [SessionStatusChanged]"]; simp add: said_def lc_emit_def setStatus_def)
    apply (intro exI [of _ "if lc_overlayOpen k = b then [] else [OverlayOpenChanged]"]; simp add: said_def lc_emit_def setOverlayOpen_def)
    done
  then show "speaks l l' \<Longrightarrow> speaks l (lc_emit g l')" "speaks l l' \<Longrightarrow> speaks l (setStatus st l')"
    "speaks l l' \<Longrightarrow> speaks l (setOverlayOpen b l')" using speaks_trans by blast+
qed

lemma renews_changed: "speaks l l' \<Longrightarrow> renews l (server_changed l')"
proof -
  have "renews k (server_changed k)" for k
    unfolding renews_def by (intro exI [of _ "[QtfbServerChanged]"]) (simp add: said_def server_changed_def lc_emit_def)
  then show "speaks l l' \<Longrightarrow> renews l (server_changed l')" using renews_trans(2) by blast
qed

subsection \<open>Signals\<close>

lemma on_server_signal_speaks: "on_server_signal g l = Inr l' \<Longrightarrow> speaks l l'"
  by (cases g) (auto simp: Let_def intro!: speaks_emit split: if_splits option.splits)

lemma on_view_signal_speaks: "on_view_signal i g l = Inr l' \<Longrightarrow> speaks l l'"
  by (cases g) (auto simp: bindE_Inr_iff split: if_splits)

lemma deliver_speaks: "deliver i gs l = Inr l' \<Longrightarrow> speaks l l'"
proof (induction gs arbitrary: l)
  case (Cons g gs)
  then obtain l1 l2 where d: "on_server_signal g l = Inr l1" "on_view_signal i g l1 = Inr l2" "deliver i gs l2 = Inr l'"
    by (auto simp: bindE_Inr_iff)
  show ?case
    by (rule speaks_trans [OF on_server_signal_speaks [OF d(1)] speaks_trans [OF on_view_signal_speaks [OF d(2)] Cons.IH [OF d(3)]]])
qed simp

lemma put_server_speaks: "put_server i s s' l = Inr l' \<Longrightarrow> speaks l l'"
proof -
  assume "put_server i s s' l = Inr l'"
  then have "speaks (l\<lparr>lc_objs := (lc_objs l)(i \<mapsto> s')\<rparr>) l'" using deliver_speaks by (simp add: put_server_def)
  then show ?thesis by (rule speaks_trans [rotated]) simp
qed

lemma put_server_fields:
  "put_server i s s' l = Inr l' \<Longrightarrow> lc_server l' = lc_server l \<and> lc_objs l' = (lc_objs l)(i \<mapsto> s')"
  using deliver_keeps [of i _ "l\<lparr>lc_objs := (lc_objs l)(i \<mapsto> s')\<rparr>" l'] by (auto simp: put_server_def keeps_def)

lemma put_server_told:
  assumes "put_server i s s' l = Inr l'" "lc_objs l i = Some s" "sv_told s s'"
  shows "lc_told l l'"
proof -
  have "rel_option sv_told (current_server l) (current_server l')"
    using put_server_fields [OF assms(1)] assms(2,3)
    by (cases "lc_server l"; cases "lc_objs l (the (lc_server l))") (auto simp: current_server_def)
  then show ?thesis using put_server_speaks [OF assms(1)] put_server_fields [OF assms(1)] by (simp add: lc_told_def)
qed

subsection \<open>The operations\<close>

lemma retire_server_renews: "retire_server dsync i s l = Inr l' \<Longrightarrow> renews l l'"
  by (auto simp: retire_server_def Let_def bindE_Inr_iff
      dest!: put_server_speaks intro!: renews_trans(1) [OF renews_changed])

lemma start_server_renews: "start_server io info gray l = Inr (ok, l') \<Longrightarrow> renews l l'"
  by (auto simp: start_server_def Let_def bindE_Inr_iff split: if_splits option.splits prod.splits
      dest!: put_server_speaks intro!: renews_changed speaks_emit elim!: speaks_trans [rotated])

lemma ensure_told: "ensureServerStarted dsync io info gray l = Inr (ok, l') \<Longrightarrow> lc_told l l'"
  by (auto simp: ensureServerStarted_def bindE_Inr_iff lc_told_def intro: renews_trans
      dest!: retire_server_renews start_server_renews intro: option.rel_refl split: option.splits if_splits)

lemma set_waveform_told: "lc_told l (set_waveform w l)"
proof (cases "lc_server l")
  case (Some i)
  have "sv_told s (s\<lparr>sv_waveform := w\<rparr>)" for s
    by (rule sv_toldI [of _ _ "[]"]) (auto intro!: server_read_cong)
  with Some show ?thesis
    by (cases "lc_objs l i") (simp_all add: set_waveform_def lc_told_def current_server_def)
qed (simp add: set_waveform_def speaks_same)

lemma spawn_vnsee_speaks: "speaks l (spawn_vnsee sp cfg sysenv l)"
  by (auto simp: spawn_vnsee_def Let_def intro!: speaks_emit split: sum.splits)

lemma startSession_told: "startSession dsync io info sp sysenv cfg l = Inr l' \<Longrightarrow> lc_told l l'"
proof (cases "session_running l")
  case False
  assume "startSession dsync io info sp sysenv cfg l = Inr l'"
  then obtain ok l1 where e: "ensureServerStarted dsync io info (cfg_gray cfg) (setStatus Starting_server l) = Inr (ok, l1)"
    "l' = lc_emit (SessionEnded (-1)) l1 \<or> l' = spawn_vnsee sp cfg sysenv (set_waveform (cfg_waveform cfg) l1)"
    using False by (auto simp: startSession_def bindE_Inr_iff split: if_splits)
  have "lc_told l (setStatus Starting_server l)" by (rule speaks_same) (simp_all add: speaks_emit)
  also have "lc_told (setStatus Starting_server l) l1" by (rule ensure_told [OF e(1)])
  also have "lc_told l1 l'"
  proof -
    have k: "lc_objs (spawn_vnsee sp cfg sysenv t) = lc_objs t" "lc_server (spawn_vnsee sp cfg sysenv t) = lc_server t" for t
      using spawn_vnsee_keeps [of t sp cfg sysenv] by (simp_all add: keeps_def)
    have "lc_told l1 (lc_emit (SessionEnded (-1)) l1)"
      by (rule speaks_same) (simp_all add: speaks_emit, simp_all add: lc_emit_def)
    moreover have "lc_told t (spawn_vnsee sp cfg sysenv t)" for t
      by (rule speaks_same [OF spawn_vnsee_speaks]) (simp_all add: k)
    ultimately show ?thesis using e(2) told_trans [OF set_waveform_told] by auto
  qed
  finally show ?thesis .
qed (simp add: startSession_def speaks_same)

lemma session_end_speaks: "speaks l (stopSession fin1 fin2 l)" "speaks l (process_finished code l)"
  by (auto simp: stopSession_def process_finished_def Let_def intro!: speaks_emit split: option.splits)

lemma delete_later_told:
  assumes inv: "cast_inv l" and d: "delete_later dsync l = Inr l'"
  shows "lc_told l l'"
proof (cases "lc_later l")
  case (Cons i rest)
  then obtain s s1 l1 where s: "lc_objs l i = Some s" and s1: "server_delete dsync s = Inr s1"
    "put_server i s s1 l = Inr l1" "l' = l1\<lparr>lc_objs := (lc_objs l1)(i := None), lc_later := rest\<rparr>"
    using d by (auto simp: delete_later_def bindE_Inr_iff split: option.splits)
  have "lc_server l \<noteq> Some i" using inv Cons by (auto simp: cast_inv_def objs_inv_def)
  then have "current_server l' = current_server l" "lc_server l' = lc_server l"
    using put_server_fields [OF s1(2)] s1(3) by (cases "lc_server l"; simp add: current_server_def)+
  then show ?thesis using put_server_speaks [OF s1(2)] s1(3)
    by (auto simp: lc_told_def intro: option.rel_refl)
qed (use d in \<open>simp add: delete_later_def speaks_same\<close>)

lemma cast_step_told:
  assumes "cast_inv l" "cast_step dsync clk l e = Inr l'"
  shows "lc_told l l'"
proof -
  have o: "lc_told l l'" if "on_server i f l = Inr l'" "\<And>s. sv_told s (f s)" for i f
    using that put_server_told by (auto simp: on_server_def split: option.splits)
  have q: "lc_told l l'" if "Inr k = (Inr l' :: launcher res)" "speaks l k" "lc_server k = lc_server l" "lc_objs k = lc_objs l" for k
    using that speaks_same by simp
  show ?thesis
  proof (cases e)
    case (Ca_stop fin1 fin2)
    then show ?thesis using assms(2) session_end_speaks(1)
      by (intro q [of "stopSession fin1 fin2 l"])
        (auto simp: stopSession_def process_finished_def lc_emit_def Let_def split: option.splits)
  next
    case (Ca_finished code)
    then show ?thesis using assms(2) session_end_speaks(2)
      by (intro q [of "process_finished code l"]) (auto simp: process_finished_def lc_emit_def)
  next
    case (Ca_overlay b)
    have "speaks l (openOverlay l)" "speaks l (closeOverlay l)"
      by (auto simp: openOverlay_def closeOverlay_def intro!: speaks_emit)
    then show ?thesis using assms(2) Ca_overlay
      by (intro q [of "if b then openOverlay l else closeOverlay l"])
        (auto simp: openOverlay_def closeOverlay_def setOverlayOpen_def lc_emit_def)
  qed (use assms o q startSession_told delete_later_told sv_told_connections sv_told_feed in \<open>auto intro: speaks_same\<close>)
qed

text \<open>Whatever happens, every binding of QML shows what the getters return.\<close>

lemma told_tells: "lc_told l l' \<Longrightarrow> qml_read p l' = qml_read p l \<or> qml_tells p l l'"
proof -
  assume t: "lc_told l l'"
  obtain gs where gs: "said gs l l'" "QtfbServerChanged \<in> set gs \<or>
      (lc_server l' = lc_server l \<and> rel_option sv_told (current_server l) (current_server l'))"
    using t told_speaks [OF t] by (auto simp: lc_told_def renews_def speaks_def)
  then have n: "qml_notify p \<in> set gs \<Longrightarrow> qml_tells p l l'" by (simp add: qml_tells_def said_def)
  show ?thesis
  proof (cases p)
    case (Qp_server q)
    show ?thesis
    proof (cases "QtfbServerChanged \<in> set gs")
      case False
      then have r: "lc_server l' = lc_server l" "rel_option sv_told (current_server l) (current_server l')" using gs(2) by auto
      show ?thesis
      proof (cases "current_server l")
        case (Some s)
        then obtain s' where "current_server l' = Some s'" "sv_told s s'" using r(2) by (auto simp: option_rel_Some1)
        then show ?thesis using Some r(1) sv_told_tells [of s s' q] Qp_server
          by (auto simp: qml_tells_def server_part_tells_def)
      qed (use r Qp_server in simp)
    qed (use n Qp_server in simp)
  qed (use gs n in \<open>auto simp: said_def\<close>)
qed

interpretation cast_props: notifying "launcher_with (hooks_init m) sz" "cast_allowed dsync clk" "cast_next dsync clk" cast_inv
    qml_read qml_tells
proof unfold_locales
  fix l e p assume "cast_inv l" "cast_allowed dsync clk l e"
  then have "lc_told l (cast_next dsync clk l e)" using cast_step_told by (auto simp: cast_allowed_def cast_next_def)
  then show "qml_read p (cast_next dsync clk l e) = qml_read p l \<or> qml_tells p l (cast_next dsync clk l e)" by (rule told_tells)
qed

section \<open>The preferences\<close>

datatype pref_property =
    Pp_host | Pp_port | Pp_fps | Pp_waveform | Pp_orientation | Pp_encoding | Pp_grayscale | Pp_mono1 | Pp_lowLatency
  | Pp_compressLevel

fun pref_read :: "pref_property \<Rightarrow> settings \<Rightarrow> variant" where
  "pref_read Pp_host s = VStr (st_host s)"
| "pref_read Pp_port s = VInt (st_port s)"
| "pref_read Pp_fps s = VInt (st_fps s)"
| "pref_read Pp_waveform s = VStr (st_waveform s)"
| "pref_read Pp_orientation s = VStr (st_orientation s)"
| "pref_read Pp_encoding s = VStr (st_encoding s)"
| "pref_read Pp_grayscale s = VBool (st_grayscale s)"
| "pref_read Pp_mono1 s = VBool (st_mono1 s)"
| "pref_read Pp_lowLatency s = VBool (st_lowLatency s)"
| "pref_read Pp_compressLevel s = VInt (st_compressLevel s)"

definition pref_tells :: "pref_property \<Rightarrow> settings \<Rightarrow> settings \<Rightarrow> bool" where
  "pref_tells p s s' \<longleftrightarrow> st_changed s < st_changed s'"

interpretation pref_props: notifying settings_defaults "\<lambda>_ _. True" "\<lambda>s p. set_pref p s"
    "\<lambda>s. 0 \<le> st_compressLevel s \<and> st_compressLevel s \<le> 9" pref_read pref_tells
proof unfold_locales
  fix s e p
  show "pref_read p (set_pref e s) = pref_read p s \<or> pref_tells p s (set_pref e s)"
    by (cases e) (auto simp: pref_tells_def emit_changed_def)
qed

end
