(* ===== verification/MonoDecoder.thy ===== *)
theory MonoDecoder
  imports Wire CText
begin

text \<open>
  The two monochrome encodings that the patch adds to libvncclient: their request and their decoder
  (\<open>patches/0001-libvncclient-rcastmono1-encoding.patch\<close>, in \<open>HandleRFBServerMessage\<close>): one bit a
  pixel, raw (-789) or run-length encoded (-791). A run-length encoded stream is a list of runs
  (\<open>rle_run\<close>) written as \<open>render_run\<close> and meaning \<open>expand_run\<close>; the decoding loop gives the meaning,
  cut to the picture, and leaves what the runs do not reach as the allocation had it
  (\<open>rle_loop_runs\<close>). Allocations are a parameter: the answer to the \<open>i\<close>-th call of \<open>malloc\<close> is a
  block of any content, or none. The server's bytes are a list; a read beyond it fails.
\<close>

unbundle bit_operations_syntax

section \<open>Requesting the encodings\<close>

text \<open>
  \<open>strncasecmp(a, b, n) == 0\<close>. The client compares a word of its list of encodings, as long as it is,
  with the names in turn; the patch adds the last two names of the chain.
\<close>

fun strncasecmp_eq :: "nat \<Rightarrow> string \<Rightarrow> string \<Rightarrow> bool" where
  "strncasecmp_eq 0 a b \<longleftrightarrow> True"
| "strncasecmp_eq (Suc n) (a # as) (b # bs) \<longleftrightarrow> to_lower a = to_lower b \<and> strncasecmp_eq n as bs"
| "strncasecmp_eq (Suc n) as bs \<longleftrightarrow> as = [] \<and> bs = []"

definition patch_encoding :: "string \<Rightarrow> int option" where
  "patch_encoding word =
     (if strncasecmp_eq (length word) word ''rcastmono1z'' then Some (-791)
      else if strncasecmp_eq (length word) word ''rcastmono1'' then Some (-789)
      else None)"

lemma strncasecmp_prefix: "strncasecmp_eq (length w) w a \<Longrightarrow> strncasecmp_eq (length w) w (a @ b)"
proof (induction w arbitrary: a)
  case (Cons c w)
  then show ?case by (cases a) auto
qed simp

text \<open>A word that the second name matches, the first, of which it is a prefix, has matched before.\<close>

lemma patch_encoding_never_raw: "patch_encoding word \<noteq> Some (-789)"
  using strncasecmp_prefix [of word "''rcastmono1''" "''z''"] by (simp add: patch_encoding_def)

section \<open>The decoding loop of the run-length encoding\<close>

text \<open>The loop on the compressed bytes, the two positions and the output buffer.\<close>

function rle_loop :: "bytes \<Rightarrow> nat \<Rightarrow> nat \<Rightarrow> bytes \<Rightarrow> bytes res" where
  "rle_loop compbuf in_pos out_pos all_packed =
     (let comp_len = length compbuf; total_packed = length all_packed in
      if in_pos < comp_len \<and> out_pos < total_packed then
        bindE (load_bytes compbuf (int in_pos) 1) (\<lambda>c.
          let ctrl = c ! 0; in1 = in_pos + 1 in
          if ctrl AND 0x80 \<noteq> 0 then
            (if in1 \<ge> comp_len then Inr all_packed
             else
               bindE (load_bytes compbuf (int in1) 1) (\<lambda>v.
                 let cnt = min (unat (ctrl AND 0x7F) + 2) (total_packed - out_pos) in
                 bindE (store_bytes all_packed (int out_pos) (replicate cnt (v ! 0)))
                   (\<lambda>out. rle_loop compbuf (in1 + 1) (out_pos + cnt) out)))
          else
            (let cnt = min (min (unat ctrl + 1) (comp_len - in1)) (total_packed - out_pos) in
             bindE (memcpy all_packed (int out_pos) compbuf (int in1) cnt)
               (\<lambda>out. rle_loop compbuf (in1 + cnt) (out_pos + cnt) out)))
      else Inr all_packed)"
  by pat_completeness auto

termination by (relation "measure (\<lambda>(compbuf, in_pos, _, _). length compbuf - in_pos)") auto

declare rle_loop.simps [simp del]

section \<open>Rows of pixels\<close>

definition mono_px :: "nat \<Rightarrow> bool \<Rightarrow> bytes" where
  "mono_px bpp on =
     (let v = (if on then 0xFF else 0) in if bpp = 4 then [v, v, v, 0xFF] else replicate bpp v)"

definition mono_bit :: "bytes \<Rightarrow> nat \<Rightarrow> nat \<Rightarrow> nat \<Rightarrow> bool res" where
  "mono_bit all_packed row_bytes row col =
     bindE (load_bytes all_packed (int (row * row_bytes + col div 8)) 1)
       (\<lambda>p. Inr (drop_bit (7 - col mod 8) (p ! 0) AND 1 = 1))"

definition expand_row :: "nat \<Rightarrow> bytes \<Rightarrow> nat \<Rightarrow> nat \<Rightarrow> nat \<Rightarrow> bytes \<Rightarrow> bytes res" where
  "expand_row bpp all_packed row_bytes w row row_expanded =
     for_upto w (\<lambda>col dst.
       bindE (mono_bit all_packed row_bytes row col) (\<lambda>on.
       store_bytes dst (int (col * bpp)) (mono_px bpp on))) row_expanded"

section \<open>The handler of a rectangle\<close>

record mono_rect =
  mr_x :: u16
  mr_y :: u16
  mr_w :: u16
  mr_h :: u16

datatype mono_encoding = Mono1 | Mono1z   \<comment> \<open>-789 and -791\<close>

datatype rfb_call =
    GotBitmap bytes nat nat nat nat
  | SoftCursorUnlockScreen
  | GotFrameBufferUpdate nat nat nat nat

type_synonym allocator = "nat \<Rightarrow> nat \<Rightarrow> bytes option"

definition ReadFromRFBServer :: "nat \<Rightarrow> bytes \<Rightarrow> (bytes \<times> bytes) option" where
  "ReadFromRFBServer n rx = (if n \<le> length rx then Some (take n rx, drop n rx) else None)"

definition be32 :: "bytes \<Rightarrow> u32" where
  "be32 b = push_bit 24 (ucast (b ! 0)) OR push_bit 16 (ucast (b ! 1)) OR push_bit 8 (ucast (b ! 2)) OR ucast (b ! 3)"

text \<open>
  The packed picture: read, or read and decoded. \<open>None\<close> is the early return of \<open>FALSE\<close>, after
  which the connection is given up.
\<close>

definition read_packed :: "allocator \<Rightarrow> mono_encoding \<Rightarrow> bytes \<Rightarrow> bytes \<Rightarrow> (bytes \<times> bytes) option res" where
  "read_packed alloc enc all_packed rx =
     (case enc of
        Mono1z \<Rightarrow>
          (case ReadFromRFBServer 4 rx of
             None \<Rightarrow> Inr None
           | Some (lenbuf, rx1) \<Rightarrow>
               let comp_len = unat (be32 lenbuf) in
               (case alloc 2 comp_len of
                  None \<Rightarrow> Inr None
                | Some _ \<Rightarrow>
                    (case ReadFromRFBServer comp_len rx1 of
                       None \<Rightarrow> Inr None
                     | Some (compbuf, rx2) \<Rightarrow>
                         bindE (rle_loop compbuf 0 0 all_packed) (\<lambda>p. Inr (Some (p, rx2))))))
      | Mono1 \<Rightarrow> Inr (ReadFromRFBServer (length all_packed) rx))"

definition bitmap_rows :: "nat \<Rightarrow> mono_rect \<Rightarrow> nat \<Rightarrow> bytes \<Rightarrow> bytes \<Rightarrow> (bytes \<times> rfb_call list) res" where
  "bitmap_rows bpp r row_bytes all_packed row_expanded =
     for_upto (unat (mr_h r)) (\<lambda>row (buf, calls).
       bindE (expand_row bpp all_packed row_bytes (unat (mr_w r)) row buf) (\<lambda>buf'.
       Inr (buf', calls @ [GotBitmap buf' (unat (mr_x r)) (unat (mr_y r) + row) (unat (mr_w r)) 1])))
       (row_expanded, [])"

definition handle_mono ::
  "allocator \<Rightarrow> nat \<Rightarrow> mono_encoding \<Rightarrow> mono_rect \<Rightarrow> bytes \<Rightarrow> (bytes \<times> rfb_call list) option res" where
  "handle_mono alloc bitsPerPixel enc r rx =
     (let w = unat (mr_w r); h = unat (mr_h r); row_bytes = (w + 7) div 8; bpp = bitsPerPixel div 8 in
      case ReadFromRFBServer 1 rx of
        None \<Rightarrow> Inr None
      | Some (threshold, rx1) \<Rightarrow>
          (case (alloc 0 (row_bytes * h), alloc 1 (w * bpp)) of
             (Some all_packed, Some row_expanded) \<Rightarrow>
               bindE (read_packed alloc enc all_packed rx1) (\<lambda>res.
                 case res of
                   None \<Rightarrow> Inr None
                 | Some (packed, rx2) \<Rightarrow>
                     bindE (bitmap_rows bpp r row_bytes packed row_expanded) (\<lambda>(_, calls).
                     Inr (Some (rx2, calls @ [SoftCursorUnlockScreen,
                       GotFrameBufferUpdate (unat (mr_x r)) (unat (mr_y r)) w h]))))
           | _ \<Rightarrow> Inr None))"

section \<open>What a stream of runs means\<close>

datatype rle_run = Repeat nat u8 | Literal bytes

fun run_ok :: "rle_run \<Rightarrow> bool" where
  "run_ok (Repeat n v) \<longleftrightarrow> 2 \<le> n \<and> n \<le> 129"
| "run_ok (Literal b) \<longleftrightarrow> 1 \<le> length b \<and> length b \<le> 128"

fun render_run :: "rle_run \<Rightarrow> bytes" where
  "render_run (Repeat n v) = [0x80 OR word_of_nat (n - 2), v]"
| "render_run (Literal b) = word_of_nat (length b - 1) # b"

fun expand_run :: "rle_run \<Rightarrow> bytes" where
  "expand_run (Repeat n v) = replicate n v"
| "expand_run (Literal b) = b"

definition render_runs :: "rle_run list \<Rightarrow> bytes" where
  "render_runs rs = concat (map render_run rs)"

definition expand_runs :: "rle_run list \<Rightarrow> bytes" where
  "expand_runs rs = concat (map expand_run rs)"

lemma runs_simps [simp]:
  "render_runs [] = []" "render_runs (r # rs) = render_run r @ render_runs rs"
  "expand_runs [] = []" "expand_runs (r # rs) = expand_run r @ expand_runs rs"
  by (simp_all add: render_runs_def expand_runs_def)

text \<open>The buffer after \<open>p\<close> has been written at \<open>k\<close>, cut at the end of the buffer.\<close>

definition fill :: "nat \<Rightarrow> bytes \<Rightarrow> bytes \<Rightarrow> bytes" where
  "fill k p out = take k out @ take (length out - k) p @ drop (k + length p) out"

lemma fill_length [simp]: "k \<le> length out \<Longrightarrow> length (fill k p out) = length out"
  by (auto simp: fill_def)

lemma fill_none [simp]: "fill k [] out = out" "length out \<le> k \<Longrightarrow> fill k p out = out"
  by (simp_all add: fill_def)

lemma fill_append:
  assumes "k + length p \<le> length out"
  shows "fill (k + length p) q (fill k p out) = fill k (p @ q) out"
proof -
  have x: "fill k p out = take k out @ p @ drop (k + length p) out" using assms by (simp add: fill_def)
  have m: "min (length out) k = k" "length p \<le> length out - k" using assms by simp_all
  show ?thesis using assms m unfolding x by (simp add: fill_def ac_simps)
qed

lemma fill_full: "length out \<le> k + length p \<Longrightarrow> fill k (p @ q) out = fill k p out"
  by (simp add: fill_def)

lemma store_fill:
  "k \<le> length out \<Longrightarrow> store_bytes out (int k) (take (length out - k) p) = Inr (fill k p out)"
  by (cases "length p \<le> length out - k") (auto simp: store_bytes_def fill_def min_def)

lemma control_bytes:
  "n \<le> 127 \<Longrightarrow> (word_of_nat n :: u8) AND 0x80 = 0"
  "n \<le> 127 \<Longrightarrow> unat (word_of_nat n :: u8) = n"
  "((0x80 :: u8) OR w) AND 0x80 \<noteq> 0"
  "n \<le> 127 \<Longrightarrow> unat (((0x80 :: u8) OR word_of_nat n) AND 0x7F) = n"
proof -
  have lt: "n \<le> 127 \<Longrightarrow> word_of_nat n = (take_bit 7 (word_of_nat n) :: u8)" for n
    by (simp add: take_bit_of_nat take_bit_nat_eq_self)
  have m: "(0x7F :: u8) = mask 7" by (simp add: mask_eq_exp_minus_1)
  have e: "(0x80 :: u8) = 2 ^ 7" by simp
  show u: "n \<le> 127 \<Longrightarrow> unat (word_of_nat n :: u8) = n"
    by (simp add: unsigned_of_nat take_bit_nat_eq_self)
  show "n \<le> 127 \<Longrightarrow> (word_of_nat n :: u8) AND 0x80 = 0"
    unfolding e and_exp_eq_0_iff_not_bit by (subst lt, assumption) (simp add: bit_take_bit_iff)
  show "((0x80 :: u8) OR w) AND 0x80 \<noteq> 0"
  proof
    assume "((0x80 :: u8) OR w) AND 0x80 = 0"
    then have "bit (((0x80 :: u8) OR w) AND 0x80) 7 = bit (0 :: u8) 7" by simp
    then show False by (simp add: bit_simps)
  qed
  assume n: "n \<le> 127"
  have "((0x80 :: u8) OR word_of_nat n) AND 0x7F = word_of_nat n"
    unfolding m take_bit_eq_mask [symmetric] using lt [OF n] by (simp add: take_bit_or)
  then show "unat (((0x80 :: u8) OR word_of_nat n) AND 0x7F) = n" using u [OF n] by simp
qed

text \<open>One pass of the loop, for a run at the present position.\<close>

lemma rle_loop_stop: "length compbuf \<le> i \<or> length out \<le> k \<Longrightarrow> rle_loop compbuf i k out = Inr out"
  by (subst rle_loop.simps) (auto simp: Let_def)

lemma load_at:
  "i < length b \<Longrightarrow> load_bytes b (int i) 1 = Inr [b ! i]"
  by (simp add: load_bytes_def Cons_nth_drop_Suc [symmetric])

lemma store_cut:
  "k \<le> length out \<Longrightarrow> length p = min n (length out - k) \<Longrightarrow> p = take (length out - k) q \<Longrightarrow>
     store_bytes out (int k) p = Inr (fill k q out)"
  using store_fill by simp

lemma rle_loop_step:
  assumes "i < length compbuf" "k < length out"
  shows "rle_loop compbuf i k out =
    (if compbuf ! i AND 0x80 \<noteq> 0 then
       (if length compbuf \<le> i + 1 then Inr out
        else let n = unat (compbuf ! i AND 0x7F) + 2 in
          rle_loop compbuf (i + 2) (k + min n (length out - k)) (fill k (replicate n (compbuf ! (i + 1))) out))
     else let n = min (unat (compbuf ! i) + 1) (length compbuf - (i + 1)); m = min n (length out - k) in
       rle_loop compbuf (i + 1 + m) (k + m) (fill k (take n (drop (i + 1) compbuf)) out))"
proof -
  have rep: "store_bytes out (int k) (replicate (min n (length out - k)) v) = Inr (fill k (replicate n v) out)" for n v
    using store_fill [of k out "replicate n v"] assms(2) by (simp add: min.commute)
  have lit: "memcpy out (int k) compbuf (int (i + 1)) (min n (length out - k)) =
      Inr (fill k (take n (drop (i + 1) compbuf)) out)" if "n \<le> length compbuf - (i + 1)" for n
  proof -
    have "load_bytes compbuf (int (i + 1)) (min n (length out - k)) =
        Inr (take (length out - k) (take n (drop (i + 1) compbuf)))"
      using that assms(1) unfolding load_bytes_def nat_int by (simp add: min.commute)
    then show ?thesis using assms(2) unfolding memcpy_def by (simp only: bindE.simps store_fill less_imp_le)
  qed
  have c: "(i < length compbuf \<and> k < length out) = True" using assms by simp
  note pass = rle_loop.simps [of compbuf i k out, unfolded Let_def c load_at [OF assms(1)] if_True bindE.simps nth_Cons_0]
  show ?thesis
  proof (cases "compbuf ! i AND 0x80 \<noteq> 0 \<and> i + 1 < length compbuf")
    case True
    then have "\<not> length compbuf \<le> i + 1" "(compbuf ! i AND 0x80 \<noteq> 0) = True" by simp_all
    then show ?thesis using True
      by (simp only: pass if_True if_False load_at bindE.simps nth_Cons_0 rep Let_def add.assoc one_add_one)
  next
    case False
    then show ?thesis unfolding pass lit [OF min.cobounded2] bindE.simps Let_def by auto
  qed
qed

lemma rle_loop_run:
  assumes "run_ok r" "k < length out"
  shows "rle_loop (pre @ render_run r @ rest) (length pre) k out =
    rle_loop (pre @ render_run r @ rest)
      (length pre + (case r of Repeat _ _ \<Rightarrow> 2 | Literal b \<Rightarrow> 1 + min (length b) (length out - k)))
      (k + min (length (expand_run r)) (length out - k)) (fill k (expand_run r) out)"
proof (cases r)
  case (Repeat n v)
  then obtain m where m: "r = Repeat (m + 2) v" "m \<le> 127"
    using assms(1) le_add_diff_inverse2 [of 2 n] diff_le_mono [of n 129 2] that [of "n - 2"]
    by (simp del: add_2_eq_Suc')
  then show ?thesis using assms(2) control_bytes(3) [of "word_of_nat m"] control_bytes(4) [of m]
    by (subst rle_loop_step) (simp_all add: Let_def nth_append)
next
  case (Literal b)
  then obtain a q where b: "r = Literal (a # q)" "b = a # q" "length q \<le> 127" using assms(1) by (cases b) auto
  then show ?thesis using assms(2) control_bytes(1,2) [of "length q"]
    by (subst rle_loop_step) (simp_all add: Let_def nth_append)
qed

lemma rle_loop_runs_at:
  assumes "list_all run_ok rs" "k \<le> length out"
  shows "rle_loop (pre @ render_runs rs) (length pre) k out = Inr (fill k (expand_runs rs) out)"
  using assms
proof (induction rs arbitrary: pre k out)
  case Nil
  then show ?case by (simp add: rle_loop_stop)
next
  case (Cons r rs)
  show ?case
  proof (cases "k + length (expand_run r) \<le> length out")
    case fits: True
    show ?thesis
    proof (cases "k = length out")
      case False
      then have k: "k < length out" using Cons.prems(2) by simp
      have n: "length pre + (case r of Repeat _ _ \<Rightarrow> 2 | Literal b \<Rightarrow> 1 + min (length b) (length out - k)) =
          length (pre @ render_run r)"
        using fits by (auto split: rle_run.split)
      have "k + min (length (expand_run r)) (length out - k) = k + length (expand_run r)" using fits by simp
      then show ?thesis
        using rle_loop_run [of r k out pre "render_runs rs"] Cons.prems k
          Cons.IH [of "k + length (expand_run r)" "fill k (expand_run r) out" "pre @ render_run r"] fits
        unfolding n by (simp add: fill_append)
    qed (simp add: rle_loop_stop)
  next
    case over: False
    show ?thesis
    proof (cases "k < length out")
      case True
      then show ?thesis
        using rle_loop_run [of r k out pre "render_runs rs"] Cons.prems over
        by (simp add: rle_loop_stop fill_full)
    qed (simp add: rle_loop_stop)
  qed
qed

text \<open>
  The meaning of the loop: the picture the runs describe, cut to the buffer; a short stream leaves
  the rest of the buffer as it was allocated.
\<close>

lemma rle_loop_runs:
  "list_all run_ok rs \<Longrightarrow> rle_loop (render_runs rs) 0 0 out =
     Inr (take (length out) (expand_runs rs) @ drop (length (expand_runs rs)) out)"
  using rle_loop_runs_at [of rs 0 out "[]"] by (simp add: fill_def)

text \<open>Every stream is decoded: the loop ends and stays inside both buffers.\<close>

lemma rle_loop_total: "\<exists>out'. rle_loop compbuf i k out = Inr out' \<and> length out' = length out"
proof (induction "length compbuf - i" arbitrary: i k out rule: less_induct)
  case less
  show ?case
  proof (cases "i < length compbuf \<and> k < length out")
    case True
    then have l: "length (fill k p out) = length out" for p by simp
    have ih: "\<exists>out'. rle_loop compbuf j k' (fill k p out) = Inr out' \<and> length out' = length out" if "i < j" for j k' p
      using less [of j k' "fill k p out"] that True l diff_less_mono2 [of i j "length compbuf"] by simp
    show ?thesis using True ih by (auto simp: rle_loop_step Let_def)
  qed (auto simp: rle_loop_stop)
qed

section \<open>The picture\<close>

definition mono_row :: "nat \<Rightarrow> bytes \<Rightarrow> nat \<Rightarrow> nat \<Rightarrow> nat \<Rightarrow> bytes" where
  "mono_row bpp packed row_bytes w row =
     concat (map (\<lambda>col. mono_px bpp (bit (packed ! (row * row_bytes + col div 8)) (7 - col mod 8))) [0..<w])"

lemma length_mono_px [simp]: "length (mono_px bpp on) = bpp"
  by (simp add: mono_px_def Let_def)

lemma mono_bit_ok:
  "row * row_bytes + col div 8 < length packed \<Longrightarrow>
     mono_bit packed row_bytes row col = Inr (bit (packed ! (row * row_bytes + col div 8)) (7 - col mod 8))"
  by (simp only: mono_bit_def load_at bindE.simps nth_Cons_0)
    (simp add: bit_iff_odd_drop_bit and_one_eq odd_iff_mod_2_eq_one)

lemma expand_row_ok:
  assumes "length row_expanded = w * bpp" "length packed = row_bytes * h" "row < h" "row_bytes = (w + 7) div 8"
  shows "expand_row bpp packed row_bytes w row row_expanded = Inr (mono_row bpp packed row_bytes w row)"
proof -
  let ?P = "\<lambda>n d. d = mono_row bpp packed row_bytes n row @ drop (n * bpp) row_expanded"
  have l: "length (mono_row bpp packed row_bytes n row) = n * bpp" for n
    by (induction n) (simp_all add: mono_row_def)
  have "\<exists>d. expand_row bpp packed row_bytes w row row_expanded = Inr d \<and> ?P w d"
    unfolding expand_row_def
  proof (rule for_upto_invariant)
    show "?P 0 row_expanded" by (simp add: mono_row_def)
  next
    fix n d
    assume n: "n < w" and d: "?P n d"
    have "n div 8 < row_bytes" using n assms(4) by simp
    then have "row * row_bytes + n div 8 < (row + 1) * row_bytes" by simp
    also have "\<dots> \<le> length packed" unfolding assms(2) using assms(3) mult_le_mono1 [of "row + 1" h row_bytes]
    by (simp add: mult.commute)
    finally have b: "mono_bit packed row_bytes row n =
        Inr (bit (packed ! (row * row_bytes + n div 8)) (7 - n mod 8))" by (rule mono_bit_ok)
    have "(n + 1) * bpp \<le> w * bpp" using n by (intro mult_right_mono) simp_all
    then have len: "n * bpp + bpp \<le> length row_expanded" using assms(1) by simp
    let ?p = "mono_px bpp (bit (packed ! (row * row_bytes + n div 8)) (7 - n mod 8))"
    have ld: "length d = length row_expanded" using len l [of n] d by simp
    have c: "(0 \<le> int (n * bpp) \<and> int (n * bpp) + int bpp \<le> int (length d)) = True"
      unfolding ld using len by (simp only: of_nat_add [symmetric] of_nat_le_iff) simp
    have "store_bytes d (int (n * bpp)) ?p = Inr (take (n * bpp) d @ ?p @ drop (n * bpp + bpp) d)"
      unfolding store_bytes_def nat_int length_mono_px c if_True by (rule refl)
    moreover have "?P (Suc n) (take (n * bpp) d @ ?p @ drop (n * bpp + bpp) d)"
      using d l [of n] by (simp add: mono_row_def add.commute)
    ultimately show "\<exists>d'. bindE (mono_bit packed row_bytes row n)
        (\<lambda>on. store_bytes d (int (n * bpp)) (mono_px bpp on)) = Inr d' \<and> ?P (Suc n) d'"
      unfolding b by simp
  qed
  then show ?thesis using assms(1) by auto
qed

definition mono_calls :: "nat \<Rightarrow> mono_rect \<Rightarrow> bytes \<Rightarrow> rfb_call list" where
  "mono_calls bpp r packed =
     (let x = unat (mr_x r); y = unat (mr_y r); w = unat (mr_w r); h = unat (mr_h r) in
      map (\<lambda>row. GotBitmap (mono_row bpp packed ((w + 7) div 8) w row) x (y + row) w 1) [0..<h] @
      [SoftCursorUnlockScreen, GotFrameBufferUpdate x y w h])"

definition alloc_ok :: "allocator \<Rightarrow> bool" where
  "alloc_ok alloc \<longleftrightarrow> (\<forall>i n b. alloc i n = Some b \<longrightarrow> length b = n)"

lemma bitmap_rows_ok:
  assumes "length row_expanded = unat (mr_w r) * bpp" "length packed = row_bytes * unat (mr_h r)"
    and "row_bytes = (unat (mr_w r) + 7) div 8"
  shows "\<exists>buf. bitmap_rows bpp r row_bytes packed row_expanded = Inr (buf,
    map (\<lambda>row. GotBitmap (mono_row bpp packed row_bytes (unat (mr_w r)) row)
      (unat (mr_x r)) (unat (mr_y r) + row) (unat (mr_w r)) 1) [0..<unat (mr_h r)])"
proof -
  let ?w = "unat (mr_w r)"
  let ?P = "\<lambda>n (s :: bytes \<times> rfb_call list). length (fst s) = ?w * bpp \<and>
    snd s = map (\<lambda>row. GotBitmap (mono_row bpp packed row_bytes ?w row) (unat (mr_x r)) (unat (mr_y r) + row) ?w 1) [0..<n]"
  have l: "length (mono_row bpp packed row_bytes n row) = n * bpp" for n row
    by (induction n) (simp_all add: mono_row_def)
  have "\<exists>s. bitmap_rows bpp r row_bytes packed row_expanded = Inr s \<and> ?P (unat (mr_h r)) s"
    unfolding bitmap_rows_def
  proof (rule for_upto_invariant)
    show "?P 0 (row_expanded, [])" using assms(1) by simp
  next
    fix n s
    assume "n < unat (mr_h r)" "?P n s"
    then show "\<exists>s'. (case s of (buf, calls) \<Rightarrow> bindE (expand_row bpp packed row_bytes ?w n buf)
        (\<lambda>buf'. Inr (buf', calls @ [GotBitmap buf' (unat (mr_x r)) (unat (mr_y r) + n) ?w 1]))) = Inr s' \<and> ?P (Suc n) s'"
      using expand_row_ok [OF _ assms(2) _ assms(3)] l by (cases s) simp
  qed
  then show ?thesis by auto
qed

text \<open>
  Whatever the server sends and whatever the allocations hold, the handler stays inside its
  buffers; when it does not give the connection up it has reported a whole picture.
\<close>

lemma read_packed_ok:
  assumes "alloc_ok alloc" "alloc 0 n = Some p"
  shows "\<exists>res. read_packed alloc enc p rx = Inr res \<and>
    (case res of None \<Rightarrow> True | Some (packed, rest) \<Rightarrow> length packed = n \<and> (\<exists>used. rx = used @ rest))"
proof -
  have p: "length p = n" using assms by (simp add: alloc_ok_def)
  have split: "ReadFromRFBServer m b = Some (a, c) \<Longrightarrow> b = a @ c \<and> length a = m" for m a b c
    by (auto simp: ReadFromRFBServer_def split: if_splits)
  show ?thesis
  proof (cases enc)
    case Mono1
    then show ?thesis using p split [of n rx] by (auto simp: read_packed_def split: option.splits)
  next
    case Mono1z
    show ?thesis
    proof (cases "ReadFromRFBServer 4 rx")
      case (Some l)
      obtain lenbuf rx1 where l: "l = (lenbuf, rx1)" by (cases l)
      let ?n = "unat (be32 lenbuf)"
      show ?thesis
      proof (cases "alloc 2 ?n = None \<or> ReadFromRFBServer ?n rx1 = None")
        case False
        then obtain a c rx2 where r: "alloc 2 ?n = Some a" "ReadFromRFBServer ?n rx1 = Some (c, rx2)" by auto
        obtain out where "rle_loop c 0 0 p = Inr out" "length out = length p" using rle_loop_total by blast
        then show ?thesis using Mono1z Some l r p split [OF Some [unfolded l]] split [OF r(2)]
          by (auto simp: read_packed_def)
      qed (use Mono1z Some l in \<open>auto simp: read_packed_def Let_def split: option.splits\<close>)
    qed (use Mono1z in \<open>simp add: read_packed_def\<close>)
  qed
qed

lemma handle_mono_total:
  assumes "alloc_ok alloc"
  shows "\<exists>res. handle_mono alloc bits enc r rx = Inr res \<and>
    (case res of None \<Rightarrow> True
     | Some (rest, calls) \<Rightarrow> (\<exists>used. rx = used @ rest) \<and>
         (\<exists>packed. length packed = (unat (mr_w r) + 7) div 8 * unat (mr_h r) \<and>
            calls = mono_calls (bits div 8) r packed))"
proof (cases "ReadFromRFBServer 1 rx = None \<or> alloc 0 ((unat (mr_w r) + 7) div 8 * unat (mr_h r)) = None \<or>
    alloc 1 (unat (mr_w r) * (bits div 8)) = None")
  case True
  then show ?thesis by (auto simp: handle_mono_def Let_def split: option.splits)
next
  case False
  let ?n = "(unat (mr_w r) + 7) div 8 * unat (mr_h r)"
  from False obtain t rx1 p e where r: "ReadFromRFBServer 1 rx = Some (t, rx1)" "alloc 0 ?n = Some p"
    "alloc 1 (unat (mr_w r) * (bits div 8)) = Some e" by auto
  have rx: "rx = t @ rx1" using r(1) by (auto simp: ReadFromRFBServer_def split: if_splits)
  have e: "length e = unat (mr_w r) * (bits div 8)" using assms r(3) by (simp add: alloc_ok_def)
  from read_packed_ok [OF assms r(2), of enc rx1] obtain res where res: "read_packed alloc enc p rx1 = Inr res"
    "case res of None \<Rightarrow> True | Some (packed, rest) \<Rightarrow> length packed = ?n \<and> (\<exists>used. rx1 = used @ rest)" by blast
  show ?thesis
  proof (cases res)
    case None
    then show ?thesis using r res by (simp add: handle_mono_def Let_def)
  next
    case (Some x)
    obtain packed rest where x: "x = (packed, rest)" by (cases x)
    then obtain used where u: "length packed = ?n" "rx1 = used @ rest" using res(2) Some by auto
    from bitmap_rows_ok [OF e u(1) refl] obtain buf where
      "bitmap_rows (bits div 8) r ((unat (mr_w r) + 7) div 8) packed e = Inr (buf,
         map (\<lambda>row. GotBitmap (mono_row (bits div 8) packed ((unat (mr_w r) + 7) div 8) (unat (mr_w r)) row)
           (unat (mr_x r)) (unat (mr_y r) + row) (unat (mr_w r)) 1) [0..<unat (mr_h r)])" by blast
    then have "handle_mono alloc bits enc r rx = Inr (Some (rest, mono_calls (bits div 8) r packed))"
      using r res(1) Some x by (simp add: handle_mono_def mono_calls_def Let_def)
    then show ?thesis using u rx by auto
  qed
qed

text \<open>What a server sends for a picture, raw or as runs.\<close>

definition be32_bytes :: "u32 \<Rightarrow> bytes" where
  "be32_bytes w = rev (le32 w)"

lemma be32_bytes [simp]: "length (be32_bytes w) = 4" "be32 (be32_bytes w) = w"
proof -
  show "length (be32_bytes w) = 4" by (simp add: be32_bytes_def le32_def)
  have "be32 (be32_bytes w) = unle32 (ucast w) (ucast (drop_bit 8 w)) (ucast (drop_bit 16 w)) (ucast (drop_bit 24 w))"
    by (simp add: be32_def be32_bytes_def le32_def unle32_def ac_simps)
  then show "be32 (be32_bytes w) = w" by (simp add: unle32_le32)
qed

lemma ReadFromRFBServer_app [simp]: "n = length a \<Longrightarrow> ReadFromRFBServer n (a @ b) = Some (a, b)"
  by (simp add: ReadFromRFBServer_def)

definition mono_payload :: "rle_run list \<Rightarrow> bytes" where
  "mono_payload rs = be32_bytes (word_of_nat (length (render_runs rs))) @ render_runs rs"

definition supplied :: "allocator \<Rightarrow> nat \<Rightarrow> mono_encoding \<Rightarrow> mono_rect \<Rightarrow> nat \<Rightarrow> bool" where
  "supplied alloc bits enc r comp_len \<longleftrightarrow>
     alloc 0 ((unat (mr_w r) + 7) div 8 * unat (mr_h r)) \<noteq> None \<and> alloc 1 (unat (mr_w r) * (bits div 8)) \<noteq> None \<and>
     (enc = Mono1z \<longrightarrow> alloc 2 comp_len \<noteq> None)"

lemma handle_mono_packed:
  assumes "alloc_ok alloc" "alloc 0 ((unat (mr_w r) + 7) div 8 * unat (mr_h r)) = Some p"
    and "alloc 1 (unat (mr_w r) * (bits div 8)) \<noteq> None"
    and "read_packed alloc enc p rx = Inr (Some (packed, rest))"
  shows "handle_mono alloc bits enc r (t # rx) = Inr (Some (rest, mono_calls (bits div 8) r packed))"
proof -
  from assms(3) obtain e where e: "alloc 1 (unat (mr_w r) * (bits div 8)) = Some e" by auto
  then have le: "length e = unat (mr_w r) * (bits div 8)" using assms(1) by (simp add: alloc_ok_def)
  have lp: "length packed = (unat (mr_w r) + 7) div 8 * unat (mr_h r)"
    using read_packed_ok [OF assms(1,2), of enc rx] assms(4) by auto
  from bitmap_rows_ok [OF le lp refl] obtain buf where
    "bitmap_rows (bits div 8) r ((unat (mr_w r) + 7) div 8) packed e = Inr (buf,
       map (\<lambda>row. GotBitmap (mono_row (bits div 8) packed ((unat (mr_w r) + 7) div 8) (unat (mr_w r)) row)
         (unat (mr_x r)) (unat (mr_y r) + row) (unat (mr_w r)) 1) [0..<unat (mr_h r)])" by blast
  moreover have "ReadFromRFBServer 1 (t # rx) = Some ([t], rx)" by (simp add: ReadFromRFBServer_def)
  ultimately show ?thesis using assms e by (simp add: handle_mono_def mono_calls_def Let_def)
qed

lemma handle_mono_raw:
  assumes "alloc_ok alloc" "supplied alloc bits Mono1 r 0"
    and "length packed = (unat (mr_w r) + 7) div 8 * unat (mr_h r)"
  shows "handle_mono alloc bits Mono1 r (t # packed @ rest) = Inr (Some (rest, mono_calls (bits div 8) r packed))"
proof -
  from assms(2) obtain p where p: "alloc 0 ((unat (mr_w r) + 7) div 8 * unat (mr_h r)) = Some p"
    by (auto simp: supplied_def)
  then have "length p = length packed" using assms(1,3) by (simp add: alloc_ok_def)
  then show ?thesis using assms(2)
    by (intro handle_mono_packed [OF assms(1) p]) (simp_all add: supplied_def read_packed_def)
qed

text \<open>The runs show the picture they describe; what they leave out shows what the block held before.\<close>

lemma handle_mono_runs:
  assumes "alloc_ok alloc" "supplied alloc bits Mono1z r (length (render_runs rs))"
    and "list_all run_ok rs" "length (render_runs rs) < 2 ^ 32"
    and "alloc 0 ((unat (mr_w r) + 7) div 8 * unat (mr_h r)) = Some p"
  shows "handle_mono alloc bits Mono1z r (t # mono_payload rs @ rest) =
    Inr (Some (rest, mono_calls (bits div 8) r (take (length p) (expand_runs rs) @ drop (length (expand_runs rs)) p)))"
proof -
  have n: "unat (word_of_nat (length (render_runs rs)) :: u32) = length (render_runs rs)"
    using assms(4) by (simp add: unsigned_of_nat take_bit_nat_eq_self)
  obtain c where c: "alloc 2 (length (render_runs rs)) = Some c" using assms(2) by (auto simp: supplied_def)
  have "read_packed alloc Mono1z p (mono_payload rs @ rest) =
      Inr (Some (take (length p) (expand_runs rs) @ drop (length (expand_runs rs)) p, rest))"
    using rle_loop_runs [OF assms(3), of p] n c by (simp add: read_packed_def mono_payload_def Let_def)
  then show ?thesis using assms(2) by (intro handle_mono_packed [OF assms(1,5)]) (simp_all add: supplied_def)
qed

lemma handle_mono_same:
  assumes "alloc_ok alloc" "supplied alloc bits Mono1z r (length (render_runs rs))"
    and "list_all run_ok rs" "length (render_runs rs) < 2 ^ 32"
    and "length (expand_runs rs) = (unat (mr_w r) + 7) div 8 * unat (mr_h r)"
  shows "handle_mono alloc bits Mono1z r (t # mono_payload rs @ rest) =
    handle_mono alloc bits Mono1 r (t # expand_runs rs @ rest)"
proof -
  from assms(2) obtain p where p: "alloc 0 ((unat (mr_w r) + 7) div 8 * unat (mr_h r)) = Some p"
    by (auto simp: supplied_def)
  then have "length p = length (expand_runs rs)" using assms(1,5) by (simp add: alloc_ok_def)
  moreover have "supplied alloc bits Mono1 r 0" using assms(2) by (simp add: supplied_def)
  ultimately show ?thesis
    by (simp add: handle_mono_runs [OF assms(1-4) p] handle_mono_raw [OF assms(1) _ assms(5)])
qed

text \<open>Every picture can be sent as runs.\<close>

fun literals :: "bytes \<Rightarrow> rle_run list" where
  "literals [] = []"
| "literals (b # bs) = Literal (take 128 (b # bs)) # literals (drop 127 bs)"

lemma literals_ok: "list_all run_ok (literals b) \<and> expand_runs (literals b) = b"
  by (induction b rule: literals.induct) auto

end
