(* ===== verification/Spec2Isabelle.thy ===== *)
theory Spec2Isabelle
  imports GlassSession Detect FbListener TouchPath AppPath ScreenThreads Logging QmlProps MonoDecoder
begin

text \<open>
  A model of vnsee, a VNC client for reMarkable tablets (\<open>src/src/\<close>), and of the part of the
  tablet's user interface that launches it and shows its frames (\<open>src/middleware/extension/src/\<close>).

  How the program works. libvncclient paints the remote desktop into a buffer of 16-bit pixels and
  reports each painted rectangle. The screen component (\<open>app/screen.cpp\<close>) merges the rectangles,
  and when a repaint is due copies them, rotated, into the panel's buffer and hands them to a
  backend (\<open>rmioc/screen.cpp\<close>): either the AppLoad client library or a connection to the
  middleware (\<open>rmioc/vncast_client.cpp\<close>), which converts the pixels into a shared memory and sends
  a frame message over a local socket. There the server (\<open>qtfb/server.cpp\<close>) caps the frame rate and
  signals the item (\<open>qtfb/frame_view.cpp\<close>) that draws the shared memory, scaled and turned. The
  launcher (\<open>launcher.cpp\<close>) owns the server, starts vnsee with arguments and an environment made from
  the preferences (\<open>settings.cpp\<close>), and controls a hook on the panel driver (\<open>epdc_hook.cpp\<close>). A
  second, older path (\<open>qtfb/fbmanagement.cpp\<close>, \<open>qtfb/FBController.cpp\<close>) serves AppLoad clients with
  one thread per connection. Touch, buttons and keyboard travel the other way.

  The theories.
    Prelude, CText, Buffers: the result monad (a C++ exception, undefined behaviour and a call that
      never returns are its errors), C integers, \<open>atoi\<close> and \<open>stoi\<close>, bounds-checked buffers, and the
      interfaces \<open>transition_system\<close>, \<open>fallible_system\<close> (steps that can fail) and \<open>raster\<close>.
    Orientation: \<open>orientation.hpp\<close>, \<open>orientation_sensor.cpp\<close>. Detect: \<open>detect.cpp\<close>.
    Wire: the messages of \<open>qtfb/protocol.h\<close> and of \<open>rmioc/vncast_client.hpp\<close>, with the interface
      \<open>message_codec\<close> and its six interpretations.
    Pixels, VncastClient: \<open>rmioc/vncast_client.cpp\<close>. RmiocScreen: \<open>rmioc/screen.cpp\<close>, with the
      interface \<open>panel\<close>, what the screen needs of a backend.
    AppScreen: \<open>app/screen.cpp\<close>. ScreenThreads: the same functions cut where the three threads that call
      them can interrupt each other. AppInput: \<open>app/client.cpp\<close> and the input handlers. Logging:
      \<open>log.tpp\<close> and what is written to it.
    QtfbServer: \<open>qtfb/server.cpp\<close>. Session: a client and a server together.
    QtfbCommon, FbController, FbManagement, FbSafety, FbListener: \<open>qtfb/common.h\<close>, \<open>FBController.cpp\<close>,
      \<open>fbmanagement.cpp\<close>, the safety of the framebuffer manager, and its listening thread. TouchPath:
      item, manager and vnsee's input thread one after another. AppPath: a repaint the other way.
    Options, MainProg: \<open>options.hpp\<close>, \<open>main.cpp\<close>, \<open>rmioc/device.cpp\<close>.
    EpdcHook: \<open>epdc_hook.cpp\<close>. FrameView: \<open>qtfb/frame_view.cpp\<close>. Settings: \<open>settings.cpp\<close>.
    Launcher: \<open>launcher.cpp\<close>. Cast: launcher, server objects and item as one machine. QmlProps: the
      properties of server, launcher and preferences that QML binds to, with the interface \<open>notifying\<close>.
    Delivery, Glass, GlassSession: both processes with the socket, the shared memory and the surface
      of the item between them, as one machine; how a session gets into it, and what the cap loses.
    MonoDecoder: the patch to libvncclient under \<open>patches/\<close>, two encodings of one bit a pixel.
    This theory holds the properties C1 to C40, most of which span several of these.

  What the lemmas show. Each stateful component has an invariant that every operation keeps
  (\<open>vconn_ok\<close>, \<open>screen_ok\<close>, \<open>threads_ok\<close>, \<open>server_inv\<close>, \<open>fb_inv\<close>, \<open>view_ok\<close>, \<open>cast_inv\<close>, \<open>glass_inv\<close>) and a
  statement that no legal event reaches undefined behaviour, with the exceptions named (C3, C4, C5, C8,
  C20, C21). The whole way of a pixel, from the desktop through both processes to the surface of the
  item, and the one place where it ends (C1, C6, C12), the way of a repaint on the older path (C14), and
  the whole way of a touch back (C13). Drawing is exact: which pixel of the panel, of the shared memory
  and of the item shows which pixel of the desktop (C2, C16, C17, C25), and no update is lost on the way
  into the shared memory but by one branch (C7, C15, C33), as long as the threads of vnsee do not
  interrupt each other; then the machine of whole events is what they do (C9), and the two places where
  an interruption loses an update are C10 and C11. The protocol: encodings, whole messages, independence
  of how the socket cuts the stream, a whole session, the cap (C18, C19, C22, C34, C35, C37). The
  framebuffer manager's invariant, the conditions it needs, its threads and a deadlock (C4, C28, C29,
  C30). The launcher's objects and what QML sees of them (C5, C23, C24), the hook (C26), what reaches
  vnsee of its preferences and arguments (C31, C36, C38), what the process leaves behind when it ends
  (C32), devices (C39), the decoder of the monochrome encodings (C27) and the log (C40).

  Conventions. An \<open>int\<close> of the source is a HOL integer; an operation whose result can leave the
  range is \<open>ckint\<close>, which fails with \<open>Signed_overflow\<close>. Unsigned integers are words. An access
  outside a buffer fails with \<open>Out_of_bounds\<close>. Desktops and panels are at most 4096 pixels wide and
  high in the statements about the screen, and coordinates that arrive from outside are below 2 ^ 30 in
  size, which keeps the sums the code forms inside \<open>int\<close>; sizes of the protocol are bounded by what
  the server announces. System calls are scripts of results: a socket's \<open>send\<close> and
  \<open>recv\<close> consume a list, and a loop that waits for more than the list holds is \<open>Blocked\<close>. Loops
  that the scripts do not bound are structural or carry their measure; there is no fuel. Files
  (\<open>sysfs\<close>, the preferences) are a partial map with a predicate of writable paths. Coordinates
  that are floating point numbers in Qt are exact rationals. A handler of the Qt event loop, a
  message of a client thread under its mutex, and a callback are atomic steps; where a thread
  waits in the middle (the closing of a client) the handler is split at the wait. The functions of
  vnsee's screen that several of its threads call without a lock are atomic in \<open>AppScreen\<close> and come in
  pieces in \<open>ScreenThreads\<close>: what one piece reads and writes is still atomic there, so torn fields and
  the copy of a buffer that is being reallocated are out of its reach. A signal
  interrupts the main program between its operations. In the machine of \<open>Glass\<close> the bytes that vnsee
  has sent arrive in any pieces at any later time, the item paints when Qt decides to, and a paint
  redraws at least the pixels asked for since the last one, and all of them after a change of size.

  Parameters. The AppLoad client library, libvncclient and Qt are not under \<open>src/\<close>. The AppLoad
  library appears as the list of the calls it is given (in \<open>AppPath\<close> as the function \<open>msg\<close> that
  writes them as messages, under \<open>speaks_qtfb\<close>), libvncclient as the source of events and as the
  record of its settings, Qt's sockets as byte buffers whose disconnection is signalled at once or
  later (\<open>dsync\<close>), its JSON text as a pair of functions with a round-trip law (\<open>json_text\<close>), the answers of
  \<open>malloc\<close> as an \<open>allocator\<close> that may refuse, the dynamic linker and the memory calls as the answers \<open>hook_os\<close> under \<open>os_sane\<close>.

  Not modelled. What is written to the standard error and to the debug file; the texts of help and
  status; the interleaving of log lines of several threads; the latency times of
  \<open>frame_view.cpp\<close>; the creation of threads; the registration
  of QML types (\<open>middleware/extension/src/main.cpp\<close>); QML, scripts and build files; the submodules
  under \<open>vendor/\<close>, which are empty here.
\<close>

section \<open>Sample inputs\<close>

text \<open>
  A connected vncast client with a two by one panel in the RGBA format, and a screen on it that
  shows a two by one desktop and has the whole of it pending.
\<close>

definition sample_conn :: vconn where
  "sample_conn = (vconn_init [Sent 32, Sent 32, Sent 32] [])
     \<lparr>m_fd_open := True, m_shm := replicate 8 0, m_shm_bytes := 8, m_shadow := replicate 4 0,
      m_shadow_bytes := 4, m_w := 2, m_h := 1, m_stride := 8, m_bpp := 32, m_format := 1\<rparr>"

definition sample_rfb :: rfb_client where
  "sample_rfb =
     \<lparr>rfb_bitsPerPixel = 16, rfb_depth = 16, rfb_redShift = 11, rfb_redMax = 31,
      rfb_greenShift = 5, rfb_greenMax = 63, rfb_blueShift = 0, rfb_blueMax = 31,
      encodingsString = ''raw'', compressLevel = 0, qualityLevel = -1, enableJPEG = False,
      useRemoteCursor = True, rfb_width = 2, rfb_height = 1\<rparr>"

definition sample_screen :: screen where
  "sample_screen = (screen_new (\<lambda>_. None) (Vncast sample_conn) sample_rfb LandscapeCW)
     \<lparr>src_buffer := [0xFF, 0xFF, 0, 0xF8], src_width := 2, src_height := 1,
      update_info := \<lparr>ui_x = 0, ui_y = 0, ui_w = 2, ui_h = 1, has_update = True\<rparr>\<rparr>"

lemma sample_conn_ok: "panel_ok sample_conn"
  by (simp add: panel_ok_def vconn_ok_def byte_wf_def shm_geom_def shadow_geom_def bytes_per_pixel_def
      sample_conn_def vconn_init_def INT_MAX_def)

lemma sample_screen_ok: "screen_ok sample_screen"
  using screen_new_ok [of "Vncast sample_conn" "\<lambda>_. None" sample_rfb LandscapeCW] sample_conn_ok
  by (simp add: screen_ok_def sample_screen_def rect_ok_def)

lemma sample_screen_device: "sc_device sample_screen = Vncast sample_conn"
  by (simp add: sample_screen_def screen_new_def waveform_env_def)

section \<open>Properties of the display path\<close>

text \<open>C2: a repaint on the vncast backend fails only when the kernel refuses the message;
  otherwise every panel cell of the shared memory that shows a pixel of the pending rectangle
  holds that source pixel, rotated and converted to the format of the shared memory, and every
  other cell is unchanged.\<close>

theorem repaint_reaches_shm:
  assumes "screen_ok s" "sc_device s = Vncast c"
  shows "case repaint cm now s of
      Inl e \<Rightarrow> kernel_failure e
    | Inr s' \<Rightarrow> \<exists>c'. sc_device s' = Vncast c' \<and> (\<forall>col row. on_panel s col row \<longrightarrow>
        shm_px c' col row =
          (if in_pending s (shown_at s col row) \<and> in_source s (shown_at s col row)
           then conv_pixel c (src_px s (shown_at s col row)) else shm_px c col row))"
  using repaint_spec [OF assms(1), where cm = cm and now = now] repaint_vncast [OF assms, of cm now]
  by (auto split: sum.splits)

theorem repaint_reaches_shm_witness:
  "case repaint (\<lambda>_. REFRESH_MODE_UI) 5 sample_screen of
      Inl e \<Rightarrow> kernel_failure e
    | Inr s' \<Rightarrow> \<exists>c'. sc_device s' = Vncast c' \<and> (\<forall>col row. on_panel sample_screen col row \<longrightarrow>
        shm_px c' col row =
          (if in_pending sample_screen (shown_at sample_screen col row) \<and>
              in_source sample_screen (shown_at sample_screen col row)
           then conv_pixel sample_conn (src_px sample_screen (shown_at sample_screen col row))
           else shm_px sample_conn col row))"
  by (rule repaint_reaches_shm [OF sample_screen_ok sample_screen_device])

text \<open>C3: from the screen the constructor makes, whatever legal events came before, the next event
  never reaches undefined behaviour (no out-of-bounds access, no signed overflow): it fails only
  when the kernel refuses a message, or when the server announces an empty desktop, and
  otherwise the invariant of the screen holds again.\<close>

theorem screen_never_undefined:
  assumes "device_ok d" "reaches cm event_ok (screen_new env d vnc orient) s" "event_ok s e"
  shows "case screen_step cm e s of
      Inl x \<Rightarrow> kernel_failure x \<or> (\<exists>w h m. e = Ev_framebuffer w h \<and> (w \<le> 0 \<or> h \<le> 0) \<and> x = Runtime_error m)
    | Inr s' \<Rightarrow> screen_ok s'"
  using screen_sys.reach_step_ok [OF assms(2) screen_new_ok [OF assms(1)] _ assms(3) refl]
  unfolding screen_failure_def by simp

theorem screen_never_undefined_witness:
  "case screen_step (\<lambda>_. REFRESH_MODE_UI) (Ev_framebuffer 2 1)
        (screen_new (\<lambda>_. None) (Vncast sample_conn) sample_rfb LandscapeCW) of
      Inl x \<Rightarrow> kernel_failure x \<or>
        (\<exists>w h m. Ev_framebuffer 2 1 = Ev_framebuffer w h \<and> (w \<le> 0 \<or> h \<le> 0) \<and> x = Runtime_error m)
    | Inr s' \<Rightarrow> screen_ok s'"
  by (rule screen_never_undefined [OF _ reach_start]) (simp_all add: sample_conn_ok)

text \<open>C7: as long as dirty rectangles are merged rather than flushed, no update is lost: after any
  such events from a state in which panel and desktop agree outside the pending rectangle, a
  repaint that the kernel does not refuse makes every panel cell show its desktop pixel.\<close>

theorem no_update_lost:
  assumes "screen_ok s0" "synced s0" "reaches cm smooth_event s0 s"
  shows "case repaint cm now s of
      Inl e \<Rightarrow> kernel_failure e
    | Inr s' \<Rightarrow> \<forall>c r. on_panel s c r \<and> in_source s (shown_at s c r) \<longrightarrow>
        panel_px s' c r = src_px s' (shown_at s' c r)"
proof -
  have s: "screen_ok s" "synced s" using smooth_sys.reach_inv [OF assms(3)] assms(1,2) by simp_all
  show ?thesis
    using repaint_spec [OF s(1), where cm = cm and now = now] synced_repaint [OF s, of cm now]
    by (auto split: sum.splits)
qed

lemma sample_screen_synced: "synced sample_screen"
  by (auto simp: synced_def in_pending_def sample_screen_def in_source_def Let_def)

theorem no_update_lost_witness:
  "case repaint (\<lambda>_. REFRESH_MODE_UI) 5 sample_screen of
      Inl e \<Rightarrow> kernel_failure e
    | Inr s' \<Rightarrow> \<forall>c r. on_panel sample_screen c r \<and> in_source sample_screen (shown_at sample_screen c r) \<longrightarrow>
        panel_px s' c r = src_px s' (shown_at s' c r)"
  by (rule no_update_lost [OF sample_screen_ok sample_screen_synced reach_start])


text \<open>C16: blitting any rectangle (negative origins and sizes included, as long as they are below
  \<open>2 ^ 30\<close> in magnitude) into the shared memory of a connected client stays inside both buffers
  and changes exactly the cells of the rectangle, each to its converted shadow pixel.\<close>

theorem blit_rect_exact:
  assumes "vconn_ok c" "small x" "small y" "small w" "small h"
  shows "\<exists>d. blit_rect_to_shm x y w h c = Inr (c\<lparr>m_shm := d\<rparr>) \<and> vconn_ok (c\<lparr>m_shm := d\<rparr>) \<and>
     (\<forall>px py. 0 \<le> px \<and> px < uint (m_w c) \<and> 0 \<le> py \<and> py < uint (m_h c) \<longrightarrow>
        byte_get (shm_geom c) d px py =
          (if x \<le> px \<and> px < x + w \<and> y \<le> py \<and> py < y + h
           then conv_pixel c (byte_get (shadow_geom c) (m_shadow c) px py)
           else byte_get (shm_geom c) (m_shm c) px py))"
proof -
  obtain d where d: "blit_rect_to_shm x y w h c = Inr (c\<lparr>m_shm := d\<rparr>)" "blitted x y w h c d"
    using blit_rect_painted [OF assms] by blast
  have i: "br.inside (shm_geom c) px py \<longleftrightarrow> 0 \<le> px \<and> px < uint (m_w c) \<and> 0 \<le> py \<and> py < uint (m_h c)" for px py
    by (auto simp: br.inside_def shm_geom_def)
  have "byte_wf (shm_geom c) d" using d(2) by (simp add: blitted_def br.painted_def)
  then have "vconn_ok (c\<lparr>m_shm := d\<rparr>)"
    using assms(1) by (simp add: vconn_ok_def shm_geom_def shadow_geom_def)
  with d show ?thesis unfolding blitted_def br.painted_def i by blast
qed

lemma sample_conn_vconn_ok: "vconn_ok sample_conn"
  using sample_conn_ok by (simp add: panel_ok_def)

theorem blit_rect_exact_witness:
  "\<exists>d. blit_rect_to_shm (-1) 0 9 9 sample_conn = Inr (sample_conn\<lparr>m_shm := d\<rparr>) \<and>
     vconn_ok (sample_conn\<lparr>m_shm := d\<rparr>) \<and>
     (\<forall>px py. 0 \<le> px \<and> px < uint (m_w sample_conn) \<and> 0 \<le> py \<and> py < uint (m_h sample_conn) \<longrightarrow>
        byte_get (shm_geom sample_conn) d px py =
          (if -1 \<le> px \<and> px < -1 + 9 \<and> 0 \<le> py \<and> py < 0 + 9
           then conv_pixel sample_conn (byte_get (shadow_geom sample_conn) (m_shadow sample_conn) px py)
           else byte_get (shm_geom sample_conn) (m_shm sample_conn) px py))"
  by (rule blit_rect_exact [OF sample_conn_vconn_ok]) (simp_all add: small_def)

text \<open>C17: the rotated copy of any rectangle on the desktop into the panel's buffer stays inside both
  buffers in each of the four orientations, gives every panel cell the desktop pixel it shows
  if that lies in the rectangle and leaves all others, and the rectangle it returns covers
  exactly the panel cells whose desktop position lies in the part of the rectangle on the
  desktop.\<close>

theorem rotated_copy_exact:
  assumes "screen_ok s" "rect_ok x y w h"
  shows "\<exists>d dx dy dw dh. blit_rotated x y w h s =
       Inr (s\<lparr>sc_device := put_data d (sc_device s)\<rparr>, dx, dy, dw, dh) \<and>
     length d = length (get_data (sc_device s)) \<and>
     (\<forall>c r. on_panel s c r \<longrightarrow>
        byte_get (panel_geom s) d c r =
          (if in_rect x y w h (shown_at s c r) \<and> in_source s (shown_at s c r)
           then src_px s (shown_at s c r) else panel_px s c r) \<and>
        in_rect dx dy dw dh (c, r) =
          in_rect x y (max 0 (min w (src_width s - x))) (max 0 (min h (src_height s - y))) (shown_at s c r))"
proof -
  let ?sw = "max 0 (min w (src_width s - x))" and ?sh = "max 0 (min h (src_height s - y))"
  obtain d R where b: "blit_rotated x y w h s = Inr (s\<lparr>sc_device := put_data d (sc_device s)\<rparr>, R)"
    "length d = length (get_data (sc_device s))"
    "touched (effective s) (src_width s) (src_height s) (get_xres (sc_device s)) (get_yres (sc_device s)) R x y ?sw ?sh"
    "br.painted (panel_geom s) (\<lambda>c r. in_rect x y w h (shown_at s c r) \<and> in_source s (shown_at s c r))
       (\<lambda>c r. src_px s (shown_at s c r)) (get_data (sc_device s)) d"
    using blit_rotated_spec [OF assms] by blast
  obtain dx dy dw dh where R: "R = (dx, dy, dw, dh)" by (cases R) auto
  have i: "on_panel s c r = br.inside (panel_geom s) c r" for c r
    by (simp add: on_panel_def br.inside_def panel_geom_def pix_geom_def conj_ac)
  show ?thesis using b(1,2) unfolding R
  proof (intro exI conjI allI impI)
    fix c r assume p: "on_panel s c r"
    show "byte_get (panel_geom s) d c r =
        (if in_rect x y w h (shown_at s c r) \<and> in_source s (shown_at s c r)
         then src_px s (shown_at s c r) else panel_px s c r)"
      using b(4) p by (simp add: i br.painted_def panel_px_def)
    show "in_rect dx dy dw dh (c, r) =
        in_rect x y (max 0 (min w (src_width s - x))) (max 0 (min h (src_height s - y))) (shown_at s c r)"
      using b(3) p by (simp add: R touched_def on_panel_def shown_at_def)
  qed
qed

theorem rotated_copy_exact_witness:
  "\<exists>d dx dy dw dh. blit_rotated 0 0 2 1 sample_screen =
       Inr (sample_screen\<lparr>sc_device := put_data d (sc_device sample_screen)\<rparr>, dx, dy, dw, dh) \<and>
     length d = length (get_data (sc_device sample_screen)) \<and>
     (\<forall>c r. on_panel sample_screen c r \<longrightarrow>
        byte_get (panel_geom sample_screen) d c r =
          (if in_rect 0 0 2 1 (shown_at sample_screen c r) \<and> in_source sample_screen (shown_at sample_screen c r)
           then src_px sample_screen (shown_at sample_screen c r) else panel_px sample_screen c r) \<and>
        in_rect dx dy dw dh (c, r) =
          in_rect 0 0 (max 0 (min 2 (src_width sample_screen - 0))) (max 0 (min 1 (src_height sample_screen - 0)))
            (shown_at sample_screen c r))"
  by (rule rotated_copy_exact [OF sample_screen_ok]) (simp add: rect_ok_def)

text \<open>a touch is sent to the server at the desktop pixel that the rotated copy shows under the
  finger: rotating the transformed point gives the touched point back.\<close>

theorem touch_hits_shown_pixel:
  assumes "0 < src_width s" "0 < src_height s"
  shows "transform_input s (c, r) = shown_at s c r \<and>
     panel_of (effective s) (src_width s) (src_height s) (transform_input s (c, r)) = (c, r)"
  using transform_input_shown [OF assms, of c r] by (simp add: shown_at_def)

theorem touch_hits_shown_pixel_witness:
  "transform_input sample_screen (0, 1) = shown_at sample_screen 0 1 \<and>
     panel_of (effective sample_screen) (src_width sample_screen) (src_height sample_screen)
       (transform_input sample_screen (0, 1)) = (0, 1)"
  by (rule touch_hits_shown_pixel) (simp_all add: sample_screen_def)

text \<open>an update event the library reports is merged into the pending rectangle without overflow,
  leaves the panel's buffer alone and makes its rectangle pending; what was pending before stays
  pending unless the merge is too wasteful.\<close>

theorem updates_accumulate:
  assumes "screen_ok s" "rect_ok x y w h"
  shows "case commit_updates cm x y w h s of
      Inl e \<Rightarrow> kernel_failure e
    | Inr s' \<Rightarrow> screen_ok s' \<and> same_view s s' \<and> get_data (sc_device s') = get_data (sc_device s) \<and>
        has_update (update_info s') \<and> (\<forall>p. in_rect x y w h p \<longrightarrow> in_pending s' p) \<and>
        (\<not> bad_merge (update_info s) x y w h \<longrightarrow>
           (\<forall>p. has_update (update_info s) \<and> in_pending s p \<longrightarrow> in_pending s' p))"
  by (rule commit_updates_spec [OF assms])

theorem updates_accumulate_witness:
  "case commit_updates (\<lambda>_. REFRESH_MODE_UI) 1 0 1 1 sample_screen of
      Inl e \<Rightarrow> kernel_failure e
    | Inr s' \<Rightarrow> screen_ok s' \<and> same_view sample_screen s' \<and>
        get_data (sc_device s') = get_data (sc_device sample_screen) \<and>
        has_update (update_info s') \<and> (\<forall>p. in_rect 1 0 1 1 p \<longrightarrow> in_pending s' p) \<and>
        (\<not> bad_merge (update_info sample_screen) 1 0 1 1 \<longrightarrow>
           (\<forall>p. has_update (update_info sample_screen) \<and> in_pending sample_screen p \<longrightarrow> in_pending s' p))"
  by (rule updates_accumulate [OF sample_screen_ok]) (simp add: rect_ok_def)

text \<open>C33: the main loop repaints a pending update when less than a millisecond of the mode's delay is
  left, and otherwise asks to sleep for a positive number of milliseconds that neither exceeds
  the delay nor reaches past the due time.\<close>

theorem repaints_on_time:
  assumes "has_update (update_info s)" "last_repaint s \<le> now"
  shows "if due s - now < ns_per_ms
    then event_loop cm now s = bindE (repaint cm now s) (\<lambda>s'. Inr (s', \<lparr>quit = False, timeout = -1\<rparr>))
    else \<exists>t. event_loop cm now s = Inr (s, \<lparr>quit = False, timeout = t\<rparr>) \<and>
      0 < t \<and> t \<le> repaint_delay s \<and> now + ns_per_ms * t \<le> due s"
proof (cases "due s - now < ns_per_ms")
  case True
  then show ?thesis using event_loop_timing [OF assms(1), of cm now] by simp
next
  case False
  let ?t = "(due s - now) div ns_per_ms"
  have "event_loop cm now s = Inr (s, \<lparr>quit = False, timeout = ?t\<rparr>)"
    using event_loop_timing [OF assms(1), of cm now] False by simp
  moreover have "0 \<le> ?t" using False by (simp add: ns_per_ms_def pos_imp_zdiv_nonneg_iff)
  ultimately show ?thesis using event_loop_sleep [of cm now s s "\<lparr>quit = False, timeout = ?t\<rparr>"] assms(2) False
    by auto
qed

theorem repaints_on_time_witness:
  "if due sample_screen - 1000000 < ns_per_ms
    then event_loop (\<lambda>_. REFRESH_MODE_UI) 1000000 sample_screen =
      bindE (repaint (\<lambda>_. REFRESH_MODE_UI) 1000000 sample_screen) (\<lambda>s'. Inr (s', \<lparr>quit = False, timeout = -1\<rparr>))
    else \<exists>t. event_loop (\<lambda>_. REFRESH_MODE_UI) 1000000 sample_screen =
        Inr (sample_screen, \<lparr>quit = False, timeout = t\<rparr>) \<and>
      0 < t \<and> t \<le> repaint_delay sample_screen \<and> 1000000 + ns_per_ms * t \<le> due sample_screen"
  by (rule repaints_on_time) (simp_all add: sample_screen_def screen_new_def waveform_env_def)

section \<open>Properties of the vncast client and server\<close>

text \<open>C21: no sequence of partial updates, complete updates and cursor reports on a connected client
  reaches undefined behaviour: it fails only when the kernel refuses a message, and otherwise
  the client is still well formed.\<close>

theorem client_ops_safe:
  assumes "panel_ok c" "list_all vop_ok ps"
  shows "case vop_run ps c of Inl e \<Rightarrow> kernel_failure e | Inr c' \<Rightarrow> panel_ok c'"
  by (rule vop_run_safe [OF assms])

theorem client_ops_safe_witness:
  "case vop_run [Cursor 1 0 64 64 True, Update (-1) 0 3 1, Complete] sample_conn of
     Inl e \<Rightarrow> kernel_failure e | Inr c' \<Rightarrow> panel_ok c'"
  by (rule client_ops_safe [OF sample_conn_ok]) (simp add: small_def INT_MAX_def)



text \<open>C19: the server handles the messages of a client one by one and in order, however the socket
  cuts their bytes into chunks: only the bytes matter, none is left over and none is handled
  twice.\<close>

theorem server_chunking:
  assumes "unread s @ concat chunks = enc_all ms" "partial_front (unread s) ms"
    and "list_all c2s_wf ms" "list_all keeps_open ms" "m_socket s \<noteq> None"
  shows "foldl (feed dsync clk) s chunks = set_unread [] (foldl (handle_c2s dsync clk) s ms)"
  by (rule feed_messages [OF assms])

text \<open>A running server with a client: the smallest device, shared memory of eight bytes.\<close>

definition sample_device :: device_info where
  "sample_device = \<lparr>m_class = ''rMPP'', di_w = 2, di_h = 1, m_bpl = 8, di_bpp = 32, m_needsQtfb = True\<rparr>"

definition sample_io :: server_io where
  "sample_io = \<lparr>io_shm_open = True, io_ftruncate = True, io_mmap = True, io_listen = True,
     io_shm_name = ''/vncast-1''\<rparr>"

definition sample_server :: server where
  "sample_server = onNewConnection (snd (server_start sample_io sample_device (server_init False)))"

lemmas sample_server_simps = sample_server_def onNewConnection_def server_start_def server_init_def
  server_geometry_def allocShm_def sample_io_def sample_device_def emit_def Let_def

lemma sample_device_geometry: "geometry_ok sample_device"
  by (simp add: geometry_ok_def sample_device_def)

lemma sample_server_run: "sample_server =
    foldl (sv_step True clk) (server_init False) [Ev_start sample_io sample_device, Ev_connect]"
  by (simp add: sample_server_def)

lemma sample_server_fields:
  "m_server sample_server" "m_socket sample_server = Some \<lparr>sk_rx = [], sk_tx = [], sk_closing = False\<rparr>"
  "sv_shmName sample_server = ''/vncast-1''" "sv_shm sample_server = Some (replicate 8 0xFF)"
  "unread sample_server = []"
  by (simp_all add: sample_server_simps unread_def)

lemma sample_server_inv: "server_inv sample_server"
  using server_start_inv [of "server_init False" sample_device sample_io]
  by (simp add: server_inv_def format_fits_def sample_device_geometry sample_server_simps)

text \<open>A hello of fifty frames per second and a frame of nine bytes more than the header, in two chunks.\<close>

theorem server_chunking_witness:
  "foldl (feed True (\<lambda>i. 1 + 20 * int i)) sample_server
     [take 40 (enc_all [C2S_Hello (hello_msg 50), C2S_Frame (frame_msg 1 0 0 2 1 Content)]),
      drop 40 (enc_all [C2S_Hello (hello_msg 50), C2S_Frame (frame_msg 1 0 0 2 1 Content)])] =
   set_unread [] (foldl (handle_c2s True (\<lambda>i. 1 + 20 * int i)) sample_server
     [C2S_Hello (hello_msg 50), C2S_Frame (frame_msg 1 0 0 2 1 Content)])"
proof (rule server_chunking)
  let ?bs = "enc_all [C2S_Hello (hello_msg 50), C2S_Frame (frame_msg 1 0 0 2 1 Content)]"
  show "unread sample_server @ concat [take 40 ?bs, drop 40 ?bs] = ?bs"
    by (simp add: sample_server_fields del: enc_all_simps)
qed (simp_all add: sample_server_fields partial_front_def hello_msg_def frame_msg_def)

text \<open>C20: the server's invariant: while it runs, geometry, format and stride agree, the shared memory
  has exactly stride times height bytes, and there is a client only while it runs. It holds
  after every sequence of starts, connections, data of any content, disconnections and stops.\<close>

theorem server_invariant:
  assumes "allowed_run (sv_allowed dsync) (sv_step dsync clk) (server_init gray) es"
  shows "server_inv (foldl (sv_step dsync clk) (server_init gray) es)"
  by (rule server_sys.run_inv [OF assms])

theorem server_invariant_witness:
  "server_inv (foldl (sv_step False (\<lambda>_. 1)) (server_init False)
     [Ev_start sample_io sample_device, Ev_connect, Ev_data [1, 2, 3], Ev_stop])"
proof (rule server_invariant)
  have "m_server (snd (server_start sample_io sample_device (server_init False)))"
    by (simp add: sample_server_simps)
  then show "allowed_run (sv_allowed False) (sv_step False (\<lambda>_. 1)) (server_init False)
     [Ev_start sample_io sample_device, Ev_connect, Ev_data [1, 2, 3], Ev_stop]"
    using sample_server_fields(2) by (simp add: sample_device_geometry server_stop_null sample_server_def)
qed

text \<open>C34: the frame-rate cap: between a hello and the next, whatever frames and cursor reports arrive,
  the frames that fall under the cap are announced at most once per period, measured on the
  clock readings of the server itself (the first one apart); frames of at most 256 by 256
  pixels are exempt.\<close>

theorem frame_rate_capped:
  assumes "list_all frame_or_cursor ms" "0 < m_fps_cap s" "0 < m_min_period_ms s"
    and "m_last_emit_ms s = 0" "\<And>i. 0 < clk i"
  shows "let s' = foldl (handle_c2s dsync clk) s ms in
    capped_count s' = capped_count s \<or>
    (\<exists>i j. sv_ticks s \<le> i \<and> i \<le> j \<and> j < sv_ticks s' \<and>
       m_min_period_ms s * (int (capped_count s') - int (capped_count s) - 1) \<le> clk j - clk i)"
  using capped_rate [OF assms refl] by (simp add: Let_def)

definition capped_server :: server where
  "capped_server = handleHello True (hello_msg 50) sample_server"

theorem frame_rate_capped_witness:
  "let s' = foldl (handle_c2s True (\<lambda>i. 1 + 7 * int i)) capped_server
       [C2S_Frame (frame_msg 1 0 0 900 900 Content), C2S_Frame (frame_msg 2 0 0 900 900 Content)] in
    capped_count s' = capped_count capped_server \<or>
    (\<exists>i j. sv_ticks capped_server \<le> i \<and> i \<le> j \<and> j < sv_ticks s' \<and>
       m_min_period_ms capped_server * (int (capped_count s') - int (capped_count capped_server) - 1)
         \<le> 1 + 7 * int j - (1 + 7 * int i))"
  by (rule frame_rate_capped) (simp_all add: capped_server_def handleHello_def sample_server_simps
      sock_write_def ack_of_def hello_msg_def)

text \<open>stopping the server with a client connected dereferences a null pointer exactly when the
  disconnection is delivered synchronously: the slot that reacts to it has cleared the member.\<close>

theorem stop_with_client:
  "server_stop dsync s = Inl (Undefined Null_deref) \<longleftrightarrow> dsync \<and> m_socket s \<noteq> None"
  by (rule server_stop_null)

text \<open>C18: a whole session. A client that is given the acknowledgement of a running server, over a
  socket that delivers it in any pieces with any number of interruptions, completes its
  handshake. Whatever it does then is memory safe and fails only when the kernel refuses a
  message; otherwise, however its bytes are cut into chunks, the server handles its hello and
  then the messages of its operations, in order, with the frames numbered consecutively.\<close>

theorem whole_session:
  assumes "server_inv s" "m_server s" "shm_name_ok (sv_shmName s)" "shares_shm os s"
    and "rx_stream (m_rx c) = enc_ack (ack_of s (hello_msg (env_fps env)))"
    and "Received [] \<notin> set (m_rx c)" "\<And>e. Rx_error e \<in> set (m_rx c) \<Longrightarrow> e = EINTR"
    and "24 \<le> progress (m_tx c)" "\<And>e. Tx_error e \<in> set (m_tx c) \<Longrightarrow> e = EINTR" "whole_sends (m_tx c)"
    and "m_out c = []" "list_all vop_ok ps" "m_socket s \<noteq> None" "unread s = []"
  shows "\<exists>c1. handshake os env c = Inr c1 \<and> panel_ok c1 \<and>
     (case vop_run ps c1 of
        Inl e \<Rightarrow> kernel_failure e
      | Inr c2 \<Rightarrow> panel_ok c2 \<and> (\<forall>chunks. concat chunks = m_out c2 \<longrightarrow> (\<exists>ms.
          list_all c2s_wf ms \<and> list_all keeps_open ms \<and>
          map frame_seq (frames_of ms) =
            map (\<lambda>i. m_seq c + word_of_nat (Suc i)) [0..<length (filter is_update ps)] \<and>
          foldl (feed dsync clk) s chunks =
            set_unread [] (foldl (handle_c2s dsync clk) (handleHello dsync (hello_msg (env_fps env)) s) ms))))"
proof -
  have v: "client_version (hello_msg (env_fps env)) = VERSION" by (simp add: hello_msg_def)
  obtain c1 where c1: "handshake os env c = Inr c1"
    using session_handshake_completes [OF assms(1-4) v assms(5-9), of env] by blast
  have p: "panel_ok c1" by (rule session_panel_ok [OF assms(1-5) c1])
  have w: "whole_sends (m_tx c1)" using handshake_tx [OF c1] assms(10) by (auto simp: whole_sends_def)
  show ?thesis
    using c1 p vop_run_safe [OF p assms(12)] session_stream [OF c1 assms(11) _ w assms(12-14)]
    by (cases "vop_run ps c1") auto
qed

definition sample_os :: os where
  "sample_os = \<lparr>os_socket = None, os_connect = (\<lambda>_. None), os_shm = (\<lambda>_. Inr (replicate 8 0xFF)),
     os_mmap = None\<rparr>"

definition sample_socket :: vconn where
  "sample_socket = (vconn_init [Tx_error EINTR, Sent 40, Sent 40]
     [Received (take 30 (enc_ack (ack_of sample_server (hello_msg 0)))), Rx_error EINTR,
      Received (drop 30 (enc_ack (ack_of sample_server (hello_msg 0))))])\<lparr>m_fd_open := True\<rparr>"

lemma sample_server_shares: "shares_shm sample_os sample_server"
  by (simp add: shares_shm_def sample_os_def sample_server_fields)

theorem whole_session_witness:
  "\<exists>c1. handshake sample_os (\<lambda>_. None) sample_socket = Inr c1 \<and> panel_ok c1 \<and>
     (case vop_run [Update 0 0 1 1] c1 of
        Inl e \<Rightarrow> kernel_failure e
      | Inr c2 \<Rightarrow> panel_ok c2 \<and> (\<forall>chunks. concat chunks = m_out c2 \<longrightarrow> (\<exists>ms.
          list_all c2s_wf ms \<and> list_all keeps_open ms \<and>
          map frame_seq (frames_of ms) =
            map (\<lambda>i. m_seq sample_socket + word_of_nat (Suc i)) [0..<length (filter is_update [Update 0 0 1 1])] \<and>
          foldl (feed True (\<lambda>_. 1)) sample_server chunks =
            set_unread [] (foldl (handle_c2s True (\<lambda>_. 1))
              (handleHello True (hello_msg (env_fps (\<lambda>_. None))) sample_server) ms))))"
proof -
  have l: "length (enc_ack (ack_of sample_server (hello_msg 0))) = 100"
    by (rule ack_codec.enc_size [OF ack_of_wf])
  show ?thesis
    by (rule whole_session [OF sample_server_inv sample_server_fields(1) _ sample_server_shares])
      (use l in \<open>auto simp: sample_server_fields shm_name_ok_def sample_socket_def vconn_init_def env_fps_def
        whole_sends_def small_def INT_MAX_def\<close>)
qed



text \<open>\<open>send_all\<close> writes the whole buffer when it returns, and it raises only an error of the socket
  other than an interruption.\<close>

theorem send_all_whole:
  "case send_all tx buf out of
     Inr (tx', out') \<Rightarrow> out' = out @ buf
   | Inl e \<Rightarrow> e = Blocked \<or> (\<exists>n. e = System_error n ''vncast send'' \<and> n \<noteq> EINTR \<and> Tx_error n \<in> set tx)"
  using send_all_out [of tx buf out] send_all_error [of tx buf out] by (auto split: sum.splits)

text \<open>C37: \<open>recv_all\<close> returns when the socket delivers enough bytes, in whatever pieces and with whatever
  interruptions, and then it returns exactly the next bytes and leaves the rest.\<close>

theorem recv_all_exact:
  assumes "n \<le> length (rx_stream rx)" "\<And>e. Rx_error e \<in> set rx \<Longrightarrow> e = EINTR" "Received [] \<notin> set rx"
  shows "\<exists>rx'. recv_all rx n [] = Inr (rx', take n (rx_stream rx)) \<and> rx_stream rx' = drop n (rx_stream rx)"
proof -
  obtain rx' d where r: "recv_all rx n [] = Inr (rx', d)" using recv_all_returns [OF assms] by blast
  with recv_all_stream [OF r] show ?thesis by simp
qed

theorem recv_all_exact_witness:
  "\<exists>rx'. recv_all [Received [1, 2], Rx_error EINTR, Received [3, 4]] 3 [] =
       Inr (rx', take 3 (rx_stream [Received [1, 2], Rx_error EINTR, Received [3, 4]])) \<and>
     rx_stream rx' = drop 3 (rx_stream [Received [1, 2], Rx_error EINTR, Received [3, 4]])"
  by (rule recv_all_exact) auto

text \<open>the mode announced with a frame: less than one percent of the panel is an animation, less
  than forty percent is monochrome, the rest is content; the products cannot overflow.\<close>

theorem frame_mode_thresholds:
  assumes "0 \<le> w" "0 \<le> h" "w * h * 100 \<le> INT_MAX"
    and "uint (m_w c) < 2 ^ 31" "uint (m_h c) < 2 ^ 31" "uint (m_w c) * uint (m_h c) * 40 \<le> INT_MAX"
  shows "classify_frame_mode w h c = Inr
     (let area = w * h; total = uint (m_w c) * uint (m_h c) in
      if total = 0 \<or> area * 100 < total then Animation
      else if area * 100 < total * 40 then Mono else Content)"
  by (rule classify_frame_mode_value [OF assms])

theorem frame_mode_thresholds_witness:
  "classify_frame_mode 1 1 sample_conn = Inr
     (let area = 1 * 1; total = uint (m_w sample_conn) * uint (m_h sample_conn) in
      if total = 0 \<or> area * 100 < total then Animation
      else if area * 100 < total * 40 then Mono else Content)"
  by (rule frame_mode_thresholds) (simp_all add: sample_conn_def vconn_init_def INT_MAX_def)

text \<open>the three pixel formats of the shared memory agree: a grey pixel of sixteen bits repeats the
  grey pixel of eight bits, which is the luma of the red, green and blue bytes of the colour
  pixel, their weighted mean rounded down; the top bits of those bytes are the components of
  the source pixel.\<close>

theorem pixel_formats_agree:
  "conv_gray16 lo hi = [hd (conv_gray8 lo hi), hd (conv_gray8 lo hi)] \<and>
   (let px = rgb565 lo hi; r = expand5 (red5 px); g = expand6 (green6 px); b = expand5 (blue5 px) in
      conv_rgba8888 False lo hi = [r, g, b, 0xFF] \<and>
      conv_rgba8888 True lo hi = [luma r g b, luma r g b, luma r g b, 0xFF] \<and>
      conv_gray8 lo hi = [luma r g b] \<and>
      uint (luma r g b) = (uint r * 30 + uint g * 59 + uint b * 11) div 100 \<and>
      drop_bit 3 r = red5 px \<and> drop_bit 2 g = green6 px \<and> drop_bit 3 b = blue5 px)"
  using component_bounds [of "rgb565 lo hi"] conv_gray16_eq [of lo hi]
  by (simp add: Let_def conv_gray8_def conv_rgba8888_def expand5_inverse expand6_inverse uint_luma)

section \<open>Properties of devices, orientation and input\<close>

text \<open>the orientation thread tells its callback each orientation it decides on that differs from
  the one before, in order and nothing else, and afterwards \<open>last\<close> is the last decision.\<close>

theorem sensor_notifications:
  "notified (sensor_run (sensor_init True) samples) = remdups_adj (decided samples) \<and>
   last (sensor_run (sensor_init True) samples) =
     (if decided samples = [] then Unknown else List.last (decided samples))"
  using sensor_run_notified [of samples] by simp

text \<open>an orientation is decided only when the larger of the two axes in the plane of the panel
  reaches the threshold and the third does not exceed it, and turning the device around turns
  the decision around.\<close>

theorem classification:
  assumes "classify x y z \<noteq> Unknown"
  shows "kDominanceThreshold \<le> max \<bar>x\<bar> \<bar>y\<bar> \<and> \<bar>z\<bar> \<le> max \<bar>x\<bar> \<bar>y\<bar> \<and>
     classify (- x) (- y) (- z) =
       (case classify x y z of PortraitUp \<Rightarrow> PortraitDown | PortraitDown \<Rightarrow> PortraitUp
        | LandscapeLeft \<Rightarrow> LandscapeRight | LandscapeRight \<Rightarrow> LandscapeLeft)"
  using classify_threshold [OF assms] classify_opposite [OF assms] by simp

theorem classification_witness:
  "kDominanceThreshold \<le> max \<bar>100\<bar> \<bar>-9000\<bar> \<and> \<bar>500 :: int\<bar> \<le> max \<bar>100\<bar> \<bar>-9000\<bar> \<and>
     classify (- 100) (- (- 9000)) (- 500) =
       (case classify 100 (- 9000) 500 of PortraitUp \<Rightarrow> PortraitDown | PortraitDown \<Rightarrow> PortraitUp
        | LandscapeLeft \<Rightarrow> LandscapeRight | LandscapeRight \<Rightarrow> LandscapeLeft)"
  by (rule classification) (simp add: classify_def Let_def kDominanceThreshold_def)


text \<open>no machine is ever detected as \<open>rMPPM\<close>: an earlier entry of the table matches its name.\<close>

theorem paper_pro_move_unreachable: "m_class (detect fs) \<noteq> ''rMPPM''"
  by (rule detect_never_rMPPM)

text \<open>the settings of the VNC connection depend on \<open>VNCAST_COMPRESS_LEVEL\<close> only: the compression,
  quality and JPEG settings that \<open>VNSEE_ENCODING\<close> chooses are overwritten, and the delay between
  repaints is positive, at most a second, and 16 ms on the vncast backend.\<close>

theorem screen_configuration:
  "let s = screen_new env d vnc orient; c = vnc_client s in
     compressLevel c = compress_env env \<and> 0 \<le> compressLevel c \<and> compressLevel c \<le> 9 \<and>
     qualityLevel c = -1 \<and> \<not> enableJPEG c \<and>
     0 < repaint_delay s \<and> repaint_delay s \<le> 1000 \<and> (if is_vncast d then repaint_delay s = 16 else True)"
  using screen_new_tuning [of env d vnc orient] screen_new_delays [of env d vnc orient]
  by (simp add: Let_def)

text \<open>the main loop of the client returns only \<open>false\<close> (the server closed the connection), never
  \<open>true\<close>: no component ever asks it to quit.\<close>

theorem event_loop_result:
  "case client_event_loop cm ps tmo False s ts of Inl e \<Rightarrow> True | Inr (b, s', ts') \<Rightarrow> b = False"
  using client_event_loop_result [of cm ps tmo s ts] by (auto split: sum.splits)

text \<open>a touch gesture: the server sees the button held at every point of it, then released at its
  last point, each point transformed to the desktop, and nothing else; then the screen is
  repainted in standard mode.\<close>

theorem gesture:
  "case run_touch cm now ((INPUT_TOUCH_PRESS, p0) # map (\<lambda>(x, y). (INPUT_TOUCH_UPDATE, x, y)) ps
         @ [(INPUT_TOUCH_RELEASE, p1)]) (s, out) of
     Inl e \<Rightarrow> True
   | Inr (s', out') \<Rightarrow>
       out' = out @ map (\<lambda>p. case transform_input s p of (x, y) \<Rightarrow> Pointer_event x y 1) (p0 # ps @ [p1]) @
         [case transform_input s p1 of (x, y) \<Rightarrow> Pointer_event x y 0] \<and>
       repaint cm now (s\<lparr>repaint_mode := standard\<rparr>) = Inr s'"
  using gesture_events [of cm now p0 ps p1 s out] by (auto simp: drag_points_def split: sum.splits)

text \<open>the software keyboard never sends the same key for two different key codes.\<close>

theorem keyboard_injective:
  assumes "mapAsciiToX11Key j = mapAsciiToX11Key k" "mapAsciiToX11Key j \<noteq> 0"
  shows "j = k"
  by (rule mapAscii_inj [OF assms])

theorem keyboard_injective_witness: "(0x84 :: int) = INPUT_VKB_LEFT"
  by (rule keyboard_injective) (simp_all add: mapAsciiToX11Key_def input_codes)

text \<open>none of the three buttons the middleware sends reaches the handler's actions, because it
  compares Linux key codes.\<close>

theorem middleware_buttons:
  assumes "b \<in> {INPUT_BTN_X_LEFT, INPUT_BTN_X_HOME, INPUT_BTN_X_RIGHT}"
  shows "buttons_handle_event cm t b d = Inr (Running d)"
  by (rule middleware_buttons_ignored [OF assms])

theorem middleware_buttons_witness:
  "buttons_handle_event (\<lambda>_. REFRESH_MODE_UI) INPUT_BTN_PRESS INPUT_BTN_X_HOME (Vncast sample_conn) =
     Inr (Running (Vncast sample_conn))"
  by (rule middleware_buttons) simp

section \<open>The framebuffer manager of the AppLoad protocol\<close>



text \<open>C29: even under those conditions the manager can deadlock for good: a run of eight events leads
  to a state in which the closing client waits for a paint, the GUI thread waits for the mutex the
  closing client holds, and no sequence of further events of any thread ever resolves it.\<close>

theorem manager_deadlocks:
  assumes "s = foldl (fb_next size100) fbm_init deadlock_run" "allowed_run fb_enabled (fb_next size100) s es"
  shows "allowed_run fb_allowed (fb_next size100) fbm_init deadlock_run \<and> stuck (foldl (fb_next size100) s es)"
  using deadlock_allowed stuck_forever [OF deadlock_stuck] assms by simp

theorem manager_deadlocks_witness:
  "stuck (foldl (fb_next size100) (foldl (fb_next size100) fbm_init deadlock_run) [Ev_poll, Ev_accept, Ev_poll])"
  by (rule conjunct2 [OF manager_deadlocks [OF refl]])
    (simp add: deadlock_run_def fb_eval fb_next_def)




text \<open>C13: a swipe reaches the desktop under the finger: for an item that shows the scaled image of one client, the
  packets of the swipe go to that client and to no other, each with the pixel of the image that is drawn
  under the finger, and vnsee, whose panel is that image, sends the VNC server the button held at the
  desktop positions which those panel pixels show, then released at the last; it fails only where the
  repaint at the end does.\<close>

theorem touch_reaches_desktop:
  assumes "fb_inv s" "controllers s j = Some c" "shows_image c im" "closing s = None"
    and "backends s (framebufferID c) = Some b" "be_connections b = [k]"
    and "list_all (on_item W H) (p0 # ps @ [p1])"
    and "screen_ok sc" "sc_device sc = Appload al" "al_w al = img_w im" "al_h al = img_h im"
      "0 < src_width sc" "0 < src_height sc"
  shows "\<exists>c' is s' q0 qs q1. touch_events W H (swipe i p0 ps p1) c = Inr (c', is) \<and>
    forward_inputs (framebufferID c) is s = Inr s' \<and> sent s' = sent s @ map (\<lambda>u. (k, User_input u)) is \<and>
    be_image b = im \<and> list_all2 (pixel_under W H im) (p0 # ps @ [p1]) (q0 # qs @ [q1]) \<and>
    (\<forall>(x, y) \<in> set (q0 # qs @ [q1]). on_panel sc x y) \<and>
    (case read_inputs cm now is (sc, out) of
       Inl e \<Rightarrow> kernel_failure e
     | Inr None \<Rightarrow> False
     | Inr (Some (sc', out')) \<Rightarrow>
         out' = out @ map (pointer_at sc 1) (q0 # qs @ [q1]) @ [pointer_at sc 0 q1])"
proof -
  have k: "threads s k \<noteq> None"
    using conns_okD(3) [OF fb_invD(1) [OF assms(1)] assms(5), of k] assms(6) conn_key_None [of s k] by auto
  have "item s j = Some (framebufferID c, Some im)" using assms(2,3) by (simp add: item_def shows_image_def)
  then have im: "be_image b = im" using items_okD(4) [OF fb_invD(3) [OF assms(1)]] assms(4,5) by fastforce
  obtain c' "is" s' q0 qs q1 where t: "touch_events W H (swipe i p0 ps p1) c = Inr (c', is)"
    "forward_inputs (framebufferID c) is s = Inr s'" "sent s' = sent s @ map (\<lambda>u. (k, User_input u)) is"
    "list_all2 (pixel_under W H im) (p0 # ps @ [p1]) (q0 # qs @ [q1])"
    "case read_inputs cm now is (sc, out) of Inl e \<Rightarrow> kernel_failure e | Inr None \<Rightarrow> False
     | Inr (Some (sc', out')) \<Rightarrow> out' = out @ map (pointer_at sc 1) (q0 # qs @ [q1]) @ [pointer_at sc 0 q1]"
    using swipe_reaches_desktop [OF assms(3,7,4,5,6) k assms(8,12,13), where i = i and cm = cm and now = now and out = out] by blast
  have "on_panel sc x y" if "pixel_under W H im p (x, y)" for p x y
    using that assms(9-11) by (cases p) (simp add: pixel_under_def on_panel_def)
  with list_all2_right [OF t(4)] have "\<forall>(x, y) \<in> set (q0 # qs @ [q1]). on_panel sc x y" by blast
  with t im show ?thesis
    by (intro exI [of _ c'] exI [of _ "is"] exI [of _ s'] exI [of _ q0] exI [of _ qs] exI [of _ q1] conjI)
qed

text \<open>One client and one item that shows its image of two by one pixels.\<close>

definition touch_run :: "fb_event list" where
  "touch_run = [Ev_new_item False, Ev_set_id 0 1, Ev_set_scaling 0 True, Ev_accept, Ev_message 0 io_fine (Custom_init 1 0 2 1)]"

definition touch_manager :: fbm where
  "touch_manager = foldl (fb_next size100) fbm_init touch_run"

definition touch_screen :: screen where
  "touch_screen = sample_screen\<lparr>sc_device := Appload \<lparr>al_shm = replicate 4 0, al_w = 2, al_h = 1, al_calls = []\<rparr>\<rparr>"

lemma touch_manager_inv: "fb_inv touch_manager"
  unfolding touch_manager_def
  by (rule fb_sys.run_inv)
    (simp add: touch_run_def fb_eval fb_allowed_def single_use_def conn_key_def item_def fb_next_def INT_MAX_def INT_MIN_def)

lemma touch_screen_ok: "screen_ok touch_screen"
  using sample_screen_ok by (simp add: touch_screen_def screen_ok_def)

theorem touch_reaches_desktop_witness:
  "\<exists>c b im c' is s' q0 qs q1. controllers touch_manager 0 = Some c \<and> backends touch_manager 1 = Some b \<and>
    touch_events 100 100 (swipe 7 (10, 20) [(60, 20)] (80, 30)) c = Inr (c', is) \<and>
    forward_inputs 1 is touch_manager = Inr s' \<and>
    list_all2 (pixel_under 100 100 im) ((10, 20) # [(60, 20)] @ [(80, 30)]) (q0 # qs @ [q1]) \<and>
    (case read_inputs (\<lambda>_. REFRESH_MODE_UI) 5 is (touch_screen, []) of
       Inl e \<Rightarrow> kernel_failure e
     | Inr None \<Rightarrow> False
     | Inr (Some (sc', out')) \<Rightarrow>
         out' = [] @ map (pointer_at touch_screen 1) (q0 # qs @ [q1]) @ [pointer_at touch_screen 0 q1])"
proof -
  obtain c b im where c: "controllers touch_manager 0 = Some c" "shows_image c im" "closing touch_manager = None"
    "framebufferID c = 1" "backends touch_manager 1 = Some b" "be_connections b = [0]" "img_w im = 2" "img_h im = 1"
    by (auto simp: touch_manager_def touch_run_def fb_eval fb_next_def shows_image_def setAllowScaling_def INT_MAX_def INT_MIN_def)
  have sc: "sc_device touch_screen = Appload \<lparr>al_shm = replicate 4 0, al_w = 2, al_h = 1, al_calls = []\<rparr>"
    "0 < src_width touch_screen" "0 < src_height touch_screen" by (simp_all add: touch_screen_def sample_screen_def)
  let ?al = "\<lparr>al_shm = replicate 4 0, al_w = 2, al_h = 1, al_calls = []\<rparr>"
  have wh: "al_w ?al = img_w im" "al_h ?al = img_h im" using c(7,8) by simp_all
  have on: "list_all (on_item 100 100) ((10, 20) # [(60, 20)] @ [(80, 30)])" by (simp add: on_item_def)
  obtain c' "is" s' q0 qs q1 where t: "touch_events 100 100 (swipe 7 (10, 20) [(60, 20)] (80, 30)) c = Inr (c', is)"
    "forward_inputs 1 is touch_manager = Inr s'"
    "list_all2 (pixel_under 100 100 im) ((10, 20) # [(60, 20)] @ [(80, 30)]) (q0 # qs @ [q1])"
    "case read_inputs (\<lambda>_. REFRESH_MODE_UI) 5 is (touch_screen, []) of Inl e \<Rightarrow> kernel_failure e | Inr None \<Rightarrow> False
     | Inr (Some (sc', out')) \<Rightarrow>
         out' = [] @ map (pointer_at touch_screen 1) (q0 # qs @ [q1]) @ [pointer_at touch_screen 0 q1]"
    using touch_reaches_desktop [OF touch_manager_inv c(1,2,3) c(5) [folded c(4)] c(6) on touch_screen_ok sc(1) wh sc(2,3),
        where i = 7 and cm = "\<lambda>_. REFRESH_MODE_UI" and now = 5 and out = "[]", unfolded c(4)] by blast
  show ?thesis
    by (intro exI [of _ c] exI [of _ b] exI [of _ im] exI [of _ c'] exI [of _ "is"] exI [of _ s'] exI [of _ q0]
        exI [of _ qs] exI [of _ q1] conjI) (rule c t)+
qed

section \<open>The middleware's launcher, its server and the item that shows the frames\<close>


definition no_io :: server_io where
  "no_io = \<lparr>io_shm_open = True, io_ftruncate = True, io_mmap = True, io_listen = True, io_shm_name = ''/vncast-1-a''\<rparr>"

definition start_default :: cast_event where
  "start_default = Ca_start no_io device_info_defaults (Inr 77) Map.empty (asMap settings_defaults)"

definition blank_code :: code_mem where
  "blank_code = \<lparr>byte_at = (\<lambda>_. 0), can_write = (\<lambda>_. False), can_exec = (\<lambda>_. True)\<rparr>"

definition no_install :: install_env where
  "no_install = (let os = \<lparr>hk_mmap = None, hk_page = 4096, hk_rwx = False, hk_rx = False\<rparr> in
     \<lparr>ie_swap = (0, os), ie_region = (0, os), ie_impl = (0, os)\<rparr>)"

lemma default_port: "port_fits (asMap settings_defaults)"
  by (simp add: port_fits_def cfg_asMap settings_defaults_def INT_MIN_def INT_MAX_def)

lemma start_default_allowed:
  "cast_inv l \<Longrightarrow> lc_server l = None \<Longrightarrow> cast_allowed dsync clk l start_default"
  using startSession_inv [of l device_info_defaults "asMap settings_defaults" dsync no_io "Inr 77" Map.empty]
  by (auto simp: cast_allowed_def start_default_def format_clash_def geometry_ok_def device_info_defaults_def default_port
      split: if_splits)

lemma fresh_launcher:
  "launcher_new Map.empty None no_install blank_code (600, 800) = Inr (launcher_with (hooks_init blank_code) (600, 800))"
  by (simp add: launcher_new_def)

lemma start_run_allowed:
  "allowed_run (cast_allowed True (\<lambda>_. 0)) (cast_next True (\<lambda>_. 0))
     (launcher_with (hooks_init blank_code) (600, 800)) [start_default]"
  using start_default_allowed launcher_new_inv [OF fresh_launcher] by (simp add: launcher_with_def)



text \<open>C23: in every reachable state the picture of the item points into the mapped memory of the
  live, listening server, which holds all its rows, and the panel hook never forces a mode.\<close>

theorem picture_always_backed:
  assumes "launcher_new env lib ie m sz = Inr l0" "allowed_run (cast_allowed dsync clk) (cast_next dsync clk) l0 es"
    and "l = foldl (cast_next dsync clk) l0 es" "fv_img (lc_view l) = Some im"
  shows "backed l im \<and> \<not> forcing (lc_hooks l)"
  using picture_backed never_forcing cast_sys.run_inv_from [OF launcher_new_inv [OF assms(1)] assms(2)] assms(3,4)
  by blast

definition started :: launcher where
  "started = cast_next True (\<lambda>_. 0) (launcher_with (hooks_init blank_code) (600, 800)) start_default"

lemma started_view:
  "fv_img (lc_view started) =
     Some \<lparr>fi_owner = 0, fi_w = 1620, fi_h = 2160, fi_stride = 1620, fi_format = Format_Grayscale8\<rparr>"
  by (simp add: started_def cast_next_def start_default_def startSession_def session_running_def launcher_with_def
      setStatus_def lc_emit_def ensureServerStarted_def start_server_def server_start_def server_init_def
      server_geometry_def allocShm_def no_io_def port_offset_def cfg_asMap settings_defaults_def device_info_defaults_def
      emit_def put_server_def server_changed_def fv_setServer_def attached_def frame_view_new_def rebuildImage_def
      request_update_def set_waveform_def spawn_vnsee_def Let_def)

theorem picture_always_backed_witness:
  "backed started \<lparr>fi_owner = 0, fi_w = 1620, fi_h = 2160, fi_stride = 1620, fi_format = Format_Grayscale8\<rparr>"
  by (rule conjunct1 [OF picture_always_backed [OF fresh_launcher start_run_allowed _ started_view]])
    (simp add: started_def)

text \<open>from every reachable state, as many turns of the event loop as server objects wait for
  destruction leave exactly the present server.\<close>

theorem retired_servers_destroyed:
  assumes "launcher_new env lib ie m sz = Inr l0" "allowed_run (cast_allowed dsync clk) (cast_next dsync clk) l0 es"
    and "l = foldl (cast_next dsync clk) l0 es"
  shows "\<exists>l'. turns dsync (length (lc_later l)) l = Inr l' \<and> lc_server l' = lc_server l \<and>
    {i. lc_objs l' i \<noteq> None} = set_option (lc_server l)"
  using turns_destroy cast_sys.run_inv_from [OF launcher_new_inv [OF assms(1)] assms(2)] assms(3) by blast

theorem retired_servers_destroyed_witness:
  "\<exists>l'. turns True (length (lc_later started)) started = Inr l' \<and> lc_server l' = lc_server started \<and>
    {i. lc_objs l' i \<noteq> None} = set_option (lc_server started)"
  by (rule retired_servers_destroyed [OF fresh_launcher start_run_allowed]) (simp add: started_def)

text \<open>C24: every binding of QML shows the present value: whatever calls, clients and the event loop do after the
  launcher was made, an expression over \<open>overlayOpen\<close>, \<open>sessionStatus\<close>, \<open>qtfbServer\<close> or a property of the
  server behind it that is evaluated again at each of its signals equals what the getters return.\<close>

theorem qml_shows_present:
  assumes "launcher_new env lib ie m sz = Inr l" "allowed_run (cast_allowed dsync clk) (cast_next dsync clk) l es"
  shows "bound qml_read qml_tells (cast_next dsync clk) p (qml_read p l) l es =
    qml_read p (foldl (cast_next dsync clk) l es)"
  by (rule cast_props.binding_current_from [OF launcher_new_inv [OF assms(1)] assms(2)])

theorem qml_shows_present_witness:
  "let l = launcher_with (hooks_init blank_code) (600, 800) in
   bound qml_read qml_tells (cast_next True (\<lambda>_. 0)) Qp_sessionStatus (Qv_status No_status) l [start_default] =
     Qv_status (Vnsee_running 77)"
proof -
  let ?l = "launcher_with (hooks_init blank_code) (600, 800)"
  have "qml_read Qp_sessionStatus ?l = Qv_status No_status" by (simp add: launcher_with_def)
  moreover have "qml_read Qp_sessionStatus (foldl (cast_next True (\<lambda>_. 0)) ?l [start_default]) = Qv_status (Vnsee_running 77)"
    using default_port
    by (auto simp: cast_next_def start_default_def startSession_def session_running_def launcher_with_def Let_def
      ensureServerStarted_def setStatus_def lc_emit_def start_server_def server_init_def server_start_def server_geometry_def
      allocShm_def no_io_def put_server_def emit_def server_changed_def set_waveform_def spawn_vnsee_def
      dest!: port_fits_offset)
  ultimately show ?thesis using qml_shows_present [OF fresh_launcher start_run_allowed, of Qp_sessionStatus] by (simp add: Let_def)
qed

text \<open>C25: on an item of any size and any of the four rotations, a frame with a rectangle inside the
  image invalidates a rectangle that contains everything \<open>paint\<close> draws of it.\<close>

theorem frame_repaints:
  assumes "view_ok v" "fv_img v = Some im" "upright v" "fv_lastSeq v \<noteq> 0"
    and "fst (fv_size v) \<le> 2 ^ 30" "snd (fv_size v) \<le> 2 ^ 30" "fi_w im \<le> INT_MAX" "fi_h im \<le> INT_MAX"
    and "0 \<le> x" "0 < w" "x + w \<le> fi_w im" "0 \<le> y" "0 < h" "y + h \<le> fi_h im"
  shows "\<exists>r. onFrameReady seq x y w h (recalcLayout v) =
      Inr (request_update (Update_rect r) (recalcLayout v\<lparr>fv_lastSeq := seq, fv_pending_paint := True\<rparr>)) \<and>
    invalidates (recalcLayout v) im x y w h r"
proof -
  have f: "fv_img (recalcLayout v) = Some im" "fv_size (recalcLayout v) = (fst (fv_size v), snd (fv_size v))"
    "upright (recalcLayout v)" "fv_lastSeq (recalcLayout v) \<noteq> 0"
    using assms by (simp_all add: recalcLayout_def upright_def Let_def split: prod.splits)
  have p: "0 < fi_w im" "0 < fi_h im" using assms by auto
  show ?thesis
    by (rule frame_ready_covers [OF recalcLayout_ok [OF assms(1)] f(1) p f(3,2) assms(5,6,9-14) assms(7,8) f(4)])
qed

definition turned_view :: frame_view where
  "turned_view = (frame_view_new (10, 10))
     \<lparr>fv_img := Some \<lparr>fi_owner = 0, fi_w = 4, fi_h = 2, fi_stride = 4, fi_format = Format_Grayscale8\<rparr>,
      fv_rotation := 90, fv_lastSeq := 7\<rparr>"

theorem frame_repaints_witness:
  "\<exists>r. onFrameReady 8 1 0 2 1 (recalcLayout turned_view) =
      Inr (request_update (Update_rect r) (recalcLayout turned_view\<lparr>fv_lastSeq := 8, fv_pending_paint := True\<rparr>)) \<and>
    invalidates (recalcLayout turned_view)
      \<lparr>fi_owner = 0, fi_w = 4, fi_h = 2, fi_stride = 4, fi_format = Format_Grayscale8\<rparr> 1 0 2 1 r"
  by (rule frame_repaints)
    (simp_all add: turned_view_def frame_view_new_def view_ok_def upright_def INT_MAX_def)

text \<open>C26: installing the hook never faults; when it yields a thunk, running the processor at the
  function's address reaches the handler, and the thunk holds the overwritten bytes and continues
  behind them; when it yields none, the function is unchanged.\<close>

theorem hook_redirects:
  assumes "os_sane os target"
  shows "\<exists>t m'. install_inline_hook_at os target handler m = Inr (t, m') \<and>
    (if t = 0 then read_mem target 16 m' = read_mem target 16 m else redirected m m' target handler t)"
  by (rule install_total [OF assms])

definition sample_hook :: hook_os where
  "sample_hook = \<lparr>hk_mmap = Some 0x20000, hk_page = 4096, hk_rwx = True, hk_rx = True\<rparr>"

lemma sample_os_sane: "os_sane sample_hook 0x1000"
proof -
  have f: "hk_mmap sample_hook = Some 0x20000" "hk_page sample_hook = 4096" by (simp_all add: sample_hook_def)
  have "\<not> in_range 0x1000 16 x" if "in_range 0x20000 4096 x" for x
    using that apart [of "0x1000" 0 16 x "0x1F000" 4096] by auto
  moreover have "hk_page sample_hook = 2 ^ 12" unfolding f by simp
  then have "\<exists>k. 5 \<le> k \<and> k \<le> 32 \<and> hk_page sample_hook = 2 ^ k" by (intro exI [of _ 12] conjI) simp_all
  ultimately show ?thesis unfolding os_sane_def f by simp
qed

theorem hook_redirects_witness:
  "\<exists>t m'. install_inline_hook_at sample_hook 0x1000 0x3000 blank_code
      = Inr (t, m') \<and>
    (if t = 0 then read_mem 0x1000 16 m' = read_mem 0x1000 16 blank_code else redirected blank_code m' 0x1000 0x3000 t)"
  by (rule hook_redirects [OF sample_os_sane])

section \<open>The command line, the preferences and the end of the program\<close>

text \<open>C36: a command line written from operands, flags, options with values and groups of letters
  is parsed to what it means, and everything after a double dash is an operand.\<close>

theorem command_line:
  assumes "line_ok as"
  shows "parse (concat (map render as)) = denote as \<and>
    parse (concat (map render as) @ ''--'' # rest) = (case denote as of (d, ops) \<Rightarrow> (d, ops @ rest))"
  using parse_render [OF assms] parse_double_dash [OF assms] by simp

theorem command_line_witness:
  "parse (concat (map render [Operand ''10.0.0.1'', Opt_next ''orientation'' ''portrait'', Flag ''no-pen''])) =
     denote [Operand ''10.0.0.1'', Opt_next ''orientation'' ''portrait'', Flag ''no-pen'']"
  by (rule conjunct1 [OF command_line]) (simp add: plain_def key_ok_def cstr_at_def)









text \<open>C38: a port other than the default never reaches the connection: vnsee takes the launcher's
  argument, with the port's offset appended, as the host, and connects to port 5900.\<close>

theorem port_lost:
  assumes "plain host" "cstr_at host 0 \<noteq> CHR ''-''"
  shows "\<exists>cfg. main_args env (vnsee_args host port) = Start cfg \<and> server_port cfg = 5900 \<and>
    server_ip cfg = (if port = 5900 then host else host @ '':'' @ show_int (port - 5900))"
  using vnsee_args_main [OF assms] by simp

theorem port_lost_witness:
  "\<exists>cfg. main_args Map.empty (vnsee_args ''10.11.99.2'' 5901) = Start cfg \<and> server_port cfg = 5900 \<and>
    server_ip cfg = (if (5901 :: int) = 5900 then ''10.11.99.2'' else ''10.11.99.2'' @ '':'' @ show_int (5901 - 5900))"
  by (rule port_lost) (simp_all add: plain_def cstr_at_def)

section \<open>The monochrome encodings\<close>

text \<open>C27: whatever a server sends and memory holds, the decoder of the monochrome encodings stays
  inside its buffers and reports whole pictures; a list of runs shows the picture it describes, as
  if sent raw, but where the runs end early it shows what the allocated memory held before.\<close>

theorem mono_decoder:
  assumes "alloc_ok alloc" "supplied alloc bits Mono1z r (length (render_runs rs))"
    and "alloc 0 ((unat (mr_w r) + 7) div 8 * unat (mr_h r)) = Some old"
    and "list_all run_ok rs" "length (render_runs rs) < 2 ^ 32"
  shows "(\<exists>res. handle_mono alloc bits enc r rx = Inr res \<and>
      (case res of None \<Rightarrow> True
       | Some (rest, calls) \<Rightarrow> (\<exists>used. rx = used @ rest) \<and>
           (\<exists>packed. length packed = (unat (mr_w r) + 7) div 8 * unat (mr_h r) \<and>
              calls = mono_calls (bits div 8) r packed))) \<and>
    handle_mono alloc bits Mono1z r (t # mono_payload rs @ rest) =
      Inr (Some (rest, mono_calls (bits div 8) r (take (length old) (expand_runs rs) @ drop (length (expand_runs rs)) old))) \<and>
    (length (expand_runs rs) = length old \<longrightarrow>
      handle_mono alloc bits Mono1z r (t # mono_payload rs @ rest) =
      handle_mono alloc bits Mono1 r (t # expand_runs rs @ rest))"
proof -
  have "length old = (unat (mr_w r) + 7) div 8 * unat (mr_h r)" using assms(1,3) by (simp add: alloc_ok_def)
  then show ?thesis
    using handle_mono_total [OF assms(1)] handle_mono_runs [OF assms(1,2,4,5,3)] handle_mono_same [OF assms(1,2,4,5)]
    by simp
qed

definition leaky :: allocator where
  "leaky i n = Some (replicate n 0x55)"

definition sample_rect :: mono_rect where
  "sample_rect = \<lparr>mr_x = 0, mr_y = 0, mr_w = 8, mr_h = 2\<rparr>"

theorem mono_decoder_witness:
  "handle_mono leaky 16 Mono1z sample_rect (9 # mono_payload [Literal [0xF0]] @ [1, 2]) =
     Inr (Some ([1, 2], mono_calls 2 sample_rect [0xF0, 0x55]))"
proof -
  have f: "alloc_ok leaky" "supplied leaky 16 Mono1z sample_rect (length (render_runs [Literal [0xF0]]))"
    by (simp_all add: alloc_ok_def supplied_def leaky_def)
  have old: "leaky 0 ((unat (mr_w sample_rect) + 7) div 8 * unat (mr_h sample_rect)) = Some [0x55, 0x55]"
    by (simp add: leaky_def sample_rect_def numeral_2_eq_2 [symmetric]) (simp add: numeral_2_eq_2)
  show ?thesis
    using mono_decoder [OF f old, of Mono1 "[]" 9 "[1, 2]"] by simp
qed

text \<open>the raw monochrome encoding can never be requested: its name is a prefix of the name that
  is compared first, so the list of the screen asks for the run-length encoding twice.\<close>

theorem mono1_never_requested:
  "patch_encoding word \<noteq> Some (-789) \<and> patch_encoding ''rcastmono1'' = Some (-791)"
  using patch_encoding_never_raw by (simp add: patch_encoding_def)

section \<open>From the desktop to the glass\<close>






















section \<open>Properties of the threads of a screen\<close>




text \<open>C10: a repaint of the input thread that overlaps a merge of the main thread loses an update for
  good. Inside the merge it clears the flag the merge relies on: the new rectangle is extended but no
  longer marked, and no cell outside the old one changes. Around the merge, it clears the flag and the
  main thread then replaces the rectangle: no cell outside the new one changes, and the old one is
  not pending any more.\<close>

theorem touch_race_loses_update:
  assumes "screen_ok s" "rect_ok x y w h" "has_update (update_info s)" "\<not> bad_merge (update_info s) x y w h"
    "repaint_mode s = standard"
  shows "\<exists>r1 r2.
     thread_run cm [Main_read, Input_begin now, Input_copy, Main_write]
       ((threads_at s)\<lparr>th_main := Main_painted x y w h\<rparr>) r1 \<and>
     thread_run cm [Input_begin now, Main_read, Main_write, Input_copy]
       ((threads_at s)\<lparr>th_main := Main_painted x y w h\<rparr>) r2 \<and>
     (case r1 of
        Inl e \<Rightarrow> kernel_failure e
      | Inr t1 \<Rightarrow> (\<forall>later. event_loop cm later (th_screen t1) = Inr (th_screen t1, \<lparr>quit = False, timeout = -1\<rparr>)) \<and>
          (\<forall>c r. on_panel s c r \<and> \<not> in_pending s (shown_at s c r) \<longrightarrow>
             panel_px (th_screen t1) c r = panel_px s c r)) \<and>
     (case r2 of
        Inl e \<Rightarrow> kernel_failure e
      | Inr t2 \<Rightarrow> (\<forall>c r. on_panel s c r \<and> \<not> in_rect x y w h (shown_at s c r) \<longrightarrow>
             panel_px (th_screen t2) c r = panel_px s c r \<and> \<not> in_pending (th_screen t2) (shown_at s c r)))"
proof -
  let ?m = "(merged (update_info s) x y w h)\<lparr>has_update := False\<rparr>"
  let ?f = "\<lparr>ui_x = x, ui_y = y, ui_w = w, ui_h = h, has_update = True\<rparr>"
  let ?b = "(repaint_begin now s)\<lparr>update_info := ?f\<rparr>"
  let ?r1 = "bindE (repaint cm now s) (\<lambda>s'. Inr (threads_at (s'\<lparr>update_info := ?m\<rparr>)))"
  let ?r2 = "bindE (repaint_copy cm ?b) (\<lambda>s'. Inr (threads_at s'))"
  have "case ?r1 of
        Inl e \<Rightarrow> kernel_failure e
      | Inr t1 \<Rightarrow> (\<forall>later. event_loop cm later (th_screen t1) = Inr (th_screen t1, \<lparr>quit = False, timeout = -1\<rparr>)) \<and>
          (\<forall>c r. on_panel s c r \<and> \<not> in_pending s (shown_at s c r) \<longrightarrow>
             panel_px (th_screen t1) c r = panel_px s c r)"
    using repaint_spec [OF assms(1), where cm = cm and now = now]
    by (cases "repaint cm now s")
      (auto simp: event_loop_quiet repainted_def panel_px_def panel_geom_def)
  moreover have "case ?r2 of
        Inl e \<Rightarrow> kernel_failure e
      | Inr t2 \<Rightarrow> (\<forall>c r. on_panel s c r \<and> \<not> in_rect x y w h (shown_at s c r) \<longrightarrow>
             panel_px (th_screen t2) c r = panel_px s c r \<and> \<not> in_pending (th_screen t2) (shown_at s c r))"
  proof (cases "repaint_copy cm ?b")
    case (Inl e)
    have "screen_ok ?b" using assms(1,2) by (simp add: screen_ok_def repaint_begin_def)
    with Inl show ?thesis using repaint_copy_spec [of ?b cm] by simp
  next
    case (Inr s')
    have "screen_ok ?b" using assms(1,2) by (simp add: screen_ok_def repaint_begin_def)
    then have s': "same_view ?b s'" "repainted ?b s'" "s' = ?b\<lparr>sc_device := sc_device s'\<rparr>"
      using repaint_copy_spec [of ?b cm] Inr by auto
    have "same_view s ?b" by (simp add: same_view_def repaint_begin_def)
    note v = same_view_px [OF this]
    have u: "update_info s' = ?f" by (subst s'(3)) simp
    have p: "panel_px ?b = panel_px s" by (simp add: panel_px_def panel_geom_def repaint_begin_def fun_eq_iff)
    have i: "in_pending ?b = in_rect x y w h" "in_pending s' = in_rect x y w h" by (simp_all add: in_pending_def u)
    show ?thesis using s'(2) Inr unfolding repainted_def v p i by (simp add: i)
  qed
  ultimately show ?thesis
    using run_touch_inside [OF assms, of cm now] run_touch_around [OF assms(5), of cm now x y w h] by blast
qed

text \<open>The first pixel is pending and has just been joined by the second; the last one is on the panel.\<close>

definition race_screen :: screen where
  "race_screen = desync_before
     \<lparr>src_buffer := [0xFF, 0xFF, 0xFF, 0xFF] @ replicate 26 0 @ [0, 0xF8],
      sc_device := Appload \<lparr>al_shm = replicate 30 0 @ [0, 0xF8], al_w = 16, al_h = 1, al_calls = []\<rparr>\<rparr>"

lemma race_screen_ok:
  "screen_ok race_screen" "rect_ok 1 0 1 1" "has_update (update_info race_screen)"
  "\<not> bad_merge (update_info race_screen) 1 0 1 1" "repaint_mode race_screen = standard"
  "sensor_turns InvertedPortrait race_screen" "0 < src_width race_screen" "0 < src_height race_screen"
  by (simp_all add: race_screen_def desync_before_def screen_ok_def rect_ok_def bad_merge_def sensor_turns_def)

lemma race_screen_px:
  "panel_px race_screen 1 0 = [0, 0]" "src_px race_screen (1, 0) = [0xFF, 0xFF]"
  "panel_px race_screen 0 0 = [0, 0]" "src_px race_screen (15, 0) = [0, 0xF8]"
  by (simp_all add: race_screen_def desync_before_def panel_px_def panel_geom_def src_px_def src_geom_def
      pix_geom_def byte_get_def byte_off_def eval_nat_numeral)

lemma race_screen_stale:
  "on_panel race_screen 1 0 \<and> \<not> in_pending race_screen (1, 0) \<and> shown_at race_screen 1 0 = (1, 0) \<and>
   panel_px race_screen 1 0 \<noteq> src_px race_screen (1, 0)"
  "on_panel race_screen 0 0 \<and> panel_px race_screen 0 0 \<noteq> src_px race_screen (15, 0) \<and>
   source_of InvertedPortrait (src_width race_screen) (src_height race_screen) (0, 0) = (15, 0)"
proof -
  have "on_panel race_screen 1 0" "on_panel race_screen 0 0" "\<not> in_pending race_screen (1, 0)"
    "shown_at race_screen 1 0 = (1, 0)"
    "source_of InvertedPortrait (src_width race_screen) (src_height race_screen) (0, 0) = (15, 0)"
    by (simp_all add: race_screen_def desync_before_def on_panel_def in_pending_def in_rect_def shown_at_def source_of_def)
  then show "on_panel race_screen 1 0 \<and> \<not> in_pending race_screen (1, 0) \<and> shown_at race_screen 1 0 = (1, 0) \<and>
     panel_px race_screen 1 0 \<noteq> src_px race_screen (1, 0)"
    "on_panel race_screen 0 0 \<and> panel_px race_screen 0 0 \<noteq> src_px race_screen (15, 0) \<and>
     source_of InvertedPortrait (src_width race_screen) (src_height race_screen) (0, 0) = (15, 0)"
    by (simp_all add: race_screen_px)
qed

theorem touch_race_loses_update_witness:
  "(\<exists>r1 r2.
     thread_run (\<lambda>_. REFRESH_MODE_UI) [Main_read, Input_begin 5, Input_copy, Main_write]
       ((threads_at race_screen)\<lparr>th_main := Main_painted 1 0 1 1\<rparr>) r1 \<and>
     thread_run (\<lambda>_. REFRESH_MODE_UI) [Input_begin 5, Main_read, Main_write, Input_copy]
       ((threads_at race_screen)\<lparr>th_main := Main_painted 1 0 1 1\<rparr>) r2 \<and>
     (case r1 of
        Inl e \<Rightarrow> kernel_failure e
      | Inr t1 \<Rightarrow> (\<forall>later. event_loop (\<lambda>_. REFRESH_MODE_UI) later (th_screen t1) =
            Inr (th_screen t1, \<lparr>quit = False, timeout = -1\<rparr>)) \<and>
          (\<forall>c r. on_panel race_screen c r \<and> \<not> in_pending race_screen (shown_at race_screen c r) \<longrightarrow>
             panel_px (th_screen t1) c r = panel_px race_screen c r)) \<and>
     (case r2 of
        Inl e \<Rightarrow> kernel_failure e
      | Inr t2 \<Rightarrow> (\<forall>c r. on_panel race_screen c r \<and> \<not> in_rect 1 0 1 1 (shown_at race_screen c r) \<longrightarrow>
             panel_px (th_screen t2) c r = panel_px race_screen c r \<and>
             \<not> in_pending (th_screen t2) (shown_at race_screen c r)))) \<and>
   on_panel race_screen 1 0 \<and> \<not> in_pending race_screen (1, 0) \<and> shown_at race_screen 1 0 = (1, 0) \<and>
   panel_px race_screen 1 0 \<noteq> src_px race_screen (1, 0)"
  using touch_race_loses_update [OF race_screen_ok(1-5)] race_screen_stale(1) by blast

text \<open>C11: a turn of the display that falls between the reads and the writes of a merge is not repaired
  by a later repaint: its mark is overwritten, the next repaint copies the merged rectangle alone under
  the new orientation and clears the flag, and the event loop then waits for the server, while every
  cell outside that rectangle shows what it showed before the turn.\<close>

theorem sensor_race_stale:
  assumes "screen_ok s" "rect_ok x y w h" "has_update (update_info s)" "\<not> bad_merge (update_info s) x y w h"
    "sensor_turns orient s" "0 < src_width s" "0 < src_height s" "repaint_mode s = standard"
  shows "\<exists>s1. thread_run cm [Main_read, Sensor_turn orient, Sensor_mark, Main_write]
       ((threads_at s)\<lparr>th_main := Main_painted x y w h\<rparr>) (Inr (threads_at s1)) \<and>
     effective s1 = orient \<and> update_info s1 = merged (update_info s) x y w h \<and>
     (case repaint cm now s1 of
        Inl e \<Rightarrow> kernel_failure e
      | Inr s2 \<Rightarrow> (\<forall>later. event_loop cm later s2 = Inr (s2, \<lparr>quit = False, timeout = -1\<rparr>)) \<and>
          (\<forall>c r. on_panel s c r \<and> \<not> in_pending s1 (shown_at s1 c r) \<longrightarrow> panel_px s2 c r = panel_px s c r))"
proof -
  let ?s1 = "s\<lparr>effective := orient, update_info := merged (update_info s) x y w h\<rparr>"
  have ok: "screen_ok ?s1" using assms(1,2,5) merged_rect_ok [of "update_info s" x y w h]
    by (simp add: screen_ok_def sensor_turns_def)
  have v: "on_panel ?s1 = on_panel s" "panel_px ?s1 = panel_px s"
    by (simp_all add: on_panel_def panel_px_def panel_geom_def fun_eq_iff)
  have "case repaint cm now ?s1 of
        Inl e \<Rightarrow> kernel_failure e
      | Inr s2 \<Rightarrow> (\<forall>later. event_loop cm later s2 = Inr (s2, \<lparr>quit = False, timeout = -1\<rparr>)) \<and>
          (\<forall>c r. on_panel s c r \<and> \<not> in_pending ?s1 (shown_at ?s1 c r) \<longrightarrow> panel_px s2 c r = panel_px s c r)"
    using repaint_spec [OF ok, where cm = cm and now = now] assms(8)
    unfolding repainted_def v by (auto simp: event_loop_quiet split: sum.splits)
  moreover note run_sensor_race [OF assms(1-7), of cm]
  ultimately show ?thesis by (intro exI [of _ ?s1]) simp
qed

theorem sensor_race_stale_witness:
  "(\<exists>s1. thread_run (\<lambda>_. REFRESH_MODE_UI) [Main_read, Sensor_turn InvertedPortrait, Sensor_mark, Main_write]
       ((threads_at race_screen)\<lparr>th_main := Main_painted 1 0 1 1\<rparr>) (Inr (threads_at s1)) \<and>
     effective s1 = InvertedPortrait \<and> update_info s1 = merged (update_info race_screen) 1 0 1 1 \<and>
     (case repaint (\<lambda>_. REFRESH_MODE_UI) 5 s1 of
        Inl e \<Rightarrow> kernel_failure e
      | Inr s2 \<Rightarrow> (\<forall>later. event_loop (\<lambda>_. REFRESH_MODE_UI) later s2 = Inr (s2, \<lparr>quit = False, timeout = -1\<rparr>)) \<and>
          (\<forall>c r. on_panel race_screen c r \<and> \<not> in_pending s1 (shown_at s1 c r) \<longrightarrow>
             panel_px s2 c r = panel_px race_screen c r))) \<and>
   on_panel race_screen 0 0 \<and> panel_px race_screen 0 0 \<noteq> src_px race_screen (15, 0) \<and>
   source_of InvertedPortrait (src_width race_screen) (src_height race_screen) (0, 0) = (15, 0)"
  using sensor_race_stale [OF race_screen_ok(1-4,6-8,5)] race_screen_stale(2) by blast









end
